(* ===== verification/Prelude.thy ===== *)
theory Prelude
  imports Complex_Main "HOL-Library.Word" "HOL-Library.Multiset"
begin

text \<open>
  Shared vocabulary of the development.

  \<^item> C integers: unsigned types are words of their width (arithmetic wraps); signed types are
    \<open>int\<close>, because signed overflow has no meaning in C, and the conversions that do have one
    (truncation to a 32-bit \<open>int\<close>) are written out (\<open>u64_to_c_int\<close>).
  \<^item> C failures: \<open>'a c_result\<close> is a sum whose left side says how the process ends: a failed
    \<open>assert\<close>, an \<open>exit\<close>/\<open>abort\<close>, or an operation C gives no meaning (a NULL dereference, an
    array access out of bounds, a division by zero). Every such point of the source is a branch.
  \<^item> \<open>ring_log\<close>: the interface of "write at counter modulo capacity, increase the counter",
    which the per-thread latency samples and the per-thread transmit timestamps share.
\<close>

named_theorems c_result_simps \<open>when a sequence of fallible C operations succeeds\<close>

type_synonym u16 = "16 word"
type_synonym u32 = "32 word"
type_synonym u64 = "64 word"

datatype c_error = Assertion_Failed | Process_Exit int | Undefined

type_synonym 'a c_result = "c_error + 'a"

subsection \<open>Sequencing fallible operations\<close>

definition c_bind :: "'a c_result \<Rightarrow> ('a \<Rightarrow> 'b c_result) \<Rightarrow> 'b c_result" where
  "c_bind m f = (case m of Inl e \<Rightarrow> Inl e | Inr x \<Rightarrow> f x)"

lemma c_bind_Inl [simp]: "c_bind (Inl e) f = Inl e"
  by (simp add: c_bind_def)

lemma c_bind_Inr [simp]: "c_bind (Inr x) f = f x"
  by (simp add: c_bind_def)

lemma c_bind_eq_Inr [c_result_simps]:
  "c_bind m f = Inr y \<longleftrightarrow> (\<exists>x. m = Inr x \<and> f x = Inr y)"
  by (cases m) auto

lemma c_bind_eq_Inl:
  "c_bind m f = Inl e \<longleftrightarrow> m = Inl e \<or> (\<exists>x. m = Inr x \<and> f x = Inl e)"
  by (cases m) auto

lemma c_bind_cong [fundef_cong]:
  "m = m' \<Longrightarrow> (\<And>x. m' = Inr x \<Longrightarrow> f x = g x) \<Longrightarrow> c_bind m f = c_bind m' g"
  by (cases m') auto

text \<open>\<open>assert(b)\<close>: the code is built without \<open>NDEBUG\<close>, so a failed assertion aborts.\<close>

definition c_assert :: "bool \<Rightarrow> unit c_result" where
  "c_assert b = (if b then Inr () else Inl Assertion_Failed)"

lemma c_assert_True [simp]: "c_assert True = Inr ()"
  by (simp add: c_assert_def)

lemma c_assert_False [simp]: "c_assert False = Inl Assertion_Failed"
  by (simp add: c_assert_def)

lemma c_assert_eq_Inr [c_result_simps]: "c_assert b = Inr u \<longleftrightarrow> b"
  by (cases b) auto

subsection \<open>Arrays\<close>

definition c_read :: "'a list \<Rightarrow> nat \<Rightarrow> 'a c_result" where
  "c_read xs i = (if i < length xs then Inr (xs ! i) else Inl Undefined)"

definition c_write :: "'a list \<Rightarrow> nat \<Rightarrow> 'a \<Rightarrow> 'a list c_result" where
  "c_write xs i v = (if i < length xs then Inr (xs[i := v]) else Inl Undefined)"

lemma c_read_eq_Inr [c_result_simps]: "c_read xs i = Inr v \<longleftrightarrow> i < length xs \<and> v = xs ! i"
  by (auto simp: c_read_def)

lemma c_write_eq_Inr [c_result_simps]:
  "c_write xs i v = Inr ys \<longleftrightarrow> i < length xs \<and> ys = xs[i := v]"
  by (auto simp: c_write_def)

lemma c_read_inside [simp]: "i < length xs \<Longrightarrow> c_read xs i = Inr (xs ! i)"
  by (simp add: c_read_def)

lemma c_write_inside [simp]: "i < length xs \<Longrightarrow> c_write xs i v = Inr (xs[i := v])"
  by (simp add: c_write_def)

text \<open>\<open>memcpy(&dst[d], src, n)\<close> between two different arrays.\<close>

definition c_memcpy :: "'a list \<Rightarrow> nat \<Rightarrow> 'a list \<Rightarrow> nat \<Rightarrow> 'a list c_result" where
  "c_memcpy dst d src n =
     (if n \<le> length src \<and> d + n \<le> length dst
      then Inr (take d dst @ take n src @ drop (d + n) dst) else Inl Undefined)"

lemma c_memcpy_eq_Inr [c_result_simps]:
  "c_memcpy dst d src n = Inr r \<longleftrightarrow>
   n \<le> length src \<and> d + n \<le> length dst \<and> r = take d dst @ take n src @ drop (d + n) dst"
  by (auto simp: c_memcpy_def)

lemma length_c_memcpy: "c_memcpy dst d src n = Inr r \<Longrightarrow> length r = length dst"
  by (auto simp: c_memcpy_def split: if_splits)

subsection \<open>Conversions between integer types\<close>

text \<open>Returning a \<open>uint64_t\<close> as an \<open>int\<close> keeps the low 32 bits, read as two's complement.\<close>

definition u64_to_c_int :: "u64 \<Rightarrow> int" where
  "u64_to_c_int w = sint (ucast w :: 32 word)"

definition long_to_c_int :: "int \<Rightarrow> int" where
  "long_to_c_int x = sint (word_of_int x :: 32 word)"

lemma signed_take_bit_32: "- (2 ^ 31) \<le> (x::int) \<Longrightarrow> x < 2 ^ 31 \<Longrightarrow> signed_take_bit 31 x = x"
  by (rule signed_take_bit_int_eq_self) simp_all

lemma long_to_c_int_id: "- (2 ^ 31) \<le> x \<Longrightarrow> x < 2 ^ 31 \<Longrightarrow> long_to_c_int x = x"
  by (simp add: long_to_c_int_def sint_sbintrunc' signed_take_bit_32)

text \<open>Counters and additions on words, read as numbers.\<close>

lemma unat_Suc_u32: "unat (w :: u32) + 1 < 2 ^ 32 \<Longrightarrow> unat (w + 1) = unat w + 1"
  by (subst unat_add_lem [THEN iffD1]) simp_all

lemma unat_add_u64: "unat (v :: u64) + unat w < 2 ^ 64 \<Longrightarrow> unat (v + w) = unat v + unat w"
  by (subst unat_add_lem [THEN iffD1]) simp_all

lemma unat_u32_lt [simp]: "unat (w :: u32) < 4294967296"
  by (rule order_less_le_trans [OF unsigned_less]) simp

lemma unat_u32_pow: "unat (w :: u32) < 2 ^ 32"
  by simp

lemma unat_Suc_less:
  assumes "w < (v :: u32)"
  shows "unat (w + 1) = unat w + 1"
proof (rule unat_Suc_u32)
  have "unat w < unat v" using assms by (simp add: word_less_nat_alt)
  moreover have "unat v < 2 ^ 32" by simp
  ultimately show "unat w + 1 < 2 ^ 32" by linarith
qed

lemma unat_of_nat_u32: "n < 2 ^ 32 \<Longrightarrow> unat (word_of_nat n :: u32) = n"
  by (simp add: unat_of_nat)

lemma unat_of_nat_u64: "n < 2 ^ 64 \<Longrightarrow> unat (word_of_nat n :: u64) = n"
  by (simp add: unat_of_nat)

lemma unat_word_of_int_u32: "0 \<le> k \<Longrightarrow> k < 2 ^ 32 \<Longrightarrow> unat (word_of_int k :: u32) = nat k"
  by (simp add: unat_eq_nat_uint uint_word_of_int)

lemma unat_word_of_int_u64: "0 \<le> k \<Longrightarrow> k < 2 ^ 64 \<Longrightarrow> unat (word_of_int k :: u64) = nat k"
  by (simp add: unat_eq_nat_uint uint_word_of_int)

lemma u64_to_c_int_eq: "u64_to_c_int w = signed_take_bit 31 (uint w)"
  unfolding u64_to_c_int_def by transfer (simp add: signed_take_bit_take_bit)

lemma u64_to_c_int_sub:
  assumes "\<bar>int (unat x) - int (unat y)\<bar> < 2 ^ 31"
  shows "u64_to_c_int (x - y) = int (unat x) - int (unat y)"
proof -
  have "uint (x - y) = take_bit 64 (uint x - uint y)"
    by (simp add: uint_word_ariths take_bit_eq_mod)
  then have "u64_to_c_int (x - y) = signed_take_bit 31 (uint x - uint y)"
    by (simp only: u64_to_c_int_eq signed_take_bit_take_bit) simp
  with assms show ?thesis
    by (simp add: signed_take_bit_32)
qed

lemma signed_take_bit_31: "0 \<le> (k :: int) \<Longrightarrow> k < 2 ^ 32 \<Longrightarrow> signed_take_bit 31 k = (if k < 2 ^ 31 then k else k - 2 ^ 32)"
  using mod_pos_geq [of "2 ^ 32" "k + 2 ^ 31"] by (auto simp: signed_take_bit_eq_take_bit_shift take_bit_eq_mod)

lemma u64_to_c_int_pos: "0 < u64_to_c_int w \<longleftrightarrow> 0 < unat w mod 2 ^ 32 \<and> unat w mod 2 ^ 32 < 2 ^ 31"
proof -
  let ?k = "uint w mod 2 ^ 32"
  have "u64_to_c_int w = signed_take_bit 31 (take_bit (Suc 31) (uint w))"
    by (simp only: u64_to_c_int_eq signed_take_bit_take_bit) simp
  also have "take_bit (Suc 31) (uint w) = ?k" by (simp add: take_bit_eq_mod)
  also have "signed_take_bit 31 ?k = (if ?k < 2 ^ 31 then ?k else ?k - 2 ^ 32)"
    by (rule signed_take_bit_31) simp_all
  finally have "u64_to_c_int w = (if ?k < 2 ^ 31 then ?k else ?k - 2 ^ 32)" .
  moreover have "?k = int (unat w mod 2 ^ 32)" by (simp only: uint_nat zmod_int of_nat_power of_nat_numeral)
  moreover have "unat w mod 2 ^ 32 < 2 ^ 32" by simp
  moreover have "0 < x \<longleftrightarrow> 0 < n \<and> n < 2 ^ 31"
    if "x = (if int n < 2 ^ 31 then int n else int n - 2 ^ 32)" "n < 2 ^ 32" for n x
    using that by auto
  ultimately show ?thesis by (simp only:)
qed

lemma mod_complement:
  assumes "(d :: nat) \<le> n * k" and "0 < k"
  shows "(n * k - d) mod k = (if d mod k = 0 then 0 else k - d mod k)"
proof -
  have "int ((n * k - d) mod k) = (- int d) mod int k"
    using assms(1) by (simp add: zmod_int of_nat_diff) (metis add.commute mod_mult_self1 mult.commute uminus_add_conv_diff)
  also have "\<dots> = int (if d mod k = 0 then 0 else k - d mod k)"
    using assms(2) by (simp add: zmod_zminus1_eq_if of_nat_diff less_imp_le flip: zmod_int)
  finally show ?thesis by (simp only: of_nat_eq_iff)
qed

lemma takeWhile_sorted_prefix:
  fixes f :: "'a \<Rightarrow> 'b :: linorder"
  assumes "sorted_wrt (<) (map f xs)" and "i < length xs"
  shows "i < length (takeWhile (\<lambda>x. f x \<le> a) xs) \<longleftrightarrow> f (xs ! i) \<le> a"
  using assms
proof (induction xs arbitrary: i)
  case (Cons x xs)
  then show ?case
    by (cases i) (auto simp: not_le dest: order_less_trans nth_mem)
qed simp

end
