(* ===== verification/Ring_Log.thy ===== *)
theory Ring_Log
  imports Prelude
begin

text \<open>
  The interface of a bounded log: \<open>buf[count++ % cap] = x\<close>. The agent keeps its latency samples
  (\<open>stats.c\<close>, \<open>add_latency_sample\<close>) and its transmit timestamps (\<open>add_tx_timestamp\<close>) this way.
  The client's fact, proved once in the locale: whatever was in the buffer before, after any
  number of writes the first \<open>min n cap\<close> slots hold exactly the last \<open>min n cap\<close> values written.
\<close>

definition last_n :: "nat \<Rightarrow> 'a list \<Rightarrow> 'a list" where
  "last_n k xs = drop (length xs - k) xs"

lemma length_last_n [simp]: "length (last_n k xs) = min k (length xs)"
  by (simp add: last_n_def)

lemma last_n_all: "length xs \<le> k \<Longrightarrow> last_n k xs = xs"
  by (simp add: last_n_def)

lemma set_last_n: "set (last_n k xs) \<subseteq> set xs"
  by (simp add: last_n_def set_drop_subset)

text \<open>What the writes leave in the slots, before any multiset is mentioned.\<close>

definition ring_holds :: "nat \<Rightarrow> 'a list \<Rightarrow> 'a list \<Rightarrow> bool" where
  "ring_holds cap buf xs \<longleftrightarrow> cap \<le> length buf \<and>
     (\<forall>i < length xs. length xs \<le> i + cap \<longrightarrow> buf ! (i mod cap) = xs ! i) \<and>
     mset (take (min (length xs) cap) buf) = mset (last_n cap xs)"

lemma ring_holds_Nil [simp]: "ring_holds cap buf [] \<longleftrightarrow> cap \<le> length buf"
  by (simp add: ring_holds_def last_n_def)

lemma mod_eq_window:
  fixes i n cap :: nat
  assumes "i mod cap = n mod cap" and "i < n" and "n < i + cap"
  shows False
proof -
  from assms have "cap dvd n - i"
    by (metis less_imp_le_nat mod_eq_dvd_iff_nat)
  with assms show False
    by (auto dest: dvd_imp_le)
qed

lemma ring_holds_slots:
  assumes "0 < cap" and "ring_holds cap buf xs"
    and "i < Suc (length xs)" and "Suc (length xs) \<le> i + cap"
  shows "(buf[length xs mod cap := x]) ! (i mod cap) = (xs @ [x]) ! i"
proof (cases "i = length xs")
  case True
  with assms have "length xs mod cap < length buf"
    by (metis mod_less_divisor order_less_le_trans ring_holds_def)
  with True show ?thesis by simp
next
  case False
  with assms(3) have i: "i < length xs" by simp
  with assms(4) have "i mod cap \<noteq> length xs mod cap"
    using mod_eq_window [of i cap "length xs"] by (auto simp: Suc_le_eq)
  with assms(2,4) i show ?thesis
    by (simp add: ring_holds_def nth_append)
qed

lemma ring_holds_mset:
  assumes cap: "0 < cap" and ring: "ring_holds cap buf xs"
  shows "mset (take (min (Suc (length xs)) cap) (buf[length xs mod cap := x]))
       = mset (last_n cap (xs @ [x]))"
proof (cases "length xs < cap")
  case True
  from ring have len: "cap \<le> length buf"
    and eq: "mset (take (length xs) buf) = mset xs"
    using True by (auto simp: ring_holds_def last_n_all)
  from True len have "take (Suc (length xs)) (buf[length xs := x]) = take (length xs) buf @ [x]"
    by (simp add: take_Suc_conv_app_nth)
  with True eq show ?thesis
    by (simp add: last_n_all)
next
  case False
  then have full: "cap \<le> length xs" by simp
  define j where "j = length xs - cap"
  from full cap have j: "j < length xs" and jm: "j mod cap = length xs mod cap"
    by (auto simp: j_def mod_if [of "length xs"])
  from ring have len: "cap \<le> length buf"
    and old: "mset (take cap buf) = mset (last_n cap xs)"
    and slot: "buf ! (j mod cap) = xs ! j"
    using full j by (auto simp: ring_holds_def j_def min_absorb2)
  have lst: "last_n cap xs = xs ! j # last_n (cap - 1) xs"
    using cap full j by (simp add: last_n_def j_def Cons_nth_drop_Suc Suc_diff_le)
  have "take cap (buf[length xs mod cap := x]) = (take cap buf)[length xs mod cap := x]"
    by (simp add: take_update_swap)
  moreover have "length xs mod cap < length (take cap buf)"
    using cap len by simp
  ultimately have "mset (take cap (buf[length xs mod cap := x]))
      = add_mset x (mset (last_n cap xs) - {# xs ! j #})"
    using cap old slot jm by (simp add: mset_update)
  also have "\<dots> = mset (last_n cap (xs @ [x]))"
    using cap full by (simp add: lst) (simp add: last_n_def Suc_diff_le)
  finally show ?thesis
    using full by (simp add: min_absorb2)
qed

lemma ring_holds_write:
  assumes "0 < cap" and "ring_holds cap buf xs"
  shows "ring_holds cap (buf[length xs mod cap := x]) (xs @ [x])"
  unfolding ring_holds_def [of _ _ "xs @ [x]"]
  using ring_holds_slots [OF assms] ring_holds_mset [OF assms] assms
  by (auto simp: ring_holds_def)

locale ring_log =
  fixes push :: "'s \<Rightarrow> 'a \<Rightarrow> 's"
    and slots :: "'s \<Rightarrow> 'b list"
    and cnt :: "'s \<Rightarrow> nat"
    and cap :: "'s \<Rightarrow> nat"
    and stored :: "'a \<Rightarrow> 'b"
    and limit :: nat
    and ok :: "'s \<Rightarrow> bool"
  assumes cap_pos: "ok s \<Longrightarrow> 0 < cap s"
    and ok_room: "ok s \<Longrightarrow> cap s \<le> length (slots s)"
    and ok_push: "ok s \<Longrightarrow> ok (push s x)"
    and cap_push: "ok s \<Longrightarrow> cap (push s x) = cap s"
    and slots_push: "ok s \<Longrightarrow> slots (push s x) = (slots s)[cnt s mod cap s := stored x]"
    and cnt_push: "ok s \<Longrightarrow> Suc (cnt s) < limit \<Longrightarrow> cnt (push s x) = Suc (cnt s)"
begin

lemma run_holds:
  assumes "ok s" and "cnt s = 0" and "length xs < limit"
  shows "ok (foldl push s xs) \<and> cnt (foldl push s xs) = length xs
       \<and> cap (foldl push s xs) = cap s
       \<and> ring_holds (cap s) (slots (foldl push s xs)) (map stored xs)"
  using assms(3)
proof (induction xs rule: rev_induct)
  case Nil
  with assms(1,2) show ?case by (simp add: ok_room)
next
  case (snoc x xs)
  let ?t = "foldl push s xs"
  from snoc have IH: "ok ?t" "cnt ?t = length xs" "cap ?t = cap s"
    "ring_holds (cap s) (slots ?t) (map stored xs)"
    by auto
  from ring_holds_write [OF cap_pos [OF assms(1)] IH(4), of "stored x"] IH snoc.prems
  show ?case
    by (simp add: ok_push slots_push cnt_push cap_push)
qed

lemma run_count: "ok s \<Longrightarrow> cnt s = 0 \<Longrightarrow> length xs < limit \<Longrightarrow> cnt (foldl push s xs) = length xs"
  using run_holds by blast

lemma run_ok: "ok s \<Longrightarrow> cnt s = 0 \<Longrightarrow> length xs < limit \<Longrightarrow> ok (foldl push s xs)"
  using run_holds by blast

lemma run_keeps_last:
  assumes "ok s" and "cnt s = 0" and "length xs < limit"
  shows "mset (take (min (length xs) (cap s)) (slots (foldl push s xs)))
       = mset (last_n (cap s) (map stored xs))"
  using run_holds [OF assms] by (simp add: ring_holds_def)

lemma run_prefix:
  assumes "ok s" and "cnt s = 0" and "length xs < limit" and "length xs \<le> cap s"
  shows "take (length xs) (slots (foldl push s xs)) = map stored xs"
proof (rule nth_equalityI)
  note H = run_holds [OF assms(1-3)]
  then show "length (take (length xs) (slots (foldl push s xs))) = length (map stored xs)"
    using assms(4) by (simp add: ring_holds_def)
  fix i
  assume "i < length (take (length xs) (slots (foldl push s xs)))"
  with H assms(4) show "take (length xs) (slots (foldl push s xs)) ! i = map stored xs ! i"
    by (auto simp: ring_holds_def)
qed

end

end
