(* ===== verification/C_Double.thy ===== *)
theory C_Double
  imports Prelude
begin

text \<open>
  The C type \<open>double\<close>: a real number, one of the two infinities, or a NaN. The operations follow
  IEEE 754 for all of these, so the special cases the agent can run into (a load of 0, an empty
  sample set, the logarithm of 0) are values of the model. Two things are idealised: a finite
  result is exact (no rounding, no overflow to infinity) and there is a single, positive zero.
  Comparisons with NaN are false. Conversions back to integers are partial: C gives them no
  meaning outside the target's range, and neither does the model.
\<close>

datatype dbl = Fin real | PInf | MInf | NaN

definition dbl_neg :: "dbl \<Rightarrow> dbl" where
  "dbl_neg x = (case x of Fin a \<Rightarrow> Fin (- a) | PInf \<Rightarrow> MInf | MInf \<Rightarrow> PInf | NaN \<Rightarrow> NaN)"

fun dbl_add :: "dbl \<Rightarrow> dbl \<Rightarrow> dbl" where
  "dbl_add (Fin a) (Fin b) = Fin (a + b)"
| "dbl_add NaN _ = NaN"
| "dbl_add _ NaN = NaN"
| "dbl_add PInf MInf = NaN"
| "dbl_add MInf PInf = NaN"
| "dbl_add PInf _ = PInf"
| "dbl_add MInf _ = MInf"
| "dbl_add (Fin _) PInf = PInf"
| "dbl_add (Fin _) MInf = MInf"

text \<open>An infinity with the sign of a real number; zero times an infinity is a NaN.\<close>

definition inf_of_sign :: "real \<Rightarrow> dbl" where
  "inf_of_sign s = (if 0 < s then PInf else if s < 0 then MInf else NaN)"

fun dbl_sign :: "dbl \<Rightarrow> real" where
  "dbl_sign (Fin a) = sgn a"
| "dbl_sign PInf = 1"
| "dbl_sign MInf = - 1"
| "dbl_sign NaN = 0"

fun dbl_mul :: "dbl \<Rightarrow> dbl \<Rightarrow> dbl" where
  "dbl_mul (Fin a) (Fin b) = Fin (a * b)"
| "dbl_mul NaN _ = NaN"
| "dbl_mul _ NaN = NaN"
| "dbl_mul x y = inf_of_sign (dbl_sign x * dbl_sign y)"

fun dbl_div :: "dbl \<Rightarrow> dbl \<Rightarrow> dbl" where
  "dbl_div (Fin a) (Fin b) = (if b = 0 then inf_of_sign a else Fin (a / b))"
| "dbl_div NaN _ = NaN"
| "dbl_div _ NaN = NaN"
| "dbl_div (Fin _) _ = Fin 0"
| "dbl_div x (Fin b) = inf_of_sign (dbl_sign x * (if b < 0 then - 1 else 1))"
| "dbl_div _ _ = NaN"

fun dbl_less :: "dbl \<Rightarrow> dbl \<Rightarrow> bool" where
  "dbl_less (Fin a) (Fin b) = (a < b)"
| "dbl_less NaN _ = False"
| "dbl_less _ NaN = False"
| "dbl_less PInf _ = False"
| "dbl_less _ MInf = False"
| "dbl_less _ _ = True"

fun dbl_le :: "dbl \<Rightarrow> dbl \<Rightarrow> bool" where
  "dbl_le (Fin a) (Fin b) = (a \<le> b)"
| "dbl_le NaN _ = False"
| "dbl_le _ NaN = False"
| "dbl_le MInf _ = True"
| "dbl_le _ PInf = True"
| "dbl_le _ _ = False"

instantiation dbl :: "{plus, minus, uminus, times, inverse, zero, one, ord}"
begin

definition plus_dbl_def: "x + y = dbl_add x y"
definition uminus_dbl_def: "- x = dbl_neg x"
definition minus_dbl_def: "x - y = dbl_add x (dbl_neg y)"
definition times_dbl_def: "x * y = dbl_mul x y"
definition divide_dbl_def: "x div y = dbl_div x y"
definition inverse_dbl_def: "inverse x = dbl_div (Fin 1) x"
definition zero_dbl_def: "0 = Fin 0"
definition one_dbl_def: "1 = Fin 1"
definition less_dbl_def: "x < y \<longleftrightarrow> dbl_less x y"
definition less_eq_dbl_def: "x \<le> y \<longleftrightarrow> dbl_le x y"

instance ..

end

lemma dbl_arith [simp]:
  "Fin a + Fin b = Fin (a + b)" "Fin a - Fin b = Fin (a - b)" "- Fin a = Fin (- a)"
  "Fin a * Fin b = Fin (a * b)" "b \<noteq> 0 \<Longrightarrow> Fin a / Fin b = Fin (a / b)"
  "Fin a / Fin 0 = inf_of_sign a"
  by (simp_all add: plus_dbl_def minus_dbl_def uminus_dbl_def times_dbl_def divide_dbl_def
      dbl_neg_def)

lemma dbl_compare [simp]:
  "Fin a < Fin b \<longleftrightarrow> a < b" "Fin a \<le> Fin b \<longleftrightarrow> a \<le> b"
  "\<not> NaN < x" "\<not> x < NaN" "\<not> NaN \<le> x" "\<not> x \<le> NaN"
  by (cases x; simp add: less_dbl_def less_eq_dbl_def)+

lemma dbl_nan [simp]:
  "NaN + x = NaN" "x + NaN = NaN" "NaN * x = NaN" "x * NaN = NaN" "NaN / x = NaN" "x / NaN = NaN"
  by (cases x; simp add: plus_dbl_def times_dbl_def divide_dbl_def)+

subsection \<open>The mathematical library\<close>

fun c_sqrt :: "dbl \<Rightarrow> dbl" where
  "c_sqrt (Fin a) = (if a < 0 then NaN else Fin (sqrt a))"
| "c_sqrt PInf = PInf"
| "c_sqrt MInf = NaN"
| "c_sqrt NaN = NaN"

fun c_log :: "dbl \<Rightarrow> dbl" where
  "c_log (Fin a) = (if a < 0 then NaN else if a = 0 then MInf else Fin (ln a))"
| "c_log PInf = PInf"
| "c_log MInf = NaN"
| "c_log NaN = NaN"

fun c_exp :: "dbl \<Rightarrow> dbl" where
  "c_exp (Fin a) = Fin (exp a)"
| "c_exp PInf = PInf"
| "c_exp MInf = Fin 0"
| "c_exp NaN = NaN"

text \<open>
  \<open>pow\<close>: a NaN for a negative base and a non-integral exponent, \<open>x\<^sup>0 = 1\<close> for every \<open>x\<close> and \<open>1\<^sup>y = 1\<close>
  for every \<open>y\<close>; a zero base with a negative exponent is an infinity (positive: the zero of the
  model has no sign). Only finite arguments reach it from the agent.
\<close>

fun c_pow :: "dbl \<Rightarrow> dbl \<Rightarrow> dbl" where
  "c_pow (Fin a) (Fin b) =
     (if b = 0 then Fin 1
      else if a = 0 then (if b < 0 then PInf else Fin 0)
      else if 0 < a then Fin (a powr b)
      else if b \<in> \<int> then
        Fin (if even \<lfloor>b\<rfloor> then (- a) powr b else - ((- a) powr b))
      else NaN)"
| "c_pow x (Fin b) = (if b = 0 then Fin 1 else NaN)"
| "c_pow (Fin a) y = (if a = 1 then Fin 1 else NaN)"
| "c_pow _ _ = NaN"

fun c_floor :: "dbl \<Rightarrow> dbl" where
  "c_floor (Fin a) = Fin (of_int \<lfloor>a\<rfloor>)"
| "c_floor x = x"

fun c_ceil :: "dbl \<Rightarrow> dbl" where
  "c_ceil (Fin a) = Fin (of_int \<lceil>a\<rceil>)"
| "c_ceil x = x"

subsection \<open>Conversions to integers\<close>

text \<open>\<open>lround\<close>: to the nearest integer, halves away from zero, into a 64-bit \<open>long\<close>.\<close>

definition round_half_away :: "real \<Rightarrow> int" where
  "round_half_away a = (if 0 \<le> a then \<lfloor>a + 1 / 2\<rfloor> else \<lceil>a - 1 / 2\<rceil>)"

fun c_lround :: "dbl \<Rightarrow> int c_result" where
  "c_lround (Fin a) =
     (if - (2 ^ 63) \<le> round_half_away a \<and> round_half_away a < 2 ^ 63
      then Inr (round_half_away a) else Inl Undefined)"
| "c_lround _ = Inl Undefined"

text \<open>The casts \<open>(uint32_t)d\<close>, \<open>(int)d\<close> and \<open>(int64_t)d\<close> truncate towards zero.\<close>

definition truncate_real :: "real \<Rightarrow> int" where
  "truncate_real a = (if 0 \<le> a then \<lfloor>a\<rfloor> else \<lceil>a\<rceil>)"

fun dbl_to_u32 :: "dbl \<Rightarrow> u32 c_result" where
  "dbl_to_u32 (Fin a) =
     (if 0 \<le> truncate_real a \<and> truncate_real a < 2 ^ 32
      then Inr (word_of_int (truncate_real a)) else Inl Undefined)"
| "dbl_to_u32 _ = Inl Undefined"

fun dbl_to_c_int :: "dbl \<Rightarrow> int c_result" where
  "dbl_to_c_int (Fin a) =
     (if - (2 ^ 31) \<le> truncate_real a \<and> truncate_real a < 2 ^ 31
      then Inr (truncate_real a) else Inl Undefined)"
| "dbl_to_c_int _ = Inl Undefined"

fun dbl_to_long :: "dbl \<Rightarrow> int c_result" where
  "dbl_to_long (Fin a) =
     (if - (2 ^ 63) \<le> truncate_real a \<and> truncate_real a < 2 ^ 63
      then Inr (truncate_real a) else Inl Undefined)"
| "dbl_to_long _ = Inl Undefined"

abbreviation dbl_of_nat :: "nat \<Rightarrow> dbl" where
  "dbl_of_nat n \<equiv> Fin (real n)"

abbreviation dbl_of_int :: "int \<Rightarrow> dbl" where
  "dbl_of_int n \<equiv> Fin (real_of_int n)"

lemma truncate_real_of_int [simp]: "truncate_real (real_of_int z) = z"
  by (simp add: truncate_real_def)

lemma truncate_real_of_nat [simp]: "truncate_real (real n) = int n"
  by (simp add: truncate_real_def)

lemma round_half_away_of_int [simp]: "round_half_away (real_of_int z) = z"
  by (simp add: round_half_away_def floor_eq_iff ceiling_eq_iff)

lemma round_half_away_nonneg: "0 \<le> a \<Longrightarrow> 0 \<le> round_half_away a"
  by (simp add: round_half_away_def)

lemma round_half_away_mono: "a \<le> b \<Longrightarrow> round_half_away a \<le> round_half_away b"
  by (auto simp: round_half_away_def intro: floor_mono ceiling_mono order_trans [of _ 0])

end
