(* ===== verification/Timespec.thy ===== *)
theory Timespec
  imports Prelude
begin

text \<open>
  \<open>struct timespec\<close>, its order, and the arithmetic of \<open>timespec_diff\<close> (\<open>timestamping.c\<close>) and
  \<open>timespec_cmp\<close> (\<open>stats.c\<close>). The fields are \<open>long\<close>s, modelled as \<open>int\<close>; \<open>timespec_diff_in_range\<close>
  shows that the subtractions stay within 64 bits for times a clock can return.
\<close>

datatype timespec = Timespec (tv_sec: int) (tv_nsec: int)

text \<open>The lexicographic order on (seconds, nanoseconds).\<close>

instantiation timespec :: linorder
begin

definition less_eq_timespec_def:
  "s \<le> t \<longleftrightarrow> tv_sec s < tv_sec t \<or> tv_sec s = tv_sec t \<and> tv_nsec s \<le> tv_nsec t"

definition less_timespec_def:
  "s < t \<longleftrightarrow> tv_sec s < tv_sec t \<or> tv_sec s = tv_sec t \<and> tv_nsec s < tv_nsec t"

instance
  by standard (auto simp: less_eq_timespec_def less_timespec_def intro: timespec.expand)

end

text \<open>A time as the kernel returns it: the nanoseconds within a second.\<close>

definition timespec_ok :: "timespec \<Rightarrow> bool" where
  "timespec_ok t \<longleftrightarrow> 0 \<le> tv_nsec t \<and> tv_nsec t < 10 ^ 9"

definition timespec_ns :: "timespec \<Rightarrow> int" where
  "timespec_ns t = tv_sec t * 10 ^ 9 + tv_nsec t"

definition zero_timespec :: timespec where
  "zero_timespec = Timespec 0 0"

text \<open>
  \<open>timespec_diff(res, a, b)\<close>: NULL pointers are \<open>None\<close>; the result is the returned status and,
  when it is 0, what \<open>*res\<close> holds (otherwise \<open>*res\<close> is not written).
\<close>

fun timespec_diff :: "timespec option \<Rightarrow> timespec option \<Rightarrow> int \<times> timespec option" where
  "timespec_diff (Some a) (Some b) =
     (if tv_sec a = 0 \<or> tv_sec b = 0 then (- 1, None)
      else if tv_nsec a < tv_nsec b
      then (0, Some (Timespec (tv_sec a - 1 - tv_sec b) (10 ^ 9 - (tv_nsec b - tv_nsec a))))
      else (0, Some (Timespec (tv_sec a - tv_sec b) (tv_nsec a - tv_nsec b))))"
| "timespec_diff _ _ = (- 1, None)"

text \<open>The comparator \<open>check_ia\<close> gives to \<open>qsort\<close>: differences of \<open>long\<close>s returned as \<open>int\<close>.\<close>

definition timespec_cmp :: "timespec \<Rightarrow> timespec \<Rightarrow> int" where
  "timespec_cmp a b =
     (if tv_sec a = tv_sec b then long_to_c_int (tv_nsec a - tv_nsec b)
      else long_to_c_int (tv_sec a - tv_sec b))"

lemma timespec_diff_status:
  "fst (timespec_diff (Some a) (Some b)) = (if tv_sec a = 0 \<or> tv_sec b = 0 then - 1 else 0)"
  by simp

lemma timespec_diff_None [simp]:
  "timespec_diff None b = (- 1, None)" "timespec_diff a None = (- 1, None)"
  by (cases a; simp)+

lemma timespec_diff_ns:
  assumes "timespec_diff (Some a) (Some b) = (0, Some d)"
  shows "timespec_ns d = timespec_ns a - timespec_ns b"
  using assms by (auto simp: timespec_ns_def split: if_splits)

lemma timespec_diff_ok:
  assumes "timespec_diff (Some a) (Some b) = (0, Some d)" and "timespec_ok a" and "timespec_ok b"
  shows "timespec_ok d"
  using assms by (auto simp: timespec_ok_def split: if_splits)

lemma timespec_ns_mono:
  "timespec_ok s \<Longrightarrow> timespec_ok t \<Longrightarrow> s \<le> t \<longleftrightarrow> timespec_ns s \<le> timespec_ns t"
  by (auto simp: less_eq_timespec_def timespec_ns_def timespec_ok_def)

lemma timespec_ok_sec_nonneg:
  "timespec_ok t \<Longrightarrow> 0 \<le> timespec_ns t \<longleftrightarrow> 0 \<le> tv_sec t"
  by (auto simp: timespec_ns_def timespec_ok_def)

lemma timespec_diff_in_range:
  assumes "timespec_diff (Some a) (Some b) = (0, Some d)" and "timespec_ok a" and "timespec_ok b"
    and "0 \<le> tv_sec a" "tv_sec a < 2 ^ 62" "0 \<le> tv_sec b" "tv_sec b < 2 ^ 62"
  shows "\<bar>tv_sec d\<bar> < 2 ^ 63 \<and> \<bar>tv_nsec d\<bar> < 2 ^ 63"
  using assms by (auto simp: timespec_ok_def split: if_splits)

lemma timespec_cmp_le:
  assumes "timespec_ok a" and "timespec_ok b" and "\<bar>tv_sec a - tv_sec b\<bar> < 2 ^ 31"
  shows "timespec_cmp a b \<le> 0 \<longleftrightarrow> a \<le> b"
  using assms
  by (auto simp: timespec_cmp_def timespec_ok_def less_eq_timespec_def long_to_c_int_id)

end
