(* ===== verification/Stats_Record.thy ===== *)
theory Stats_Record
  imports Ring_Log C_Double Timespec
begin

text \<open>
  The recording half of \<open>stats.c\<close>: the per-thread counters and samples, their registration, reset
  and aggregation. \<open>thread_stats\<close> is a pointer to the calling thread's element of \<open>all_stats\<close>; an
  operation of one thread is a function on that element (\<open>latency_stats\<close>), and \<open>stats_state\<close> holds
  the elements of all threads in registration order, with the module's other static variables.
  \<open>union stats\<close> is the larger member, whose first field \<open>th_s\<close> is the smaller one.
\<close>

subsection \<open>Data\<close>

datatype agent_type =
  THROUGHPUT_AGENT | LATENCY_AGENT | SYMMETRIC_NIC_TIMESTAMP_AGENT | SYMMETRIC_AGENT | AGENT_NR

definition MAX_PER_THREAD_SAMPLES :: nat where "MAX_PER_THREAD_SAMPLES = 131072"
definition MAX_PER_THREAD_TX_SAMPLES :: nat where "MAX_PER_THREAD_TX_SAMPLES = 2048"
definition REFERENCE_IA_SIZE :: nat where "REFERENCE_IA_SIZE = 8192"
definition AGG_SAMPLE_SIZE :: nat where "AGG_SAMPLE_SIZE = 1048576"
definition MAX_THREADS :: nat where "MAX_THREADS = 16"

lemmas stats_sizes = MAX_PER_THREAD_SAMPLES_def MAX_PER_THREAD_TX_SAMPLES_def
  REFERENCE_IA_SIZE_def AGG_SAMPLE_SIZE_def MAX_THREADS_def

record byte_req_pair =
  br_bytes :: u64
  br_reqs :: u64

record tx_samples =
  txs_count :: u32
  txs_samples :: "timespec list"

record throughput_stats =
  th_rx :: byte_req_pair
  th_tx :: byte_req_pair

record lat_sample =
  ls_nsec :: u64
  ls_tx :: timespec

record latency_stats =
  lt_th :: throughput_stats
  lt_sum_lat :: u64
  lt_count :: u32
  lt_size :: u32
  lt_avg_lat :: u64
  lt_p50_i :: u64
  lt_p50 :: u64
  lt_p50_k :: u64
  lt_p90_i :: u64
  lt_p90 :: u64
  lt_p90_k :: u64
  lt_p95_i :: u64
  lt_p95 :: u64
  lt_p95_k :: u64
  lt_p99_i :: u64
  lt_p99 :: u64
  lt_p99_k :: u64
  lt_samples :: "lat_sample list"

record stats_state =
  all_stats :: "latency_stats list"
  all_tx :: "tx_samples list"
  per_thread_samples :: int
  sampling_rate :: dbl
  reference_ia :: "u64 list"

definition zero_pair :: byte_req_pair where
  "zero_pair = \<lparr>br_bytes = 0, br_reqs = 0\<rparr>"

definition zero_th :: throughput_stats where
  "zero_th = \<lparr>th_rx = zero_pair, th_tx = zero_pair\<rparr>"

definition zero_sample :: lat_sample where
  "zero_sample = \<lparr>ls_nsec = 0, ls_tx = zero_timespec\<rparr>"

text \<open>\<open>bzero\<close> over the fixed part of \<open>struct latency_stats\<close>: the sample array is not part of it.\<close>

definition zero_lat :: "lat_sample list \<Rightarrow> latency_stats" where
  "zero_lat smp = \<lparr>lt_th = zero_th, lt_sum_lat = 0, lt_count = 0, lt_size = 0, lt_avg_lat = 0,
     lt_p50_i = 0, lt_p50 = 0, lt_p50_k = 0, lt_p90_i = 0, lt_p90 = 0, lt_p90_k = 0,
     lt_p95_i = 0, lt_p95 = 0, lt_p95_k = 0, lt_p99_i = 0, lt_p99 = 0, lt_p99_k = 0,
     lt_samples = smp\<rparr>"

subsection \<open>Set-up and reset\<close>

definition set_per_thread_samples :: "int \<Rightarrow> dbl \<Rightarrow> stats_state \<Rightarrow> stats_state c_result" where
  "set_per_thread_samples samples sr st =
     c_bind (c_assert (samples \<le> int MAX_PER_THREAD_SAMPLES)) (\<lambda>_.
     c_bind (c_assert (0 < samples)) (\<lambda>_.
     Inr (st\<lparr>per_thread_samples := samples, sampling_rate := sr / Fin 100\<rparr>)))"

definition clear_stats :: "agent_type \<Rightarrow> latency_stats \<Rightarrow> latency_stats" where
  "clear_stats atype st =
     (case atype of
        THROUGHPUT_AGENT \<Rightarrow> st\<lparr>lt_th := zero_th\<rparr>
      | LATENCY_AGENT \<Rightarrow> zero_lat (lt_samples st)
      | SYMMETRIC_NIC_TIMESTAMP_AGENT \<Rightarrow> zero_lat (lt_samples st)
      | SYMMETRIC_AGENT \<Rightarrow> zero_lat (lt_samples st)
      | AGENT_NR \<Rightarrow> st)"

definition clear_all_stats :: "agent_type \<Rightarrow> stats_state \<Rightarrow> stats_state" where
  "clear_all_stats atype st =
     st\<lparr>all_stats := map (clear_stats atype) (all_stats st),
        all_tx := map (\<lambda>t. t\<lparr>txs_count := 0\<rparr>) (all_tx st)\<rparr>"

text \<open>
  A new thread: \<open>junk\<close> is what \<open>malloc\<close> returns (room for all samples, contents unspecified);
  \<open>tx_s\<close> is a zero-initialised thread-local. The thread's number is the number registered before.
\<close>

definition zero_tx :: tx_samples where
  "zero_tx = \<lparr>txs_count = 0, txs_samples = replicate MAX_PER_THREAD_TX_SAMPLES zero_timespec\<rparr>"

definition init_per_thread_stats :: "latency_stats \<Rightarrow> stats_state \<Rightarrow> stats_state c_result" where
  "init_per_thread_stats junk st =
     (let thread_id = length (all_stats st) in
      c_bind (c_assert (thread_id < 64)) (\<lambda>_.
      Inr (st\<lparr>all_stats := all_stats st @ [junk], all_tx := all_tx st @ [zero_tx]\<rparr>)))"

subsection \<open>Recording\<close>

definition add_pair :: "byte_req_pair \<Rightarrow> byte_req_pair \<Rightarrow> byte_req_pair" where
  "add_pair p q = \<lparr>br_bytes = br_bytes p + br_bytes q, br_reqs = br_reqs p + br_reqs q\<rparr>"

definition add_throughput_tx_sample :: "bool \<Rightarrow> byte_req_pair \<Rightarrow> latency_stats \<Rightarrow> latency_stats" where
  "add_throughput_tx_sample measuring tx_p ts =
     (if \<not> measuring then ts
      else ts\<lparr>lt_th := (lt_th ts)\<lparr>th_tx := add_pair (th_tx (lt_th ts)) tx_p\<rparr>\<rparr>)"

definition add_throughput_rx_sample :: "bool \<Rightarrow> byte_req_pair \<Rightarrow> latency_stats \<Rightarrow> latency_stats" where
  "add_throughput_rx_sample measuring rx_p ts =
     (if \<not> measuring then ts
      else ts\<lparr>lt_th := (lt_th ts)\<lparr>th_rx := add_pair (th_rx (lt_th ts)) rx_p\<rparr>\<rparr>)"

definition tx_push :: "tx_samples \<Rightarrow> timespec \<Rightarrow> tx_samples" where
  "tx_push t ts =
     t\<lparr>txs_samples := (txs_samples t)[unat (txs_count t) mod MAX_PER_THREAD_TX_SAMPLES := ts],
       txs_count := txs_count t + 1\<rparr>"

definition add_tx_timestamp :: "bool \<Rightarrow> timespec \<Rightarrow> tx_samples \<Rightarrow> tx_samples" where
  "add_tx_timestamp measuring tx_ts t = (if \<not> measuring then t else tx_push t tx_ts)"

text \<open>
  The body of \<open>add_latency_sample\<close> once the sample is accepted. \<open>n\<close> is \<open>per_thread_samples\<close>,
  compared and divided as an unsigned number because \<open>count\<close> is unsigned.
\<close>

definition lat_store :: "u32 \<Rightarrow> latency_stats \<Rightarrow> int \<times> timespec option \<Rightarrow> latency_stats" where
  "lat_store n ts s =
     (let i = unat (lt_count ts mod n);
          old = lt_samples ts ! i;
          new = \<lparr>ls_nsec = word_of_int (fst s),
                 ls_tx = (case snd s of None \<Rightarrow> ls_tx old | Some tx \<Rightarrow> tx)\<rparr>;
          c = lt_count ts + 1
      in ts\<lparr>lt_samples := (lt_samples ts)[i := new],
            lt_count := c,
            lt_size := (if n < c then n else c)\<rparr>)"

text \<open>\<open>rnd\<close> is the value of \<open>drand48()\<close>. A \<open>per_thread_samples\<close> of 0 is a division by zero.\<close>

definition add_latency_sample ::
  "bool \<Rightarrow> dbl \<Rightarrow> stats_state \<Rightarrow> int \<Rightarrow> timespec option \<Rightarrow> latency_stats \<Rightarrow> latency_stats c_result" where
  "add_latency_sample measuring rnd st diff tx ts =
     (if \<not> measuring \<or> sampling_rate st < rnd then Inr ts
      else let n = (word_of_int (per_thread_samples st) :: u32) in
        if n = 0 \<or> length (lt_samples ts) \<le> unat (lt_count ts mod n) then Inl Undefined
        else Inr (lat_store n ts (diff, tx)))"

subsection \<open>Aggregation\<close>

definition add_th :: "throughput_stats \<Rightarrow> throughput_stats \<Rightarrow> throughput_stats" where
  "add_th a s = \<lparr>th_rx = add_pair (th_rx a) (th_rx s), th_tx = add_pair (th_tx a) (th_tx s)\<rparr>"

definition aggregate_throughput_stats ::
  "agent_type \<Rightarrow> stats_state \<Rightarrow> latency_stats \<Rightarrow> latency_stats" where
  "aggregate_throughput_stats atype st agg =
     foldl (\<lambda>a s. a\<lparr>lt_th := add_th (lt_th a) (lt_th s)\<rparr>) (clear_stats atype agg) (all_stats st)"

fun aggregate_loop :: "latency_stats list \<Rightarrow> latency_stats \<Rightarrow> nat \<Rightarrow> (latency_stats \<times> nat) c_result" where
  "aggregate_loop [] agg agg_count = Inr (agg, agg_count)"
| "aggregate_loop (s # ss) agg agg_count =
     c_bind (c_memcpy (lt_samples agg) agg_count (lt_samples s) (unat (lt_size s))) (\<lambda>smp.
     aggregate_loop ss
       (agg\<lparr>lt_th := add_th (lt_th agg) (lt_th s), lt_samples := smp\<rparr>)
       (agg_count + unat (lt_size s)))"

definition aggregate_latency_samples ::
  "agent_type \<Rightarrow> stats_state \<Rightarrow> latency_stats \<Rightarrow> latency_stats c_result" where
  "aggregate_latency_samples atype st agg =
     c_bind (aggregate_loop (all_stats st)
       ((clear_stats atype agg)\<lparr>lt_samples := replicate AGG_SAMPLE_SIZE zero_sample\<rparr>) 0) (\<lambda>(a, n).
     Inr (a\<lparr>lt_size := word_of_nat n\<rparr>))"

subsection \<open>Well-formed states\<close>

text \<open>
  \<open>lat_wf n ts\<close>: the thread's array has room for the \<open>n\<close> samples in use and \<open>size\<close> says how many
  of them are valid. \<open>stats_wf\<close> is the module's invariant once sampling is configured.
\<close>

definition lat_wf :: "u32 \<Rightarrow> latency_stats \<Rightarrow> bool" where
  "lat_wf n ts \<longleftrightarrow> 0 < n \<and> unat n \<le> length (lt_samples ts) \<and> lt_size ts = min n (lt_count ts)"

definition tx_wf :: "tx_samples \<Rightarrow> bool" where
  "tx_wf t \<longleftrightarrow> length (txs_samples t) = MAX_PER_THREAD_TX_SAMPLES"

definition stats_wf :: "stats_state \<Rightarrow> bool" where
  "stats_wf st \<longleftrightarrow> length (all_stats st) = length (all_tx st) \<and> length (all_stats st) \<le> 64 \<and>
     (\<forall>ts \<in> set (all_stats st). length (lt_samples ts) = MAX_PER_THREAD_SAMPLES) \<and>
     (\<forall>t \<in> set (all_tx st). tx_wf t)"

lemma lat_wf_size_le:
  assumes "lat_wf n ts"
  shows "unat (lt_size ts) \<le> unat n" and "unat (lt_size ts) \<le> length (lt_samples ts)"
proof -
  have "lt_size ts \<le> n" using assms by (simp add: lat_wf_def)
  then show "unat (lt_size ts) \<le> unat n" by (simp add: word_le_nat_alt)
  also have "\<dots> \<le> length (lt_samples ts)" using assms by (simp add: lat_wf_def)
  finally show "unat (lt_size ts) \<le> length (lt_samples ts)" .
qed

lemma stats_wf_init:
  assumes "stats_wf st" and "length (lt_samples junk) = MAX_PER_THREAD_SAMPLES"
    and "init_per_thread_stats junk st = Inr st'"
  shows "stats_wf st'"
  using assms
  by (auto simp: init_per_thread_stats_def Let_def c_result_simps stats_wf_def tx_wf_def zero_tx_def)

lemma length_samples_clear [simp]: "lt_samples (clear_stats atype ts) = lt_samples ts"
  by (simp add: clear_stats_def zero_lat_def split: agent_type.splits)

lemma stats_wf_clear [intro]: "stats_wf st \<Longrightarrow> stats_wf (clear_all_stats atype st)"
  by (auto simp: stats_wf_def clear_all_stats_def tx_wf_def)

lemma stats_wf_set_samples:
  "stats_wf st \<Longrightarrow> set_per_thread_samples n sr st = Inr st' \<Longrightarrow> stats_wf st'"
  by (auto simp: set_per_thread_samples_def stats_wf_def c_result_simps)

subsection \<open>The logs are ring logs\<close>

interpretation tx_ring: ring_log tx_push txs_samples "\<lambda>t. unat (txs_count t)"
    "\<lambda>_. MAX_PER_THREAD_TX_SAMPLES" "\<lambda>ts. ts" "2 ^ 32" tx_wf
  by unfold_locales (simp_all add: tx_wf_def tx_push_def stats_sizes unat_Suc_u32)

text \<open>The latency log carries its capacity, so that one interpretation covers every configuration.\<close>

definition lat_push :: "u32 \<times> latency_stats \<Rightarrow> int \<times> timespec option \<Rightarrow> u32 \<times> latency_stats" where
  "lat_push p s = (fst p, lat_store (fst p) (snd p) s)"

lemma lat_store_fields:
  "lt_count (lat_store n ts s) = lt_count ts + 1"
  "lt_size (lat_store n ts s) = min n (lt_count ts + 1)"
  "lt_th (lat_store n ts s) = lt_th ts"
  "length (lt_samples (lat_store n ts s)) = length (lt_samples ts)"
  by (auto simp: lat_store_def Let_def min_def)

lemma lat_store_nsec:
  "unat n \<le> length (lt_samples ts) \<Longrightarrow> 0 < n \<Longrightarrow>
   map ls_nsec (lt_samples (lat_store n ts s))
     = (map ls_nsec (lt_samples ts))[unat (lt_count ts) mod unat n := word_of_int (fst s)]"
  by (simp add: lat_store_def Let_def map_update unat_mod)

lemma lat_wf_store: "lat_wf n ts \<Longrightarrow> lat_wf n (lat_store n ts s)"
  by (simp add: lat_wf_def lat_store_fields)

interpretation lat_ring: ring_log lat_push "\<lambda>p. map ls_nsec (lt_samples (snd p))"
    "\<lambda>p. unat (lt_count (snd p))" "\<lambda>p. unat (fst p)" "\<lambda>s. word_of_int (fst s)" "2 ^ 32"
    "\<lambda>p. lat_wf (fst p) (snd p)"
  by unfold_locales
    (auto simp: lat_push_def lat_wf_store lat_store_fields lat_store_nsec unat_Suc_u32,
     simp_all add: lat_wf_def lat_store_nsec word_gt_0 unat_gt_0)

lemma foldl_lat_push:
  "foldl lat_push (n, ts) xs = (n, foldl (lat_store n) ts xs)"
  by (induction xs arbitrary: ts) (simp_all add: lat_push_def)

subsection \<open>A measurement: a sequence of calls to \<open>add_latency_sample\<close>\<close>

fun lat_calls ::
  "bool \<Rightarrow> stats_state \<Rightarrow> (dbl \<times> int \<times> timespec option) list \<Rightarrow> latency_stats \<Rightarrow> latency_stats c_result" where
  "lat_calls measuring st [] ts = Inr ts"
| "lat_calls measuring st ((rnd, diff, tx) # cs) ts =
     c_bind (add_latency_sample measuring rnd st diff tx ts) (lat_calls measuring st cs)"

text \<open>The calls whose random number does not exceed the sampling rate.\<close>

definition accepted :: "stats_state \<Rightarrow> (dbl \<times> int \<times> timespec option) list \<Rightarrow> (int \<times> timespec option) list" where
  "accepted st cs = map snd (filter (\<lambda>c. \<not> sampling_rate st < fst c) cs)"

lemma add_latency_sample_wf:
  assumes "lat_wf (word_of_int (per_thread_samples st)) ts"
  shows "add_latency_sample measuring rnd st diff tx ts
       = Inr (if \<not> measuring \<or> sampling_rate st < rnd then ts
              else lat_store (word_of_int (per_thread_samples st)) ts (diff, tx))"
proof -
  let ?n = "word_of_int (per_thread_samples st) :: u32"
  from assms have "0 < unat ?n" and "unat ?n \<le> length (lt_samples ts)"
    by (simp_all add: lat_wf_def unat_gt_0 word_gt_0)
  then have "unat (lt_count ts mod ?n) < length (lt_samples ts)"
    by (metis mod_less_divisor order_less_le_trans unat_mod)
  moreover have "?n \<noteq> 0"
    using assms by (auto simp: lat_wf_def)
  ultimately show ?thesis
    by (auto simp: add_latency_sample_def Let_def)
qed

lemma lat_calls_wf:
  assumes "lat_wf (word_of_int (per_thread_samples st)) ts"
  shows "lat_calls True st cs ts
       = Inr (foldl (lat_store (word_of_int (per_thread_samples st))) ts (accepted st cs))"
  using assms
proof (induction cs arbitrary: ts)
  case (Cons c cs)
  obtain rnd diff tx where c: "c = (rnd, diff, tx)" by (cases c)
  show ?case
    using Cons.IH Cons.IH [OF lat_wf_store [OF Cons.prems]] Cons.prems
    by (simp add: c add_latency_sample_wf [OF Cons.prems] accepted_def)
qed (simp add: accepted_def)

lemma lat_calls_not_measuring: "lat_calls False st cs ts = Inr ts"
  by (induction cs) (auto simp: add_latency_sample_def)

lemma u32_of_samples:
  "0 < n \<Longrightarrow> n \<le> int MAX_PER_THREAD_SAMPLES \<Longrightarrow> unat (word_of_int n :: u32) = nat n"
  by (simp add: stats_sizes unat_word_of_int_u32)

lemma lat_wf_cleared:
  assumes "atype \<in> {LATENCY_AGENT, SYMMETRIC_NIC_TIMESTAMP_AGENT, SYMMETRIC_AGENT}"
    and "0 < n" and "n \<le> int MAX_PER_THREAD_SAMPLES"
    and "length (lt_samples ts) = MAX_PER_THREAD_SAMPLES"
  shows "lat_wf (word_of_int n) (clear_stats atype ts)" and "lt_count (clear_stats atype ts) = 0"
proof -
  have "0 < (word_of_int n :: u32)"
    using assms(2,3) u32_of_samples [OF assms(2,3)] by (simp add: word_gt_0 unat_eq_0 [symmetric])
  then show "lat_wf (word_of_int n) (clear_stats atype ts)"
    using assms u32_of_samples [OF assms(2,3)]
    by (auto simp: lat_wf_def clear_stats_def zero_lat_def)
  show "lt_count (clear_stats atype ts) = 0"
    using assms(1) by (auto simp: clear_stats_def zero_lat_def)
qed

subsection \<open>Totals\<close>

lemma th_pair_add [simp]:
  "th_rx (add_th a s) = add_pair (th_rx a) (th_rx s)"
  "th_tx (add_th a s) = add_pair (th_tx a) (th_tx s)"
  "br_bytes (add_pair p q) = br_bytes p + br_bytes q"
  "br_reqs (add_pair p q) = br_reqs p + br_reqs q"
  by (simp_all add: add_th_def add_pair_def)

definition th_sum :: "throughput_stats list \<Rightarrow> throughput_stats" where
  "th_sum ts = \<lparr>th_rx = \<lparr>br_bytes = (\<Sum>t\<leftarrow>ts. br_bytes (th_rx t)), br_reqs = (\<Sum>t\<leftarrow>ts. br_reqs (th_rx t))\<rparr>,
                th_tx = \<lparr>br_bytes = (\<Sum>t\<leftarrow>ts. br_bytes (th_tx t)), br_reqs = (\<Sum>t\<leftarrow>ts. br_reqs (th_tx t))\<rparr>\<rparr>"

lemma foldl_add_th: "foldl add_th a ts = add_th a (th_sum ts)"
  by (induction ts arbitrary: a) (simp_all add: th_sum_def add_th_def add_pair_def add.assoc)

lemma add_th_zero [simp]: "add_th zero_th t = t"
  by (simp add: add_th_def add_pair_def zero_th_def zero_pair_def)

lemma lt_th_clear: "atype \<noteq> AGENT_NR \<Longrightarrow> lt_th (clear_stats atype ts) = zero_th"
  by (cases atype) (simp_all add: clear_stats_def zero_lat_def)

lemma lt_th_foldl_add:
  "lt_th (foldl (\<lambda>a s. a\<lparr>lt_th := add_th (lt_th a) (lt_th s)\<rparr>) agg ss) = foldl add_th (lt_th agg) (map lt_th ss)"
  by (induction ss arbitrary: agg) simp_all

lemma lt_th_aggregate_throughput:
  "atype \<noteq> AGENT_NR \<Longrightarrow>
   lt_th (aggregate_throughput_stats atype st agg) = th_sum (map lt_th (all_stats st))"
  by (simp add: aggregate_throughput_stats_def lt_th_foldl_add foldl_add_th lt_th_clear)

text \<open>The wrapped totals are the exact ones as long as these fit 64 bits.\<close>

lemma unat_sum_list_u64:
  "(\<Sum>x\<leftarrow>xs. unat (f x :: u64)) < 2 ^ 64 \<Longrightarrow> unat (\<Sum>x\<leftarrow>xs. f x) = (\<Sum>x\<leftarrow>xs. unat (f x))"
  by (induction xs) (simp_all add: unat_add_u64)

definition valid_samples :: "latency_stats \<Rightarrow> lat_sample list" where
  "valid_samples s = take (unat (lt_size s)) (lt_samples s)"

lemma aggregate_loop_ok:
  assumes "\<forall>s \<in> set ss. unat (lt_size s) \<le> length (lt_samples s)"
    and "k + (\<Sum>s\<leftarrow>ss. unat (lt_size s)) \<le> length (lt_samples agg)"
  shows "aggregate_loop ss agg k =
    Inr (agg\<lparr>lt_th := foldl add_th (lt_th agg) (map lt_th ss),
             lt_samples := take k (lt_samples agg) @ concat (map valid_samples ss)
               @ drop (k + (\<Sum>s\<leftarrow>ss. unat (lt_size s))) (lt_samples agg)\<rparr>,
         k + (\<Sum>s\<leftarrow>ss. unat (lt_size s)))"
  using assms
proof (induction ss arbitrary: agg k)
  case Nil
  then show ?case by simp
next
  case (Cons s ss)
  let ?n = "unat (lt_size s)"
  let ?smp = "take k (lt_samples agg) @ take ?n (lt_samples s) @ drop (k + ?n) (lt_samples agg)"
  have copy: "c_memcpy (lt_samples agg) k (lt_samples s) ?n = Inr ?smp"
    using Cons.prems by (simp add: c_memcpy_def)
  have len: "length ?smp = length (lt_samples agg)"
    using Cons.prems by simp
  have "take (k + ?n) ?smp = take k (lt_samples agg) @ valid_samples s"
    using Cons.prems by (simp add: valid_samples_def)
  moreover have "drop (k + ?n + m) ?smp = drop (k + ?n + m) (lt_samples agg)" for m
    using Cons.prems by (simp add: ac_simps)
  ultimately show ?case
    using Cons.prems copy len
    by (simp add: Cons.IH add.assoc del: take_append drop_append)
qed

lemma aggregate_loop_overflow:
  assumes "\<forall>s \<in> set ss. unat (lt_size s) \<le> length (lt_samples s)"
    and "length (lt_samples agg) < k + (\<Sum>s\<leftarrow>ss. unat (lt_size s))" and "k \<le> length (lt_samples agg)"
  shows "aggregate_loop ss agg k = Inl Undefined"
  using assms
proof (induction ss arbitrary: agg k)
  case (Cons s ss)
  show ?case
  proof (cases "c_memcpy (lt_samples agg) k (lt_samples s) (unat (lt_size s))")
    case (Inl e)
    then show ?thesis by (auto simp: c_memcpy_def split: if_splits)
  next
    case (Inr smp)
    have k: "k + unat (lt_size s) \<le> length smp" and len: "length smp = length (lt_samples agg)"
      using length_c_memcpy [OF Inr] Inr by (simp_all only: c_memcpy_eq_Inr)
    let ?agg = "agg\<lparr>lt_th := add_th (lt_th agg) (lt_th s), lt_samples := smp\<rparr>"
    have "aggregate_loop ss ?agg (k + unat (lt_size s)) = Inl Undefined"
      using Cons.prems k len by (intro Cons.IH) simp_all
    with Inr show ?thesis by simp
  qed
qed simp

text \<open>All threads' valid samples, and the aggregate over them when they fit the shared buffer.\<close>

definition all_samples :: "stats_state \<Rightarrow> lat_sample list" where
  "all_samples st = concat (map valid_samples (all_stats st))"

lemma length_all_samples:
  assumes "\<forall>s \<in> set (all_stats st). unat (lt_size s) \<le> length (lt_samples s)"
  shows "length (all_samples st) = (\<Sum>s\<leftarrow>all_stats st. unat (lt_size s))"
proof -
  have "map length (map valid_samples (all_stats st)) = map (\<lambda>s. unat (lt_size s)) (all_stats st)"
    using assms by (simp add: valid_samples_def)
  then show ?thesis by (simp add: all_samples_def length_concat del: map_map)
qed

lemma aggregate_latency_ok:
  assumes "atype \<noteq> AGENT_NR" and "\<forall>s \<in> set (all_stats st). unat (lt_size s) \<le> length (lt_samples s)"
    and "length (all_samples st) \<le> AGG_SAMPLE_SIZE"
  shows "aggregate_latency_samples atype st agg =
    Inr ((clear_stats atype agg)\<lparr>lt_th := th_sum (map lt_th (all_stats st)),
      lt_samples := all_samples st @ replicate (AGG_SAMPLE_SIZE - length (all_samples st)) zero_sample,
      lt_size := word_of_nat (length (all_samples st))\<rparr>)"
proof -
  let ?agg = "(clear_stats atype agg)\<lparr>lt_samples := replicate AGG_SAMPLE_SIZE zero_sample\<rparr>"
  note len = length_all_samples [OF assms(2)]
  have "aggregate_loop (all_stats st) ?agg 0 = Inr (?agg\<lparr>lt_th := th_sum (map lt_th (all_stats st)),
      lt_samples := all_samples st @ replicate (AGG_SAMPLE_SIZE - length (all_samples st)) zero_sample\<rparr>,
      length (all_samples st))"
    using aggregate_loop_ok [OF assms(2), of 0 ?agg] assms(3) lt_th_clear [OF assms(1)]
    unfolding len by (simp add: foldl_add_th all_samples_def)
  then show ?thesis by (simp add: aggregate_latency_samples_def)
qed

end
