(* ===== verification/Stats_Properties.thy ===== *)
theory Stats_Properties
  imports Stats_Record
begin

text \<open>
  What the recording half of \<open>stats.c\<close> promises: a measurement leaves the last \<open>per_thread_samples\<close>
  accepted latencies and the last 2048 transmit times of the thread, whatever the buffers held
  before; aggregation adds the threads' counters and concatenates their samples as long as they fit
  the shared buffer. The proofs rest on the \<open>ring_log\<close> interface and on the aggregation lemmas.
\<close>

definition latency_agent :: "agent_type \<Rightarrow> bool" where
  "latency_agent atype \<longleftrightarrow> atype \<in> {LATENCY_AGENT, SYMMETRIC_NIC_TIMESTAMP_AGENT, SYMMETRIC_AGENT}"

lemma valid_samples_nsec:
  "map ls_nsec (valid_samples s) = take (unat (lt_size s)) (map ls_nsec (lt_samples s))"
  by (simp add: valid_samples_def take_map)

lemma lat_wf_size: "lat_wf n ts \<Longrightarrow> unat (lt_size ts) = min (unat n) (unat (lt_count ts))"
  by (auto simp: lat_wf_def min_def word_le_nat_alt)

text \<open>
  C9. A measurement keeps the newest latencies: after the reset, any sequence of calls to
  \<open>add_latency_sample\<close> succeeds and the valid samples are, as a multiset, exactly the last
  \<open>per_thread_samples\<close> of those accepted by the sampling rate.
\<close>

theorem latency_log_keeps_last:
  assumes "set_per_thread_samples n sr st = Inr st'" and "latency_agent atype"
    and "length (lt_samples ts) = MAX_PER_THREAD_SAMPLES" and "length (accepted st' cs) < 2 ^ 32"
  shows "\<exists>ts'. lat_calls True st' cs (clear_stats atype ts) = Inr ts'
    \<and> unat (lt_size ts') = min (nat n) (length (accepted st' cs))
    \<and> mset (map ls_nsec (valid_samples ts'))
      = mset (last_n (nat n) (map (\<lambda>c. word_of_int (fst c)) (accepted st' cs)))"
proof -
  let ?n = "word_of_int n :: u32" and ?xs = "accepted st' cs"
  from assms(1) have n: "0 < n" "n \<le> int MAX_PER_THREAD_SAMPLES" and st': "per_thread_samples st' = n"
    by (auto simp: set_per_thread_samples_def c_result_simps)
  have wf: "lat_wf ?n (clear_stats atype ts)" and zero: "lt_count (clear_stats atype ts) = 0"
    using lat_wf_cleared [OF _ n assms(3)] assms(2) unfolding latency_agent_def by blast+
  let ?ts' = "foldl (lat_store ?n) (clear_stats atype ts) ?xs"
  have run: "foldl lat_push (?n, clear_stats atype ts) ?xs = (?n, ?ts')"
    by (rule foldl_lat_push)
  have "lat_wf ?n ?ts'" and count: "unat (lt_count ?ts') = length ?xs"
    using lat_ring.run_ok [of "(?n, clear_stats atype ts)" ?xs]
      lat_ring.run_count [of "(?n, clear_stats atype ts)" ?xs] wf zero assms(4) run by simp_all
  then have size: "unat (lt_size ?ts') = min (nat n) (length ?xs)"
    using lat_wf_size u32_of_samples [OF n] by simp
  then have "mset (map ls_nsec (valid_samples ?ts')) = mset (last_n (nat n) (map (\<lambda>c. word_of_int (fst c)) ?xs))"
    using lat_ring.run_keeps_last [of "(?n, clear_stats atype ts)" ?xs] wf zero assms(4) run u32_of_samples [OF n]
    by (simp add: valid_samples_nsec min.commute)
  then show ?thesis
    using lat_calls_wf [of st' "clear_stats atype ts" cs] wf st' size by (intro exI [of _ ?ts']) simp
qed

theorem latency_log_keeps_last_witness:
  "\<exists>st' ts'. set_per_thread_samples 2 (Fin 100) \<lparr>all_stats = [], all_tx = [], per_thread_samples = 0,
        sampling_rate = Fin 0, reference_ia = []\<rparr> = Inr st'
     \<and> lat_calls True st' [(Fin 0, 5, None), (Fin (1/2), 6, None), (Fin (1/3), 7, None)]
         (clear_stats LATENCY_AGENT (zero_lat (replicate MAX_PER_THREAD_SAMPLES zero_sample))) = Inr ts'
     \<and> mset (map ls_nsec (valid_samples ts')) = {#6, 7#}"
proof -
  let ?st = "\<lparr>all_stats = [], all_tx = [], per_thread_samples = 0, sampling_rate = Fin 0, reference_ia = []\<rparr>"
  let ?st' = "?st\<lparr>per_thread_samples := 2, sampling_rate := Fin 1\<rparr>"
  let ?ts = "zero_lat (replicate MAX_PER_THREAD_SAMPLES zero_sample)"
  let ?cs = "[(Fin 0, 5 :: int, None :: timespec option), (Fin (1/2), 6, None), (Fin (1/3), 7, None)]"
  have set: "set_per_thread_samples 2 (Fin 100) ?st = Inr ?st'"
    by (simp add: set_per_thread_samples_def stats_sizes)
  have acc: "accepted ?st' ?cs = [(5, None), (6, None), (7, None)]"
    by (simp add: accepted_def)
  have "latency_agent LATENCY_AGENT" and "length (lt_samples ?ts) = MAX_PER_THREAD_SAMPLES"
    and "length (accepted ?st' ?cs) < 2 ^ 32" unfolding acc by (simp_all add: latency_agent_def zero_lat_def)
  from latency_log_keeps_last [OF set this] set acc show ?thesis
    by (auto simp: last_n_def)
qed

text \<open>
  The transmit log keeps the newest 2048 times: after a reset, while the 32-bit counter does not
  wrap, the used slots hold exactly the last times recorded, and with at most 2048 of them in order.
\<close>

theorem tx_log_keeps_last:
  assumes "tx_wf t" and "length xs < 2 ^ 32"
  shows "let t' = foldl (\<lambda>t x. add_tx_timestamp True x t) (t\<lparr>txs_count := 0\<rparr>) xs in
    tx_wf t' \<and> unat (txs_count t') = length xs
    \<and> mset (take (min (length xs) MAX_PER_THREAD_TX_SAMPLES) (txs_samples t'))
      = mset (last_n MAX_PER_THREAD_TX_SAMPLES xs)
    \<and> (length xs \<le> MAX_PER_THREAD_TX_SAMPLES \<longrightarrow> take (length xs) (txs_samples t') = xs)"
proof -
  have push: "(\<lambda>t x. add_tx_timestamp True x t) = tx_push"
    by (simp add: add_tx_timestamp_def fun_eq_iff)
  have ok: "tx_wf (t\<lparr>txs_count := 0\<rparr>)" "unat (txs_count (t\<lparr>txs_count := 0\<rparr>)) = 0"
    using assms(1) by (simp_all add: tx_wf_def)
  show ?thesis
    unfolding Let_def push
    using tx_ring.run_ok [OF ok assms(2)] tx_ring.run_count [OF ok assms(2)]
      tx_ring.run_keeps_last [OF ok assms(2)] tx_ring.run_prefix [OF ok assms(2)] by simp
qed

theorem tx_log_keeps_last_witness:
  "take (Suc (Suc 0)) (txs_samples (foldl (\<lambda>t x. add_tx_timestamp True x t) (zero_tx\<lparr>txs_count := 0\<rparr>)
     [Timespec 1 2, Timespec 1 3])) = [Timespec 1 2, Timespec 1 3]"
  using tx_log_keeps_last [of zero_tx "[Timespec 1 2, Timespec 1 3]"]
  by (simp add: tx_wf_def zero_tx_def Let_def stats_sizes)

text \<open>
  The throughput report is the sum over all threads of the bytes and requests received and sent,
  without wrap-around as long as the four totals fit 64 bits; the reports do not change a thread's
  counters, and what the shared buffer held before does not matter.
\<close>

theorem aggregate_throughput_exact:
  assumes "atype \<noteq> AGENT_NR"
    and "\<forall>f \<in> {\<lambda>t. br_bytes (th_rx t), \<lambda>t. br_reqs (th_rx t), \<lambda>t. br_bytes (th_tx t), \<lambda>t. br_reqs (th_tx t)}.
      (\<Sum>s\<leftarrow>all_stats st. unat (f (lt_th s))) < 2 ^ 64"
  shows "let th = lt_th (aggregate_throughput_stats atype st agg) in
    unat (br_bytes (th_rx th)) = (\<Sum>s\<leftarrow>all_stats st. unat (br_bytes (th_rx (lt_th s))))
    \<and> unat (br_reqs (th_rx th)) = (\<Sum>s\<leftarrow>all_stats st. unat (br_reqs (th_rx (lt_th s))))
    \<and> unat (br_bytes (th_tx th)) = (\<Sum>s\<leftarrow>all_stats st. unat (br_bytes (th_tx (lt_th s))))
    \<and> unat (br_reqs (th_tx th)) = (\<Sum>s\<leftarrow>all_stats st. unat (br_reqs (th_tx (lt_th s))))"
  using assms(2)
  by (simp add: Let_def lt_th_aggregate_throughput [OF assms(1)] th_sum_def comp_def unat_sum_list_u64)

theorem aggregate_throughput_exact_witness:
  "unat (br_reqs (th_rx (lt_th (aggregate_throughput_stats THROUGHPUT_AGENT
      \<lparr>all_stats = [add_throughput_rx_sample True \<lparr>br_bytes = 10, br_reqs = 1\<rparr> (zero_lat []),
                   add_throughput_rx_sample True \<lparr>br_bytes = 20, br_reqs = 2\<rparr> (zero_lat [])],
       all_tx = [], per_thread_samples = 0, sampling_rate = Fin 0, reference_ia = []\<rparr> (zero_lat []))))) = 3"
  using aggregate_throughput_exact [of THROUGHPUT_AGENT
    "\<lparr>all_stats = [add_throughput_rx_sample True \<lparr>br_bytes = 10, br_reqs = 1\<rparr> (zero_lat []),
                   add_throughput_rx_sample True \<lparr>br_bytes = 20, br_reqs = 2\<rparr> (zero_lat [])],
       all_tx = [], per_thread_samples = 0, sampling_rate = Fin 0, reference_ia = []\<rparr>" "zero_lat []"]
  by (simp add: Let_def add_throughput_rx_sample_def zero_lat_def zero_th_def zero_pair_def)

text \<open>
  C26. The latency report collects every thread's samples: if all valid samples fit the shared buffer,
  it begins with the threads' valid samples in registration order, the rest is zero, and the counters
  are added; if they do not fit, the copy runs past the end of the buffer. The agent never checks
  this, and nine threads with full logs do not fit (the witness).
\<close>

theorem aggregate_latency_concatenates:
  assumes "atype \<noteq> AGENT_NR" and "\<forall>s \<in> set (all_stats st). unat (lt_size s) \<le> length (lt_samples s)"
  defines "n_all \<equiv> \<Sum>s\<leftarrow>all_stats st. unat (lt_size s)"
  shows "aggregate_latency_samples atype st agg =
    (if n_all \<le> AGG_SAMPLE_SIZE
     then Inr ((clear_stats atype agg)\<lparr>lt_th := th_sum (map lt_th (all_stats st)),
        lt_samples := concat (map valid_samples (all_stats st)) @ replicate (AGG_SAMPLE_SIZE - n_all) zero_sample,
        lt_size := word_of_nat n_all\<rparr>)
     else Inl Undefined)"
proof (cases "n_all \<le> AGG_SAMPLE_SIZE")
  case True
  then show ?thesis
    using aggregate_latency_ok [OF assms(1,2)] length_all_samples [OF assms(2)]
    by (simp add: n_all_def all_samples_def)
next
  case False
  then have "aggregate_loop (all_stats st) ((clear_stats atype agg)\<lparr>lt_samples := replicate AGG_SAMPLE_SIZE zero_sample\<rparr>) 0
      = Inl Undefined"
    using aggregate_loop_overflow [OF assms(2), of _ 0] by (simp add: n_all_def)
  with False show ?thesis by (simp add: aggregate_latency_samples_def)
qed

theorem aggregate_latency_concatenates_witness:
  "aggregate_latency_samples LATENCY_AGENT
     \<lparr>all_stats = replicate 9 ((zero_lat (replicate MAX_PER_THREAD_SAMPLES zero_sample))\<lparr>lt_size := word_of_nat MAX_PER_THREAD_SAMPLES\<rparr>),
      all_tx = [], per_thread_samples = 131072, sampling_rate = Fin 1, reference_ia = []\<rparr> (zero_lat []) = Inl Undefined"
proof -
  let ?t = "(zero_lat (replicate MAX_PER_THREAD_SAMPLES zero_sample))\<lparr>lt_size := word_of_nat MAX_PER_THREAD_SAMPLES\<rparr>"
  let ?st = "\<lparr>all_stats = replicate 9 ?t, all_tx = [], per_thread_samples = 131072, sampling_rate = Fin 1, reference_ia = []\<rparr>"
  have size: "unat (lt_size ?t) = 131072" "unat (lt_size ?t) = length (lt_samples ?t)"
    by (simp_all add: stats_sizes zero_lat_def)
  have "\<forall>s \<in> set (all_stats ?st). unat (lt_size s) \<le> length (lt_samples s)"
    using size(2) by simp
  moreover have "\<not> (\<Sum>s\<leftarrow>all_stats ?st. unat (lt_size s)) \<le> AGG_SAMPLE_SIZE"
    unfolding stats_state.simps map_replicate sum_list_replicate size(1) by (simp add: stats_sizes)
  ultimately show ?thesis
    using aggregate_latency_concatenates [of LATENCY_AGENT ?st "zero_lat []"] by simp
qed

text \<open>
  C37. \<open>add_latency_sample\<close> relies on the configuration: if the manager has never set
  \<open>per_thread_samples\<close>, the first accepted sample divides by zero; once it has, no call fails,
  whatever the unset counters of a freshly registered thread hold.
\<close>

theorem add_latency_sample_needs_configuration:
  assumes "length (lt_samples ts) = MAX_PER_THREAD_SAMPLES"
    and "0 \<le> per_thread_samples st" and "per_thread_samples st \<le> int MAX_PER_THREAD_SAMPLES"
  shows "add_latency_sample measuring rnd st diff tx ts = Inl Undefined \<longleftrightarrow>
    measuring \<and> \<not> sampling_rate st < rnd \<and> per_thread_samples st = 0"
proof (cases "per_thread_samples st = 0")
  case True
  then show ?thesis by (simp add: add_latency_sample_def)
next
  case False
  let ?n = "word_of_int (per_thread_samples st) :: u32"
  have n: "unat ?n = nat (per_thread_samples st)" using False assms(2,3) by (intro u32_of_samples) simp_all
  then have "0 < unat ?n" using False assms(2) by simp
  then have "unat (lt_count ts mod ?n) < unat ?n" by (simp add: unat_mod)
  then have "unat (lt_count ts mod ?n) < length (lt_samples ts)"
    using n assms by linarith
  moreover have "?n \<noteq> 0" using \<open>0 < unat ?n\<close> by auto
  ultimately show ?thesis using False by (simp add: add_latency_sample_def Let_def)
qed

theorem add_latency_sample_needs_configuration_witness:
  "add_latency_sample True (Fin 0) \<lparr>all_stats = [], all_tx = [], per_thread_samples = 0, sampling_rate = Fin 0,
       reference_ia = []\<rparr> 5 None (zero_lat (replicate MAX_PER_THREAD_SAMPLES zero_sample)) = Inl Undefined"
  by (subst add_latency_sample_needs_configuration) (simp_all add: zero_lat_def)

end
