(* ===== verification/C_Qsort.thy ===== *)
theory C_Qsort
  imports Prelude
begin

text \<open>
  The C library's \<open>qsort\<close>, as the GNU library implements it: a merge sort that calls the comparator
  only to ask \<open>cmp(l, r) > 0\<close>. The components do not depend on this algorithm. They rest on the
  interface \<open>c_sorting\<close>: the result is a permutation, and it is in order whenever the comparator
  is \<^emph>\<open>consistent\<close> on the array's elements, which is a condition on the code's comparators and has
  to be shown (or refuted) for each of them.
\<close>

fun msort_merge :: "('a \<Rightarrow> 'a \<Rightarrow> int) \<Rightarrow> 'a list \<Rightarrow> 'a list \<Rightarrow> 'a list" where
  "msort_merge cmp [] ys = ys"
| "msort_merge cmp (x # xs) [] = x # xs"
| "msort_merge cmp (x # xs) (y # ys) =
     (if 0 < cmp x y then y # msort_merge cmp (x # xs) ys
      else x # msort_merge cmp xs (y # ys))"

fun qsort :: "('a \<Rightarrow> 'a \<Rightarrow> int) \<Rightarrow> 'a list \<Rightarrow> 'a list" where
  "qsort cmp xs =
     (let n = length xs in
      if n \<le> 1 then xs
      else msort_merge cmp (qsort cmp (take (n div 2) xs)) (qsort cmp (drop (n div 2) xs)))"

declare qsort.simps [simp del]

text \<open>A comparator is consistent on a set when "not greater" is a total preorder there.\<close>

definition consistent_on :: "'a set \<Rightarrow> ('a \<Rightarrow> 'a \<Rightarrow> int) \<Rightarrow> bool" where
  "consistent_on A cmp \<longleftrightarrow>
     (\<forall>x\<in>A. \<forall>y\<in>A. cmp x y \<le> 0 \<or> cmp y x \<le> 0) \<and>
     (\<forall>x\<in>A. \<forall>y\<in>A. \<forall>z\<in>A. cmp x y \<le> 0 \<longrightarrow> cmp y z \<le> 0 \<longrightarrow> cmp x z \<le> 0)"

text \<open>Every comparator of the program means to compare a key; then it is consistent.\<close>

definition compares_key_on :: "'a set \<Rightarrow> ('a \<Rightarrow> 'k :: linorder) \<Rightarrow> ('a \<Rightarrow> 'a \<Rightarrow> int) \<Rightarrow> bool" where
  "compares_key_on A key cmp \<longleftrightarrow> (\<forall>x\<in>A. \<forall>y\<in>A. cmp x y \<le> 0 \<longleftrightarrow> key x \<le> key y)"

lemma compares_key_consistent: "compares_key_on A key cmp \<Longrightarrow> consistent_on A cmp"
  unfolding compares_key_on_def consistent_on_def by (meson linear order_trans)

lemma consistent_on_subset: "consistent_on A cmp \<Longrightarrow> B \<subseteq> A \<Longrightarrow> consistent_on B cmp"
  unfolding consistent_on_def by blast

lemma consistent_on_total: "consistent_on A cmp \<Longrightarrow> x \<in> A \<Longrightarrow> y \<in> A \<Longrightarrow> cmp x y \<le> 0 \<or> cmp y x \<le> 0"
  unfolding consistent_on_def by blast

lemma consistent_on_trans:
  "consistent_on A cmp \<Longrightarrow> x \<in> A \<Longrightarrow> y \<in> A \<Longrightarrow> z \<in> A \<Longrightarrow> cmp x y \<le> 0 \<Longrightarrow> cmp y z \<le> 0 \<Longrightarrow> cmp x z \<le> 0"
  unfolding consistent_on_def by blast

locale c_sorting =
  fixes sort_by :: "('a \<Rightarrow> 'a \<Rightarrow> int) \<Rightarrow> 'a list \<Rightarrow> 'a list"
  assumes mset_sort_by [simp]: "mset (sort_by cmp xs) = mset xs"
    and in_order: "consistent_on (set xs) cmp \<Longrightarrow> sorted_wrt (\<lambda>x y. cmp x y \<le> 0) (sort_by cmp xs)"
begin

lemma set_sort_by [simp]: "set (sort_by cmp xs) = set xs"
  by (metis mset_sort_by set_mset_mset)

lemma length_sort_by [simp]: "length (sort_by cmp xs) = length xs"
  by (metis mset_sort_by size_mset)

lemma sorted_key:
  assumes "compares_key_on (set xs) key cmp"
  shows "sorted (map key (sort_by cmp xs))"
proof -
  from assms have "sorted_wrt (\<lambda>x y. cmp x y \<le> 0) (sort_by cmp xs)"
    by (intro in_order compares_key_consistent)
  then have "sorted_wrt (\<lambda>x y. key x \<le> key y) (sort_by cmp xs)"
    using assms by (elim sorted_wrt_mono_rel [rotated]) (auto simp: compares_key_on_def)
  then show ?thesis
    by (simp add: sorted_wrt_map)
qed

text \<open>The keys come out as the sorted list of keys: position \<open>i\<close> is the \<open>i\<close>-th order statistic.\<close>

lemma map_key_sort_by:
  assumes "compares_key_on (set xs) key cmp"
  shows "map key (sort_by cmp xs) = sort (map key xs)"
  by (rule properties_for_sort [symmetric]) (simp_all add: sorted_key [OF assms])

lemma nth_key_sort_by:
  "compares_key_on (set xs) key cmp \<Longrightarrow> i < length xs \<Longrightarrow>
   key (sort_by cmp xs ! i) = sort (map key xs) ! i"
  by (metis map_key_sort_by length_sort_by nth_map)

end

lemma mset_msort_merge [simp]: "mset (msort_merge cmp xs ys) = mset xs + mset ys"
  by (induction cmp xs ys rule: msort_merge.induct) auto

lemma set_msort_merge [simp]: "set (msort_merge cmp xs ys) = set xs \<union> set ys"
  by (metis mset_msort_merge set_mset_mset set_mset_union)

lemma mset_qsort: "mset (qsort cmp xs) = mset xs"
proof (induction cmp xs rule: qsort.induct)
  case (1 cmp xs)
  then show ?case
    by (cases "length xs \<le> 1")
      (simp_all add: qsort.simps [of cmp xs] Let_def flip: mset_append)
qed

lemma set_qsort: "set (qsort cmp xs) = set xs"
  by (metis mset_qsort set_mset_mset)

lemma sorted_msort_merge:
  assumes "consistent_on (set xs \<union> set ys) cmp"
    and "sorted_wrt (\<lambda>x y. cmp x y \<le> 0) xs" and "sorted_wrt (\<lambda>x y. cmp x y \<le> 0) ys"
  shows "sorted_wrt (\<lambda>x y. cmp x y \<le> 0) (msort_merge cmp xs ys)"
  using assms
proof (induction cmp xs ys rule: msort_merge.induct)
  case (3 cmp x xs y ys)
  let ?A = "set (x # xs) \<union> set (y # ys)"
  note trans = consistent_on_trans [OF 3(3)]
  have total: "cmp x y \<le> 0 \<or> cmp y x \<le> 0"
    using consistent_on_total [OF 3(3), of x y] by simp
  show ?case
  proof (cases "0 < cmp x y")
    case True
    then have yx: "cmp y x \<le> 0" using total by simp
    have "sorted_wrt (\<lambda>x y. cmp x y \<le> 0) (msort_merge cmp (x # xs) ys)"
      using 3(1) [OF True consistent_on_subset [OF 3(3)]] 3(4,5) by auto
    moreover have "cmp y z \<le> 0" if "z \<in> set (x # xs) \<union> set ys" for z
      using that yx 3(4,5) trans [of y x z] by auto
    ultimately show ?thesis using True by simp
  next
    case False
    then have xy: "cmp x y \<le> 0" by simp
    have "sorted_wrt (\<lambda>x y. cmp x y \<le> 0) (msort_merge cmp xs (y # ys))"
      using 3(2) [OF False consistent_on_subset [OF 3(3)]] 3(4,5) by auto
    moreover have "cmp x z \<le> 0" if "z \<in> set xs \<union> set (y # ys)" for z
      using that xy 3(4,5) trans [of x y z] by auto
    ultimately show ?thesis using False by simp
  qed
qed simp_all

lemma sorted_qsort:
  "consistent_on (set xs) cmp \<Longrightarrow> sorted_wrt (\<lambda>x y. cmp x y \<le> 0) (qsort cmp xs)"
proof (induction cmp xs rule: qsort.induct)
  case (1 cmp xs)
  let ?l = "take (length xs div 2) xs" and ?r = "drop (length xs div 2) xs"
  show ?case
  proof (cases "length xs \<le> 1")
    case True
    then have "sorted_wrt (\<lambda>x y. cmp x y \<le> 0) xs"
      by (cases xs) simp_all
    with True show ?thesis by (simp add: qsort.simps [of cmp xs])
  next
    case False
    have sub: "set ?l \<subseteq> set xs" "set ?r \<subseteq> set xs"
      by (simp_all add: set_take_subset set_drop_subset)
    have "set ?l \<union> set ?r = set xs"
      by (metis append_take_drop_id set_append)
    with "1.prems" have "consistent_on (set (qsort cmp ?l) \<union> set (qsort cmp ?r)) cmp"
      by (simp add: set_qsort)
    moreover have "sorted_wrt (\<lambda>x y. cmp x y \<le> 0) (qsort cmp ?l)"
      using "1.IH"(1) False consistent_on_subset [OF "1.prems" sub(1)] by simp
    moreover have "sorted_wrt (\<lambda>x y. cmp x y \<le> 0) (qsort cmp ?r)"
      using "1.IH"(2) False consistent_on_subset [OF "1.prems" sub(2)] by simp
    ultimately show ?thesis
      using False by (simp add: qsort.simps [of cmp xs] Let_def sorted_msort_merge)
  qed
qed

interpretation qs: c_sorting qsort
  by unfold_locales (simp_all add: mset_qsort sorted_qsort)

text \<open>A stable fact the interface does not promise: an array in order is left as it is.\<close>

lemma qsort_short [simp]: "length xs \<le> 1 \<Longrightarrow> qsort cmp xs = xs"
  by (simp add: qsort.simps)

end
