(* ===== verification/KS_Test.thy ===== *)
theory KS_Test
  imports Stats_Record C_Qsort
begin

text \<open>
  The two-sample Kolmogorov-Smirnov statistic of \<open>stats.c\<close> (\<open>ks\<close>, \<open>ks_lts\<close>), the comparators it
  sorts with, and the convergence test built on it (\<open>compute_convergence\<close>). The specification is the
  distance of the two empirical distribution functions.
\<close>

subsection \<open>Comparators\<close>

text \<open>The difference of two unsigned 64-bit numbers, returned as an \<open>int\<close>.\<close>

definition long_compare :: "u64 \<Rightarrow> u64 \<Rightarrow> int" where
  "long_compare a b = u64_to_c_int (a - b)"

definition sample_cmp_latency :: "lat_sample \<Rightarrow> lat_sample \<Rightarrow> int" where
  "sample_cmp_latency s1 s2 = u64_to_c_int (ls_nsec s1 - ls_nsec s2)"

definition sample_cmp_tx :: "lat_sample \<Rightarrow> lat_sample \<Rightarrow> int" where
  "sample_cmp_tx s1 s2 =
     (if tv_sec (ls_tx s1) \<noteq> tv_sec (ls_tx s2)
      then (if tv_sec (ls_tx s2) < tv_sec (ls_tx s1) then 1 else 0)
      else (if tv_nsec (ls_tx s2) < tv_nsec (ls_tx s1) then 1 else 0))"

text \<open>The truncation to \<open>int\<close> is harmless for values that lie within \<open>2\<^sup>3\<^sup>1\<close> of each other.\<close>

definition close_values :: "u64 list \<Rightarrow> bool" where
  "close_values xs \<longleftrightarrow> (\<forall>x \<in> set xs. \<forall>y \<in> set xs. \<bar>int (unat x) - int (unat y)\<bar> < 2 ^ 31)"

lemma compares_long: "close_values xs \<Longrightarrow> compares_key_on (set xs) (\<lambda>x. x) long_compare"
  by (simp add: compares_key_on_def close_values_def long_compare_def u64_to_c_int_sub word_le_def)

lemma compares_latency:
  "close_values (map ls_nsec xs) \<Longrightarrow> compares_key_on (set xs) ls_nsec sample_cmp_latency"
  by (simp add: compares_key_on_def close_values_def sample_cmp_latency_def u64_to_c_int_sub
      word_le_def)

lemma compares_tx: "compares_key_on A ls_tx sample_cmp_tx"
  by (auto simp: compares_key_on_def sample_cmp_tx_def less_eq_timespec_def)

lemma close_values_subset: "close_values xs \<Longrightarrow> set ys \<subseteq> set xs \<Longrightarrow> close_values ys"
  by (auto simp: close_values_def)

lemma qsort_long: "close_values xs \<Longrightarrow> qsort long_compare xs = sort xs"
  using qs.map_key_sort_by [OF compares_long] by simp

lemma qsort_latency:
  "close_values (map ls_nsec xs) \<Longrightarrow> map ls_nsec (qsort sample_cmp_latency xs) = sort (map ls_nsec xs)"
  by (rule qs.map_key_sort_by [OF compares_latency])

lemma sorted_qsort_tx: "sorted (map ls_tx (qsort sample_cmp_tx xs))"
  by (rule qs.sorted_key [OF compares_tx])

subsection \<open>The loop of \<open>ks\<close> and \<open>ks_lts\<close>\<close>

text \<open>
  The two functions have the same loop, over the numbers themselves and over the \<open>nsec\<close> fields of
  samples. The variable \<open>diff\<close> keeps its value between iterations, as in the code.
\<close>

function ks_loop :: "u64 list \<Rightarrow> u64 list \<Rightarrow> nat \<Rightarrow> nat \<Rightarrow> dbl \<Rightarrow> dbl \<Rightarrow> dbl" where
  "ks_loop a b ia ib diff max_diff =
     (if ia < length a \<and> ib < length b then
        let min_val = (if a ! ia < b ! ib then a ! ia else b ! ib);
            (diff1, ia') =
              (if min_val = a ! ia
               then (dbl_of_nat (ia + 1) / dbl_of_nat (length a) - dbl_of_nat ib / dbl_of_nat (length b), ia + 1)
               else (diff, ia));
            (diff2, ib') =
              (if min_val = b ! ib
               then (dbl_of_nat (ib + 1) / dbl_of_nat (length b) - dbl_of_nat ia' / dbl_of_nat (length a), ib + 1)
               else (diff1, ib));
            diff3 = (if diff2 < 0 then diff2 * Fin (- 1) else diff2)
        in ks_loop a b ia' ib' diff3 (if max_diff < diff3 then diff3 else max_diff)
      else max_diff)"
  by pat_completeness auto
termination
  by (relation "measure (\<lambda>(a, b, ia, ib, _). (length a - ia) + (length b - ib))")
    (auto split: if_splits)

declare ks_loop.simps [simp del]

text \<open>The result and the two arrays, which are sorted in place.\<close>

definition ks :: "u64 list \<Rightarrow> u64 list \<Rightarrow> dbl \<times> u64 list \<times> u64 list" where
  "ks a b =
     (let a' = qsort long_compare a; b' = qsort long_compare b
      in (ks_loop a' b' 0 0 NaN 0, a', b'))"

definition ks_lts :: "lat_sample list \<Rightarrow> lat_sample list \<Rightarrow> dbl \<times> lat_sample list \<times> lat_sample list" where
  "ks_lts a b =
     (let a' = qsort sample_cmp_latency a; b' = qsort sample_cmp_latency b
      in (ks_loop (map ls_nsec a') (map ls_nsec b') 0 0 NaN 0, a', b'))"

subsection \<open>The statistic over the reals\<close>

definition gap :: "u64 list \<Rightarrow> u64 list \<Rightarrow> nat \<Rightarrow> nat \<Rightarrow> real" where
  "gap a b i j = \<bar>real i / real (length a) - real j / real (length b)\<bar>"

function ks_real :: "u64 list \<Rightarrow> u64 list \<Rightarrow> nat \<Rightarrow> nat \<Rightarrow> real \<Rightarrow> real" where
  "ks_real a b ia ib m =
     (if ia < length a \<and> ib < length b then
        let ia' = (if a ! ia \<le> b ! ib then ia + 1 else ia);
            ib' = (if b ! ib \<le> a ! ia then ib + 1 else ib)
        in ks_real a b ia' ib' (max m (gap a b ia' ib'))
      else m)"
  by pat_completeness auto
termination
  by (relation "measure (\<lambda>(a, b, ia, ib, _). (length a - ia) + (length b - ib))")
    (auto simp: not_le split: if_splits)

declare ks_real.simps [simp del]

lemma ks_real_stop: "\<not> (ia < length a \<and> ib < length b) \<Longrightarrow> ks_real a b ia ib m = m"
  by (subst ks_real.simps) (simp only: if_False)

abbreviation next_a :: "u64 list \<Rightarrow> u64 list \<Rightarrow> nat \<Rightarrow> nat \<Rightarrow> nat" where
  "next_a a b ia ib \<equiv> if a ! ia \<le> b ! ib then ia + 1 else ia"

abbreviation next_b :: "u64 list \<Rightarrow> u64 list \<Rightarrow> nat \<Rightarrow> nat \<Rightarrow> nat" where
  "next_b a b ia ib \<equiv> if b ! ib \<le> a ! ia then ib + 1 else ib"

lemma ks_real_step:
  "ia < length a \<and> ib < length b \<Longrightarrow>
   ks_real a b ia ib m = ks_real a b (next_a a b ia ib) (next_b a b ia ib)
     (max m (gap a b (next_a a b ia ib) (next_b a b ia ib)))"
  by (subst ks_real.simps) (simp only: Let_def if_True simp_thms)

lemma dbl_abs: "(if Fin r < 0 then Fin r * Fin (- 1) else Fin r) = Fin \<bar>r\<bar>"
  by (simp add: zero_dbl_def)

lemma dbl_max: "(if Fin m < Fin r then Fin r else Fin m) = Fin (max m r)"
  by (simp add: max_def)

lemma ks_loop_once:
  assumes "ia < length a" and "ib < length b"
    and "(diff1, ia') =
      (if (if a ! ia < b ! ib then a ! ia else b ! ib) = a ! ia
       then (dbl_of_nat (ia + 1) / dbl_of_nat (length a) - dbl_of_nat ib / dbl_of_nat (length b), ia + 1)
       else (diff, ia))"
    and "(Fin r, ib') =
      (if (if a ! ia < b ! ib then a ! ia else b ! ib) = b ! ib
       then (dbl_of_nat (ib + 1) / dbl_of_nat (length b) - dbl_of_nat ia' / dbl_of_nat (length a), ib + 1)
       else (diff1, ib))"
  shows "ks_loop a b ia ib diff (Fin m) = ks_loop a b ia' ib' (Fin \<bar>r\<bar>) (Fin (max m \<bar>r\<bar>))"
  by (subst ks_loop.simps)
    (simp only: assms(1,2) assms(3,4) [symmetric] simp_thms if_True Let_def prod.case dbl_abs dbl_max)

lemma frac_diff:
  assumes "0 < m" and "0 < n"
  shows "dbl_of_nat i / dbl_of_nat m - dbl_of_nat j / dbl_of_nat n = Fin (real i / real m - real j / real n)"
  using assms by simp

lemma ks_loop_step:
  assumes len: "ia < length a" "ib < length b"
    and ia': "ia' = (if a ! ia \<le> b ! ib then ia + 1 else ia)"
    and ib': "ib' = (if b ! ib \<le> a ! ia then ib + 1 else ib)"
  shows "ks_loop a b ia ib diff (Fin m)
       = ks_loop a b ia' ib' (Fin (gap a b ia' ib')) (Fin (max m (gap a b ia' ib')))"
proof -
  have pos: "0 < length a" "0 < length b" using len by linarith+
  have sym: "gap a b ia' ib' = \<bar>real ib' / real (length b) - real ia' / real (length a)\<bar>"
    by (simp add: gap_def abs_minus_commute)
  consider "a ! ia < b ! ib" | "a ! ia = b ! ib" | "b ! ib < a ! ia" by fastforce
  then show ?thesis
  proof cases
    case 1
    then have "ia' = ia + 1" "ib' = ib" by (simp_all add: ia' ib')
    moreover have "a ! ia \<noteq> b ! ib" using 1 by simp
    ultimately show ?thesis
      unfolding gap_def using 1 frac_diff [OF pos] by (intro ks_loop_once [OF len]) (simp_all del: of_nat_Suc)
  next
    case 2
    then have "ia' = ia + 1" "ib' = ib + 1" by (simp_all add: ia' ib')
    then show ?thesis
      unfolding sym using 2 frac_diff [OF pos(2,1)] by (intro ks_loop_once [OF len]) (simp_all del: of_nat_Suc)
  next
    case 3
    then have "ia' = ia" "ib' = ib + 1" by (simp_all add: ia' ib')
    moreover have "b ! ib \<noteq> a ! ia" "\<not> a ! ia < b ! ib" using 3 by simp_all
    ultimately show ?thesis
      unfolding sym using frac_diff [OF pos(2,1)] by (intro ks_loop_once [OF len]) (simp_all del: of_nat_Suc)
  qed
qed

lemma ks_loop_real: "ks_loop a b ia ib diff (Fin m) = Fin (ks_real a b ia ib m)"
proof (induction a b ia ib m arbitrary: diff rule: ks_real.induct)
  case (1 a b ia ib m)
  show ?case
  proof (cases "ia < length a \<and> ib < length b")
    case True
    then show ?thesis
      using "1.IH" [OF True refl refl] by (simp only: ks_loop_step [OF _ _ refl refl] ks_real_step)
  next
    case False
    then show ?thesis
      by (subst ks_loop.simps) (simp only: if_False ks_real_stop [OF False])
  qed
qed

subsection \<open>Empirical distribution functions\<close>

definition rank :: "u64 list \<Rightarrow> u64 \<Rightarrow> nat" where
  "rank a x = length (filter (\<lambda>y. y \<le> x) a)"

text \<open>The fraction of the array that is at most \<open>x\<close>.\<close>

definition ecdf :: "u64 list \<Rightarrow> u64 \<Rightarrow> real" where
  "ecdf a x = real (rank a x) / real (length a)"

lemma rank_le: "rank a x \<le> length a"
  by (simp add: rank_def)

lemma ecdf_bounds: "0 \<le> ecdf a x" "ecdf a x \<le> 1"
  using rank_le [of a x] by (auto simp: ecdf_def divide_le_eq_1)

lemma rank_mset: "mset a = mset b \<Longrightarrow> rank a x = rank b x"
  unfolding rank_def by (metis mset_filter size_mset)

lemma ecdf_sort [simp]: "ecdf (sort a) x = ecdf a x"
  by (simp add: ecdf_def rank_mset [of "sort a" a])

lemma rank_eqI:
  assumes "n \<le> length a" and "\<And>i. i < n \<Longrightarrow> a ! i \<le> x" and "\<And>i. n \<le> i \<Longrightarrow> i < length a \<Longrightarrow> x < a ! i"
  shows "rank a x = n"
proof -
  have "filter (\<lambda>y. y \<le> x) (take n a) = take n a"
    using assms(1,2) by (auto simp: filter_id_conv in_set_conv_nth)
  moreover have "filter (\<lambda>y. y \<le> x) (drop n a) = []"
    using assms(1,3) by (fastforce simp: filter_empty_conv in_set_conv_nth not_le)
  ultimately have "filter (\<lambda>y. y \<le> x) (take n a @ drop n a) = take n a"
    by (simp only: filter_append append_Nil2)
  with assms(1) show ?thesis
    by (simp add: rank_def)
qed

lemma rank_gt_iff:
  assumes "sorted a" and "i < length a"
  shows "i < rank a x \<longleftrightarrow> a ! i \<le> x"
proof
  assume "a ! i \<le> x"
  then have "a ! k \<le> x" if "k < Suc i" for k
    using that sorted_nth_mono [OF assms(1), of k i] assms(2) by (auto intro: order_trans)
  then have "filter (\<lambda>y. y \<le> x) (take (Suc i) a) = take (Suc i) a"
    by (auto simp: filter_id_conv in_set_conv_nth)
  then have "Suc i \<le> length (filter (\<lambda>y. y \<le> x) (take (Suc i) a @ drop (Suc i) a))"
    using assms(2) by (simp only: filter_append length_append length_take)
  then show "i < rank a x" by (simp add: rank_def)
next
  assume less: "i < rank a x"
  show "a ! i \<le> x"
  proof (rule ccontr)
    assume "\<not> a ! i \<le> x"
    then have "x < a ! (i + k)" if "k < length a - i" for k
      using that sorted_nth_mono [OF assms(1), of i "i + k"]
      by (auto simp: not_le less_diff_conv add.commute intro: order_less_le_trans)
    then have "filter (\<lambda>y. y \<le> x) (drop i a) = []"
      by (auto simp: filter_empty_conv in_set_conv_nth not_le)
    then have "length (filter (\<lambda>y. y \<le> x) (take i a @ drop i a)) \<le> length (take i a)"
      by (simp only: filter_append append_Nil2 length_filter_le)
    with less assms(2) show False by (simp add: rank_def)
  qed
qed

text \<open>The Kolmogorov-Smirnov statistic: the largest distance of the two functions at a sample.\<close>

definition ks_distance :: "u64 list \<Rightarrow> u64 list \<Rightarrow> u64 \<Rightarrow> real" where
  "ks_distance a b x = \<bar>ecdf a x - ecdf b x\<bar>"

definition ks_statistic :: "u64 list \<Rightarrow> u64 list \<Rightarrow> real" where
  "ks_statistic a b = Max (insert 0 (ks_distance a b ` (set a \<union> set b)))"

lemma gap_rank: "gap a b (rank a x) (rank b x) = ks_distance a b x"
  by (simp add: gap_def ks_distance_def ecdf_def)

lemma ks_statistic_sort [simp]: "ks_statistic (sort a) (sort b) = ks_statistic a b"
  by (simp add: ks_statistic_def ks_distance_def)

lemma gap_le_1: "i \<le> length a \<Longrightarrow> j \<le> length b \<Longrightarrow> gap a b i j \<le> 1"
proof -
  assume "i \<le> length a" "j \<le> length b"
  then have "real i / real (length a) \<le> 1" "real j / real (length b) \<le> 1"
    by (simp_all add: divide_le_eq_1)
  moreover have "0 \<le> real i / real (length a)" "0 \<le> real j / real (length b)" by simp_all
  ultimately show "gap a b i j \<le> 1" unfolding gap_def by linarith
qed

subsection \<open>The loop against the specification\<close>

lemma ks_real_ge: "m \<le> ks_real a b ia ib m"
proof (induction a b ia ib m rule: ks_real.induct)
  case (1 a b ia ib m)
  show ?case
  proof (cases "ia < length a \<and> ib < length b")
    case True
    from "1.IH" [OF True refl refl] show ?thesis unfolding ks_real_step [OF True] by simp
  next
    case False
    then show ?thesis by (simp only: ks_real_stop [OF False] order_refl)
  qed
qed

lemma ks_real_le_1:
  "m \<le> 1 \<Longrightarrow> ks_real a b ia ib m \<le> 1"
proof (induction a b ia ib m rule: ks_real.induct)
  case (1 a b ia ib m)
  show ?case
  proof (cases "ia < length a \<and> ib < length b")
    case True
    have "gap a b (next_a a b ia ib) (next_b a b ia ib) \<le> 1" using True by (intro gap_le_1) auto
    with "1.IH" [OF True refl refl] "1.prems" show ?thesis unfolding ks_real_step [OF True] by simp
  next
    case False
    with "1.prems" show ?thesis by (simp only: ks_real_stop [OF False])
  qed
qed

text \<open>
  Never an underestimate, ties or not: a sample point whose pair of ranks is still ahead of the
  loop is visited, or the loop ends first, at a pair of ranks that lies at least as far apart.
\<close>

lemma gap_end_left:
  assumes "length a = ia" and "a \<noteq> []" and "ib \<le> j" and "j \<le> length b"
  shows "gap a b ia j \<le> gap a b ia ib"
proof -
  have "real ia / real (length a) = 1" unfolding assms(1) [symmetric] using assms(2) by simp
  moreover have "real ib / real (length b) \<le> real j / real (length b)"
    using assms by (simp add: divide_right_mono)
  moreover have "real j / real (length b) \<le> 1" using assms by (simp add: divide_le_eq_1)
  ultimately show ?thesis unfolding gap_def by linarith
qed

lemma gap_sym: "gap a b i j = gap b a j i"
  by (simp add: gap_def abs_minus_commute)

lemma ks_real_covers:
  assumes "sorted a" and "sorted b" and "a \<noteq> []" and "b \<noteq> []"
    and "ia \<le> rank a x" and "ib \<le> rank b x" and "gap a b ia ib \<le> m"
  shows "ks_distance a b x \<le> ks_real a b ia ib m"
  using assms
proof (induction a b ia ib m rule: ks_real.induct)
  case (1 a b ia ib m)
  note bounds = rank_le [of a x] rank_le [of b x]
  show ?case
  proof (cases "ia < length a \<and> ib < length b")
    case more: True
    show ?thesis
    proof (cases "next_a a b ia ib \<le> rank a x \<and> next_b a b ia ib \<le> rank b x")
      case True
      show ?thesis
        unfolding ks_real_step [OF more] using True "1.prems"
        by (intro "1.IH" [OF more refl refl]) simp_all
    next
      case False
      have "rank a x = ia \<and> rank b x = ib"
        using False more "1.prems"(5,6) rank_gt_iff [OF "1.prems"(1), of ia x]
          rank_gt_iff [OF "1.prems"(2), of ib x]
        by (auto split: if_splits)
      then have "ks_distance a b x \<le> m"
        using "1.prems"(7) by (simp flip: gap_rank)
      then show ?thesis using ks_real_ge order_trans by blast
    qed
  next
    case stop: False
    have "gap a b (rank a x) (rank b x) \<le> gap a b ia ib"
    proof (cases "ia < length a")
      case True
      with stop "1.prems"(6) bounds have "rank b x = ib" "length b = ib" by auto
      then show ?thesis
        using gap_end_left [of b ib ia "rank a x" a] "1.prems"(4,5) bounds by (simp add: gap_sym)
    next
      case False
      with "1.prems"(5) bounds have "rank a x = ia" "length a = ia" by auto
      then show ?thesis
        using gap_end_left [of a ia ib "rank b x" b] "1.prems"(3,6) bounds by simp
    qed
    with "1.prems"(7) have "ks_distance a b x \<le> m" by (simp add: gap_rank)
    then show ?thesis using ks_real_ge order_trans by blast
  qed
qed

text \<open>
  Without repeated values in an array, every pair of ranks the loop visits is the pair of ranks of
  a sample, so the result is no overestimate either. The invariant: what the loop has passed in one
  array is at most what it has in front of it in the other.
\<close>

definition passed :: "u64 list \<Rightarrow> u64 list \<Rightarrow> nat \<Rightarrow> nat \<Rightarrow> bool" where
  "passed a b ia ib \<longleftrightarrow> (\<forall>i < ia. \<forall>j. ib \<le> j \<longrightarrow> j < length b \<longrightarrow> a ! i \<le> b ! j)
     \<and> (\<forall>j < ib. \<forall>i. ia \<le> i \<longrightarrow> i < length a \<longrightarrow> b ! j \<le> a ! i)"

lemma passed_step:
  assumes "sorted a" and "sorted b" and "passed a b ia ib" and "ia < length a \<and> ib < length b"
  shows "passed a b (next_a a b ia ib) (next_b a b ia ib)"
proof -
  have A: "v \<le> a ! i" if "v \<le> a ! ia" "Suc ia \<le> i \<or> ia \<le> i" "i < length a" for i v
    using that sorted_nth_mono [OF assms(1), of ia i] by (auto intro: order_trans)
  have B: "v \<le> b ! j" if "v \<le> b ! ib" "Suc ib \<le> j \<or> ib \<le> j" "j < length b" for j v
    using that sorted_nth_mono [OF assms(2), of ib j] by (auto intro: order_trans)
  show ?thesis
    using assms(3) unfolding passed_def by (auto simp: less_Suc_eq intro: A B)
qed

lemma sorted_wrt_less_nth: "sorted_wrt (<) a \<Longrightarrow> i < j \<Longrightarrow> j < length a \<Longrightarrow> a ! i < a ! j"
  by (rule sorted_wrt_nth_less)

lemma rank_next:
  assumes "sorted_wrt (<) a" and "passed a b ia ib" and "ia < length a" and "ib < length b"
  shows "rank a (min (a ! ia) (b ! ib)) = next_a a b ia ib"
proof (rule rank_eqI)
  show "next_a a b ia ib \<le> length a" using assms(3) by simp
next
  fix i
  assume i: "i < next_a a b ia ib"
  then have "a ! i \<le> a ! ia"
    using sorted_wrt_less_nth [OF assms(1), of i ia] assms(3) by (cases "i = ia") (auto split: if_splits)
  moreover have "a ! i \<le> b ! ib"
    using i assms(2,4) by (cases "i < ia") (auto simp: passed_def less_Suc_eq split: if_splits)
  ultimately show "a ! i \<le> min (a ! ia) (b ! ib)" by simp
next
  fix i
  assume i: "next_a a b ia ib \<le> i" "i < length a"
  show "min (a ! ia) (b ! ib) < a ! i"
  proof (cases "ia = i")
    case True
    with i show ?thesis by (auto simp: min_def not_le split: if_splits)
  next
    case False
    with i have "a ! ia < a ! i" by (intro sorted_wrt_less_nth [OF assms(1)]) (auto split: if_splits)
    then show ?thesis by (simp add: min_less_iff_disj)
  qed
qed

lemma passed_sym: "passed a b ia ib \<Longrightarrow> passed b a ib ia"
  by (simp add: passed_def)

lemma gap_next:
  assumes "sorted_wrt (<) a" and "sorted_wrt (<) b" and "passed a b ia ib"
    and "ia < length a \<and> ib < length b"
  shows "gap a b (next_a a b ia ib) (next_b a b ia ib) \<le> ks_statistic a b"
proof -
  let ?x = "min (a ! ia) (b ! ib)"
  have "gap a b (next_a a b ia ib) (next_b a b ia ib) = ks_distance a b ?x"
    using rank_next [OF assms(1,3)] rank_next [OF assms(2) passed_sym [OF assms(3)]] assms(4)
    by (simp add: min.commute flip: gap_rank)
  moreover have "?x \<in> set a \<union> set b"
    using assms(4) by (simp add: min_def)
  ultimately show ?thesis
    by (simp add: ks_statistic_def)
qed

lemma ks_real_le_statistic:
  assumes "sorted_wrt (<) a" and "sorted_wrt (<) b" and "passed a b ia ib" and "m \<le> ks_statistic a b"
  shows "ks_real a b ia ib m \<le> ks_statistic a b"
  using assms
proof (induction a b ia ib m rule: ks_real.induct)
  case (1 a b ia ib m)
  show ?case
  proof (cases "ia < length a \<and> ib < length b")
    case True
    have "sorted a" "sorted b"
      using "1.prems"(1,2) by (simp_all add: strict_sorted_imp_sorted)
    then show ?thesis
      unfolding ks_real_step [OF True]
      using "1.prems" passed_step [OF _ _ "1.prems"(3) True] gap_next [OF "1.prems"(1-3) True]
      by (intro "1.IH" [OF True refl refl]) simp_all
  next
    case False
    with "1.prems" show ?thesis by (simp only: ks_real_stop [OF False])
  qed
qed

lemma ks_statistic_le_real:
  assumes "sorted a" and "sorted b" and "a \<noteq> []" and "b \<noteq> []"
  shows "ks_statistic a b \<le> ks_real a b 0 0 0"
  using ks_real_covers [OF assms, of 0 _ 0 0] ks_real_ge [of 0 a b 0 0]
  by (simp add: ks_statistic_def gap_def)

lemma ks_real_sym: "ks_real a b ia ib m = ks_real b a ib ia m"
proof (induction a b ia ib m rule: ks_real.induct)
  case (1 a b ia ib m)
  show ?case
  proof (cases "ia < length a \<and> ib < length b")
    case True
    then have True': "ib < length b \<and> ia < length a" by simp
    show ?thesis
      unfolding ks_real_step [OF True] ks_real_step [OF True'] "1.IH" [OF True refl refl]
      by (simp only: gap_sym [of a b])
  next
    case False
    then have False': "\<not> (ib < length b \<and> ia < length a)" by blast
    show ?thesis by (simp only: ks_real_stop [OF False] ks_real_stop [OF False'])
  qed
qed

lemma ks_real_same: "ks_real a a i i m = m" if "0 \<le> m"
  using that
proof (induction "length a - i" arbitrary: i)
  case 0
  then show ?case by (intro ks_real_stop) simp
next
  case (Suc n)
  then have "i < length a \<and> i < length a" by simp
  from ks_real_step [OF this, of m] Suc show ?case
    by (simp add: gap_def max_absorb1)
qed

lemma fst_ks: "fst (ks a b) = Fin (ks_real (qsort long_compare a) (qsort long_compare b) 0 0 0)"
  by (simp add: ks_def Let_def zero_dbl_def ks_loop_real)

lemma fst_ks_lts:
  "fst (ks_lts a b) = Fin (ks_real (map ls_nsec (qsort sample_cmp_latency a))
     (map ls_nsec (qsort sample_cmp_latency b)) 0 0 0)"
  by (simp add: ks_lts_def Let_def zero_dbl_def ks_loop_real)

lemma ks_real_sorted_bounds:
  assumes "a \<noteq> []" and "b \<noteq> []"
  shows "ks_statistic a b \<le> ks_real (sort a) (sort b) 0 0 0 \<and> ks_real (sort a) (sort b) 0 0 0 \<le> 1"
  using ks_statistic_le_real [of "sort a" "sort b"] ks_real_le_1 [of 0 "sort a" "sort b" 0 0] assms
  by (metis ks_statistic_sort length_0_conv length_sort sorted_sort zero_le_one)

lemma ks_real_sorted_exact:
  assumes "a \<noteq> []" and "b \<noteq> []" and "distinct a" and "distinct b"
  shows "ks_real (sort a) (sort b) 0 0 0 = ks_statistic a b"
proof (rule antisym)
  have strict: "sorted_wrt (<) (sort a)" "sorted_wrt (<) (sort b)"
    using assms(3,4) by (simp_all add: strict_sorted_iff)
  have "(0::real) \<le> ks_statistic (sort a) (sort b)"
    by (simp add: ks_statistic_def)
  from ks_real_le_statistic [OF strict _ this, of 0 0]
  show "ks_real (sort a) (sort b) 0 0 0 \<le> ks_statistic a b"
    by (simp add: passed_def)
qed (use ks_real_sorted_bounds [OF assms(1,2)] in simp)

subsection \<open>Convergence\<close>

definition ca :: dbl where "ca = Fin (1858 / 1000)"

text \<open>The result and the sample array, whose first \<open>n\<close> (the parameter \<open>size\<close>) elements are sorted and re-sorted in place.\<close>

definition compute_convergence :: "lat_sample list \<Rightarrow> nat \<Rightarrow> (u32 \<times> lat_sample list) c_result" where
  "compute_convergence samples n =
     (if length samples < n then Inl Undefined
      else
        let s1 = qsort sample_cmp_tx (take n samples) @ drop n samples;
            h = n div 2;
            (dnm, a, b) = ks_lts (take h s1) (take h (drop h s1));
            s2 = a @ b @ drop (2 * h) s1;
            size_d = dbl_of_nat h;
            val = ca * c_sqrt ((Fin 2 * size_d) / (size_d * size_d))
        in Inr (if dnm < val then 1 else 0, s2))"

lemma convergence_threshold:
  "ca * c_sqrt ((Fin 2 * dbl_of_nat h) / (dbl_of_nat h * dbl_of_nat h))
     = (if h = 0 then NaN else Fin (1.858 * sqrt (2 / real h)))"
  by (cases "h = 0") (simp_all add: ca_def inf_of_sign_def field_simps)

text \<open>The samples in the order of their transmit times, and the two halves that are compared.\<close>

definition by_tx_time :: "lat_sample list \<Rightarrow> nat \<Rightarrow> lat_sample list" where
  "by_tx_time samples n = qsort sample_cmp_tx (take n samples)"

definition early_half :: "lat_sample list \<Rightarrow> nat \<Rightarrow> u64 list" where
  "early_half samples n = map ls_nsec (take (n div 2) (by_tx_time samples n))"

definition late_half :: "lat_sample list \<Rightarrow> nat \<Rightarrow> u64 list" where
  "late_half samples n = map ls_nsec (take (n div 2) (drop (n div 2) (by_tx_time samples n)))"

lemma length_by_tx_time: "n \<le> length samples \<Longrightarrow> length (by_tx_time samples n) = n"
  by (simp add: by_tx_time_def)

lemma set_by_tx_time: "set (by_tx_time samples n) = set (take n samples)"
  by (simp add: by_tx_time_def)

lemma halves_close:
  assumes "close_values (map ls_nsec (take n samples))"
  shows "close_values (early_half samples n)" "close_values (late_half samples n)"
  using assms set_by_tx_time [of samples n] set_take_subset set_drop_subset
  by (fastforce intro: close_values_subset simp: early_half_def late_half_def)+

lemma compute_convergence_eq:
  assumes "n \<le> length samples"
  shows "\<exists>s2. compute_convergence samples n =
      Inr (if Fin (ks_real
               (map ls_nsec (qsort sample_cmp_latency (take (n div 2) (by_tx_time samples n))))
               (map ls_nsec (qsort sample_cmp_latency (take (n div 2) (drop (n div 2) (by_tx_time samples n)))))
               0 0 0)
             < (if n div 2 = 0 then NaN else Fin (1.858 * sqrt (2 / real (n div 2)))) then 1 else 0, s2)
    \<and> mset s2 = mset samples \<and> drop n s2 = drop n samples"
proof -
  let ?h = "n div 2" and ?xs = "by_tx_time samples n"
  let ?a = "qsort sample_cmp_latency (take ?h ?xs)" and ?b = "qsort sample_cmp_latency (take ?h (drop ?h ?xs))"
  let ?s2 = "?a @ ?b @ drop (2 * ?h) (?xs @ drop n samples)"
  have len: "length ?xs = n" by (rule length_by_tx_time [OF assms])
  have split: "take ?h ?xs @ take ?h (drop ?h ?xs) @ drop (2 * ?h) ?xs = ?xs"
    by (metis append_take_drop_id drop_drop mult_2)
  have "mset ?s2 = mset (take ?h ?xs @ take ?h (drop ?h ?xs) @ drop (2 * ?h) ?xs) + mset (drop n samples)"
    using len by (simp add: ac_simps)
  also have "\<dots> = mset (take n samples) + mset (drop n samples)"
    unfolding split by (simp add: by_tx_time_def)
  finally have perm: "mset ?s2 = mset samples"
    by (metis append_take_drop_id mset_append)
  have rest: "drop n ?s2 = drop n samples"
    using len by simp
  have "compute_convergence samples n = Inr (if fst (ks_lts (take ?h ?xs) (take ?h (drop ?h ?xs)))
      < (if ?h = 0 then NaN else Fin (1.858 * sqrt (2 / real ?h))) then 1 else 0, ?s2)"
    using assms len
    unfolding compute_convergence_def Let_def convergence_threshold
    by (simp add: ks_lts_def by_tx_time_def Let_def)
  with perm rest show ?thesis
    unfolding fst_ks_lts by blast
qed

subsection \<open>Properties\<close>

text \<open>
  C11. \<open>ks\<close> computes the Kolmogorov-Smirnov statistic: for non-empty arrays without repeated values
  that lie within \<open>2\<^sup>3\<^sup>1\<close> of each other, the largest distance of the two empirical distribution
  functions.
\<close>

theorem ks_exact:
  assumes "close_values a" and "close_values b" and "distinct a" and "distinct b"
    and "a \<noteq> []" and "b \<noteq> []"
  shows "fst (ks a b) = Fin (ks_statistic a b)"
  using assms by (simp add: fst_ks qsort_long ks_real_sorted_exact)

theorem ks_exact_witness:
  "fst (ks [1, 4, 7] [2, 4]) = Fin (ks_statistic [1, 4, 7] [2, 4])"
  by (rule ks_exact) (simp_all add: close_values_def)

text \<open>
  C33. With repeated values \<open>ks\<close> errs on the safe side only: it is at least the statistic, and at
  most 1; both arrays end up sorted.
\<close>

theorem ks_never_underestimates:
  assumes "close_values a" and "close_values b" and "a \<noteq> []" and "b \<noteq> []"
  shows "\<exists>r. ks a b = (Fin r, sort a, sort b) \<and> ks_statistic a b \<le> r \<and> r \<le> 1"
proof -
  have "snd (ks a b) = (sort a, sort b)"
    using assms by (simp add: ks_def Let_def qsort_long)
  moreover have "fst (ks a b) = Fin (ks_real (sort a) (sort b) 0 0 0)"
    using assms by (simp add: fst_ks qsort_long)
  ultimately show ?thesis
    using ks_real_sorted_bounds [OF assms(3,4)] by (metis prod.collapse)
qed

theorem ks_never_underestimates_witness:
  "\<exists>r. ks [5, 5, 1] [5, 9] = (Fin r, sort [5, 5, 1], sort [5, 9])
     \<and> ks_statistic [5, 5, 1] [5, 9] \<le> r \<and> r \<le> 1"
  by (rule ks_never_underestimates) (simp_all add: close_values_def)

text \<open>
  The statistic \<open>ks\<close> computes does not depend on the order of its arguments, and is 0 for an
  array and itself, for all contents.
\<close>

theorem ks_symmetric: "fst (ks a b) = fst (ks b a) \<and> fst (ks a a) = 0"
proof
  show "fst (ks a b) = fst (ks b a)"
    unfolding fst_ks by (subst ks_real_sym) (rule refl)
  show "fst (ks a a) = 0"
    by (simp add: fst_ks ks_real_same zero_dbl_def)
qed

text \<open>
  C25. \<open>compute_convergence\<close> is sound: it only permutes the samples, and when it answers 1, the
  latencies of the earlier and of the later half of the samples (by transmit time) have a
  Kolmogorov-Smirnov statistic below the critical value \<open>1.858 * sqrt(2 / h)\<close> for halves of \<open>h\<close>
  samples; with fewer than two samples it never answers 1.
\<close>

theorem convergence_sound:
  assumes "n \<le> length samples" and "close_values (map ls_nsec (take n samples))"
  shows "\<exists>r s2. compute_convergence samples n = Inr (r, s2) \<and> mset s2 = mset samples
    \<and> sorted (map ls_tx (by_tx_time samples n)) \<and> mset (by_tx_time samples n) = mset (take n samples)
    \<and> (r = 1 \<longrightarrow> 2 \<le> n \<and> ks_statistic (early_half samples n) (late_half samples n) < 1.858 * sqrt (2 / real (n div 2)))"
proof -
  let ?a = "early_half samples n" and ?b = "late_half samples n"
  let ?r = "if Fin (ks_real (sort ?a) (sort ?b) 0 0 0)
    < (if n div 2 = 0 then NaN else Fin (1.858 * sqrt (2 / real (n div 2)))) then 1 else (0 :: u32)"
  have halves: "map ls_nsec (qsort sample_cmp_latency (take (n div 2) (by_tx_time samples n))) = sort ?a"
    "map ls_nsec (qsort sample_cmp_latency (take (n div 2) (drop (n div 2) (by_tx_time samples n)))) = sort ?b"
    using halves_close [OF assms(2)] by (simp_all add: early_half_def late_half_def qsort_latency)
  from compute_convergence_eq [OF assms(1)] obtain s2 where
    run: "compute_convergence samples n = Inr (?r, s2)" and perm: "mset s2 = mset samples"
    unfolding halves by blast
  have "ks_statistic ?a ?b < 1.858 * sqrt (2 / real (n div 2))" and "2 \<le> n" if "?r = 1"
  proof -
    from that have h: "n div 2 \<noteq> 0" and less: "ks_real (sort ?a) (sort ?b) 0 0 0 < 1.858 * sqrt (2 / real (n div 2))"
      by (auto split: if_splits)
    then show "2 \<le> n" by simp
    have "?a \<noteq> []" "?b \<noteq> []"
      using h length_by_tx_time [OF assms(1)] by (auto simp: early_half_def late_half_def)
    from ks_real_sorted_bounds [OF this] less
    show "ks_statistic ?a ?b < 1.858 * sqrt (2 / real (n div 2))" by simp
  qed
  then show ?thesis
    using run perm sorted_qsort_tx by (intro exI [of _ ?r] exI [of _ s2]) (simp add: by_tx_time_def)
qed

theorem convergence_sound_witness:
  "\<exists>r s2. compute_convergence [\<lparr>ls_nsec = 5, ls_tx = Timespec 1 0\<rparr>, \<lparr>ls_nsec = 5, ls_tx = Timespec 2 0\<rparr>] 2
     = Inr (r, s2) \<and> mset s2 = mset [\<lparr>ls_nsec = 5, ls_tx = Timespec 1 0\<rparr>, \<lparr>ls_nsec = 5, ls_tx = Timespec 2 0\<rparr>]"
proof -
  let ?s = "[\<lparr>ls_nsec = 5, ls_tx = Timespec 1 0\<rparr>, \<lparr>ls_nsec = 5, ls_tx = Timespec 2 0\<rparr>]"
  have "2 \<le> length ?s" and "close_values (map ls_nsec (take 2 ?s))"
    by (simp_all add: close_values_def)
  from convergence_sound [OF this] show ?thesis by blast
qed

subsection \<open>Where the comparators are wrong\<close>

text \<open>The distance of two numbers, as the \<open>int\<close> of their difference keeps it.\<close>

definition gap_kept :: "u64 \<Rightarrow> u64 \<Rightarrow> nat" where
  "gap_kept x y = (unat y - unat x) mod 2 ^ 32"

definition comparable :: "u64 set \<Rightarrow> bool" where
  "comparable A \<longleftrightarrow> (\<forall>x\<in>A. \<forall>y\<in>A. x < y \<longrightarrow> 0 < gap_kept x y \<and> gap_kept x y < 2 ^ 31)"

lemma difference_pos:
  assumes "x < y"
  shows "0 < u64_to_c_int (y - x) \<longleftrightarrow> 0 < gap_kept x y \<and> gap_kept x y < 2 ^ 31"
    and "0 < u64_to_c_int (x - y) \<longleftrightarrow> 2 ^ 31 < gap_kept x y"
proof -
  let ?d = "unat y - unat x"
  have lt: "unat x < unat y" "unat y < 2 ^ 64" using assms unsigned_less [of y] by (simp_all add: word_less_nat_alt)
  then have d: "unat (y - x) = ?d" "unat (x - y) = 2 ^ 64 - ?d" by (simp_all add: unat_sub_if')
  show "0 < u64_to_c_int (y - x) \<longleftrightarrow> 0 < gap_kept x y \<and> gap_kept x y < 2 ^ 31"
    by (simp only: u64_to_c_int_pos d(1) gap_kept_def)
  have "0 < ?d" "?d < 2 ^ 64" using lt by simp_all
  then show "0 < u64_to_c_int (x - y) \<longleftrightarrow> 2 ^ 31 < gap_kept x y"
    using mod_complement [of ?d "2 ^ 32" "2 ^ 32"] mod_less_divisor [of "2 ^ 32" ?d]
    unfolding u64_to_c_int_pos d(2) gap_kept_def by (cases "?d mod 2 ^ 32 = 0") (simp_all, linarith?)
qed

lemma qsort_two: "qsort cmp [x, y] = (if 0 < cmp x y then [y, x] else [x, y])"
  by (simp add: qsort.simps)

text \<open>A comparator that subtracts keys sorts all arrays over a set of keys exactly if the set is comparable.\<close>

lemma difference_sorts:
  assumes "\<And>s t. cmp s t = u64_to_c_int (key s - key t)" and "\<And>x. key (mk x) = x"
  shows "(\<forall>ss. key ` set ss \<subseteq> A \<longrightarrow> sorted (map key (qsort cmp ss))) \<longleftrightarrow> comparable A"
proof
  assume all: "\<forall>ss. key ` set ss \<subseteq> A \<longrightarrow> sorted (map key (qsort cmp ss))"
  show "comparable A" unfolding comparable_def
  proof (intro ballI impI)
    fix x y assume "x \<in> A" "y \<in> A" "x < y"
    with all [rule_format, of "[mk y, mk x]"] show "0 < gap_kept x y \<and> gap_kept x y < 2 ^ 31"
      by (auto simp: qsort_two assms difference_pos split: if_splits)
  qed
next
  assume A: "comparable A"
  have "cmp s t \<le> 0 \<longleftrightarrow> key s \<le> key t" if "key s \<in> A" "key t \<in> A" for s t
  proof (cases "key s" "key t" rule: linorder_cases)
    case less
    with A that have "gap_kept (key s) (key t) < 2 ^ 31" by (simp add: comparable_def)
    with difference_pos(2) [OF less] less show ?thesis by (simp add: assms(1) not_less [symmetric])
  next
    case equal
    then show ?thesis by (simp add: assms(1) u64_to_c_int_def)
  next
    case greater
    with A that have "0 < gap_kept (key t) (key s) \<and> gap_kept (key t) (key s) < 2 ^ 31" by (simp add: comparable_def)
    with difference_pos(1) [OF greater] greater show ?thesis by (simp add: assms(1) not_less [symmetric])
  qed
  then show "\<forall>ss. key ` set ss \<subseteq> A \<longrightarrow> sorted (map key (qsort cmp ss))"
    by (auto intro!: qs.sorted_key simp: compares_key_on_def image_subset_iff)
qed

text \<open>
  C40. The comparators return a 64-bit difference as an \<open>int\<close>. So \<open>qsort\<close> puts every array over a set of
  times (or of samples with such times) in order exactly if no two of the times have a distance that is 0 or
  at least \<open>2\<^sup>3\<^sup>1\<close> modulo \<open>2\<^sup>3\<^sup>2\<close>; two times with a distance above \<open>2\<^sup>3\<^sup>1\<close> modulo \<open>2\<^sup>3\<^sup>2\<close> (2.1 s) are put
  in the wrong order even if they are in order.
\<close>

theorem long_compare_truncates:
  "((\<forall>xs. set xs \<subseteq> A \<longrightarrow> sorted (qsort long_compare xs)) \<longleftrightarrow> comparable A)
   \<and> ((\<forall>ss. ls_nsec ` set ss \<subseteq> A \<longrightarrow> sorted (map ls_nsec (qsort sample_cmp_latency ss))) \<longleftrightarrow> comparable A)
   \<and> (\<forall>x y. x < y \<longrightarrow> qsort long_compare [x, y] = (if 2 ^ 31 < gap_kept x y then [y, x] else [x, y]))"
  using difference_sorts [of long_compare "\<lambda>x. x" "\<lambda>x. x" A]
    difference_sorts [of sample_cmp_latency ls_nsec "\<lambda>x. zero_sample\<lparr>ls_nsec := x\<rparr>" A]
  by (auto simp: long_compare_def sample_cmp_latency_def qsort_two difference_pos)

theorem long_compare_truncates_witness:
  "(\<exists>xs. set xs \<subseteq> {0, 3000000000} \<and> \<not> sorted (qsort long_compare xs))
   \<and> qsort long_compare [0, 3000000000] = [3000000000, 0] \<and> sorted (qsort long_compare [5, 2, 8])"
proof -
  have "\<not> comparable {0, 3000000000}" "comparable {2, 5, 8}" "gap_kept 0 3000000000 = 3000000000"
    by (simp_all add: comparable_def gap_kept_def)
  then show ?thesis
    using long_compare_truncates [of "{0, 3000000000}"] long_compare_truncates [of "{2, 5, 8}"] by auto
qed

end
