(* ===== verification/Percentiles.thy ===== *)
theory Percentiles
  imports KS_Test
begin

text \<open>
  The latency report of \<open>stats.c\<close>: average, percentiles and their confidence intervals
  (\<open>get_ci_bounds\<close>, \<open>compute_latency_percentiles_ci\<close>, and the unused
  \<open>compute_latency_percentiles\<close>). A sample index is read from the whole array, as in the code: an
  index beyond the valid samples but inside the array reads whatever is there, one beyond the array
  is \<open>Undefined\<close>.
\<close>

subsection \<open>Definitions\<close>

definition heta :: dbl where "heta = Fin (196 / 100)"

record ci_idx =
  ci_i :: u32
  ci_k :: u32

definition get_ci_bounds :: "int \<Rightarrow> dbl \<Rightarrow> ci_idx c_result" where
  "get_ci_bounds n p =
     (let prod = dbl_of_int n * p;
          sq = heta * c_sqrt (prod * (Fin 1 - p))
      in c_bind (dbl_to_u32 (c_floor (prod - sq))) (\<lambda>i.
         c_bind (dbl_to_u32 (c_ceil (prod + sq))) (\<lambda>k.
         Inr \<lparr>ci_i = i, ci_k = k + 1\<rparr>)))"

text \<open>One percentile with its interval: \<open>samples[size * pct / 100]\<close> and the two bounds.\<close>

definition percentile_ci :: "lat_sample list \<Rightarrow> u32 \<Rightarrow> u32 \<Rightarrow> dbl \<Rightarrow> (u64 \<times> u64 \<times> u64) c_result" where
  "percentile_ci samples sz pct p =
     c_bind (c_read samples (unat (sz * pct div 100))) (\<lambda>s.
     c_bind (get_ci_bounds (int (unat sz)) p) (\<lambda>bounds.
     c_bind (c_read samples (unat (ci_i bounds))) (\<lambda>si.
     c_bind (c_read samples (unat (ci_k bounds))) (\<lambda>sk.
     Inr (ls_nsec si, ls_nsec s, ls_nsec sk)))))"

definition sort_samples :: "nat \<Rightarrow> lat_sample list \<Rightarrow> lat_sample list c_result" where
  "sort_samples n samples =
     (if length samples < n then Inl Undefined
      else Inr (qsort sample_cmp_latency (take n samples) @ drop n samples))"

definition compute_latency_percentiles_ci :: "latency_stats \<Rightarrow> latency_stats c_result" where
  "compute_latency_percentiles_ci lt =
     (let sz = lt_size lt in
      c_bind (sort_samples (unat sz) (lt_samples lt)) (\<lambda>smp.
      let sum = (\<Sum>s\<leftarrow>take (unat sz) smp. ls_nsec s) in
      c_bind (c_assert (0 < sz)) (\<lambda>_.
      c_bind (percentile_ci smp sz 50 (Fin (50 / 100))) (\<lambda>(i50, p50, k50).
      c_bind (percentile_ci smp sz 90 (Fin (90 / 100))) (\<lambda>(i90, p90, k90).
      c_bind (percentile_ci smp sz 95 (Fin (95 / 100))) (\<lambda>(i95, p95, k95).
      c_bind (percentile_ci smp sz 99 (Fin (99 / 100))) (\<lambda>(i99, p99, k99).
      Inr (lt\<lparr>lt_samples := smp, lt_avg_lat := sum div ucast sz,
        lt_p50_i := i50, lt_p50 := p50, lt_p50_k := k50,
        lt_p90_i := i90, lt_p90 := p90, lt_p90_k := k90,
        lt_p95_i := i95, lt_p95 := p95, lt_p95_k := k95,
        lt_p99_i := i99, lt_p99 := p99, lt_p99_k := k99\<rparr>))))))))"

text \<open>The older variant without intervals, which begins with \<open>assert(0)\<close>.\<close>

definition compute_latency_percentiles :: "latency_stats \<Rightarrow> latency_stats c_result" where
  "compute_latency_percentiles lt =
     (let sz = lt_size lt in
      c_bind (c_assert False) (\<lambda>_.
      c_bind (sort_samples (unat sz) (lt_samples lt)) (\<lambda>smp.
      c_bind (c_read smp (unat (sz * 50 div 100))) (\<lambda>s50.
      c_bind (c_read smp (unat (sz * 90 div 100))) (\<lambda>s90.
      c_bind (c_read smp (unat (sz * 95 div 100))) (\<lambda>s95.
      c_bind (c_read smp (unat (sz * 99 div 100))) (\<lambda>s99.
      Inr (lt\<lparr>lt_samples := smp, lt_p50 := ls_nsec s50, lt_p90 := ls_nsec s90,
              lt_p95 := ls_nsec s95, lt_p99 := ls_nsec s99\<rparr>))))))))"

subsection \<open>The interval's indices\<close>

definition half_width :: "real \<Rightarrow> real \<Rightarrow> real" where
  "half_width n p = 1.96 * sqrt (n * p * (1 - p))"

definition ci_low :: "real \<Rightarrow> real \<Rightarrow> int" where
  "ci_low n p = \<lfloor>n * p - half_width n p\<rfloor>"

definition ci_high :: "real \<Rightarrow> real \<Rightarrow> int" where
  "ci_high n p = \<lceil>n * p + half_width n p\<rceil> + 1"

lemma half_width_nonneg: "0 \<le> n \<Longrightarrow> 0 \<le> p \<Longrightarrow> p \<le> 1 \<Longrightarrow> 0 \<le> half_width n p"
  by (simp add: half_width_def)

lemma get_ci_bounds_eq:
  assumes "0 \<le> n" and "0 < p" and "p < 1" and "0 \<le> ci_low (real_of_int n) p"
    and "ci_high (real_of_int n) p < 2 ^ 32"
  shows "get_ci_bounds n (Fin p) =
    Inr \<lparr>ci_i = word_of_int (ci_low (real_of_int n) p), ci_k = word_of_int (ci_high (real_of_int n) p)\<rparr>"
proof -
  let ?w = "half_width (real_of_int n) p" and ?m = "real_of_int n * p"
  have "0 \<le> ?m * (1 - p)" "0 \<le> ?m" using assms by simp_all
  then have sq: "heta * c_sqrt (Fin ?m * (Fin 1 - Fin p)) = Fin ?w"
    by (simp add: heta_def half_width_def not_less)
  have "0 \<le> ?w" using assms by (intro half_width_nonneg) simp_all
  then have "0 \<le> \<lceil>?m + ?w\<rceil>" using \<open>0 \<le> ?m\<close> by simp
  moreover have "\<lfloor>?m - ?w\<rfloor> < 2 ^ 32"
    using assms(5) \<open>0 \<le> ?w\<close> unfolding ci_high_def by linarith
  ultimately show ?thesis
    using assms(4,5) sq by (simp add: get_ci_bounds_def Let_def ci_low_def ci_high_def)
qed

lemma half_width_leI: "0 \<le> y \<Longrightarrow> 3.8416 * (n * p * (1 - p)) \<le> y\<^sup>2 \<Longrightarrow> half_width n p \<le> y"
proof -
  assume "0 \<le> y" "3.8416 * (n * p * (1 - p)) \<le> y\<^sup>2"
  then have "sqrt (n * p * (1 - p)) \<le> y / 1.96"
    by (intro real_le_lsqrt) (simp_all add: power_divide)
  then show "half_width n p \<le> y" by (simp add: half_width_def)
qed

lemma half_width_lessI: "y\<^sup>2 < 3.8416 * (n * p * (1 - p)) \<Longrightarrow> y < half_width n p"
proof -
  assume "y\<^sup>2 < 3.8416 * (n * p * (1 - p))"
  then have "y / 1.96 < sqrt (n * p * (1 - p))"
    by (intro real_less_rsqrt) (simp add: power_divide)
  then show "y < half_width n p" by (simp add: half_width_def)
qed

lemma ci_low_nonneg:
  assumes "0 \<le> n" and "1 / 2 \<le> p" and "p \<le> 1" and "4 \<le> n"
  shows "0 \<le> ci_low n p"
proof -
  have "3.8416 * (1 - p) \<le> n * p"
    using mult_mono [of 4 n "1/2" p] assms by simp
  then have "3.8416 * (n * p * (1 - p)) \<le> (n * p)\<^sup>2"
    using mult_right_mono [of "3.8416 * (1 - p)" "n * p" "n * p"] assms
    by (simp add: power2_eq_square algebra_simps)
  then have "half_width n p \<le> n * p"
    using assms by (intro half_width_leI) simp_all
  then show ?thesis by (simp add: ci_low_def)
qed

lemma ci_high_less:
  assumes "726 \<le> n" and "p \<in> {50 / 100, 90 / 100, 95 / 100, 99 / 100}"
  shows "ci_high n p \<le> \<lceil>n\<rceil> - 1"
proof -
  have sq: "1452 * n - 527076 \<le> n\<^sup>2" using zero_le_power2 [of "n - 726"] by (simp add: power2_diff)
  have "half_width n (50 / 100) \<le> n * (1 - 50 / 100) - 2" "half_width n (90 / 100) \<le> n * (1 - 90 / 100) - 2"
    "half_width n (95 / 100) \<le> n * (1 - 95 / 100) - 2" "half_width n (99 / 100) \<le> n * (1 - 99 / 100) - 2"
    using assms(1) sq by (intro half_width_leI; simp add: power2_eq_square algebra_simps)+
  with assms(2) have "half_width n p \<le> n * (1 - p) - 2" by blast
  then have "n * p + half_width n p \<le> n - 2" by (simp add: algebra_simps)
  then have "\<lceil>n * p + half_width n p\<rceil> \<le> \<lceil>n - of_int 2\<rceil>" by (intro ceiling_mono) simp
  then show ?thesis by (simp add: ci_high_def)
qed

lemma ci_high_le_twice:
  assumes "4 \<le> n" and "1 / 2 \<le> p" and "p \<le> 1"
  shows "ci_high n p \<le> 2 * \<lceil>n\<rceil> + 2"
proof -
  have "n * p * (1 - p) \<le> n * (1 / 4)"
    using assms zero_le_power2 [of "p - 1 / 2"]
    by (simp only: mult.assoc) (intro mult_left_mono, simp_all add: power2_eq_square algebra_simps)
  also have "3.8416 * (n * (1 / 4)) \<le> n\<^sup>2"
    using assms mult_right_mono [of 4 n n] by (simp add: power2_eq_square)
  finally have "half_width n p \<le> n"
    using assms by (intro half_width_leI) simp_all
  moreover have "n * p \<le> n" using assms by (simp add: mult_left_le)
  ultimately have "\<lceil>n * p + half_width n p\<rceil> \<le> \<lceil>n + n\<rceil>" by (intro ceiling_mono) simp
  also have "\<dots> \<le> \<lceil>n\<rceil> + \<lceil>n\<rceil>" by (rule ceiling_add_le)
  finally show ?thesis by (simp add: ci_high_def)
qed

text \<open>Below 726 samples the upper index of the 99th percentile is outside the samples.\<close>

lemma ci_high_99_outside:
  fixes z :: int
  assumes "0 < z" and "z \<le> 725"
  shows "z \<le> ci_high (real_of_int z) (99 / 100)"
proof -
  define n where "n = real_of_int z"
  have "0 < n" "n \<le> 725" using assms by (simp_all add: n_def)
  have "n * (1 / 100) - 2 < half_width n (99 / 100)"
  proof (cases "n \<le> 200")
    case True
    then have "n * (1 / 100) - 2 \<le> 0" by simp
    also have "0 < half_width n (99 / 100)" using \<open>0 < n\<close> by (simp add: half_width_def)
    finally show ?thesis .
  next
    case False
    then have "(n - 200) * (n - 725) \<le> 0"
      using \<open>n \<le> 725\<close> by (intro mult_nonneg_nonpos) simp_all
    with \<open>n \<le> 725\<close> show ?thesis
      by (intro half_width_lessI) (simp add: power2_eq_square algebra_simps)
  qed
  then have "n - 2 < n * (99 / 100) + half_width n (99 / 100)" by simp
  then have "real_of_int (z - 2) < n * (99 / 100) + half_width n (99 / 100)" by (simp add: n_def)
  then have "z - 2 < \<lceil>n * (99 / 100) + half_width n (99 / 100)\<rceil>" by (simp only: less_ceiling_iff)
  then show ?thesis unfolding ci_high_def n_def by linarith
qed

text \<open>One to three samples: the lower bound of the median is negative.\<close>

lemma ci_low_negative:
  assumes "n \<in> {1, 2, 3}"
  shows "ci_low n (50 / 100) < 0"
proof -
  have "n * (50 / 100) < half_width n (50 / 100)"
    using assms by (intro half_width_lessI) (auto simp: power2_eq_square)
  then show ?thesis by (simp add: ci_low_def)
qed

lemma get_ci_bounds_undefined:
  assumes "n \<in> {1, 2, 3 :: nat}"
  shows "get_ci_bounds (int n) (Fin (50 / 100)) = Inl Undefined"
proof -
  have "ci_low (real n) (50 / 100) < 0" using assms by (intro ci_low_negative) auto
  moreover have "heta * c_sqrt (Fin (real n * (50 / 100)) * (Fin 1 - Fin (50 / 100)))
      = Fin (half_width (real n) (50 / 100))"
    by (simp add: heta_def half_width_def)
  ultimately show ?thesis
    by (simp add: get_ci_bounds_def Let_def ci_low_def)
qed

text \<open>One percentile, when its indices are inside.\<close>

abbreviation pct_index :: "u32 \<Rightarrow> nat \<Rightarrow> nat" where
  "pct_index sz pct \<equiv> unat sz * pct div 100"

lemma unat_pct:
  assumes "unat sz \<le> AGG_SAMPLE_SIZE" and "unat pct \<le> 100"
  shows "unat (sz * pct div 100) = pct_index sz (unat pct)"
proof -
  have "unat sz * unat pct \<le> 1048576 * 100"
    using assms by (intro mult_le_mono) (simp_all add: stats_sizes)
  then have "unat (sz * pct) = unat sz * unat pct"
    by (subst unat_mult_lem [THEN iffD1]) simp_all
  then show ?thesis by (simp add: unat_div)
qed

text \<open>
  The reported triple: the order statistic at \<open>n * pct / 100\<close> between the order statistics at the
  interval's two indices, all of them inside the sorted array.
\<close>

definition reports_percentile :: "u64 list \<Rightarrow> nat \<Rightarrow> u64 \<times> u64 \<times> u64 \<Rightarrow> bool" where
  "reports_percentile srt pct r =
     (let n = real (length srt); p = real pct / 100;
          i = nat (ci_low n p); x = length srt * pct div 100; k = nat (ci_high n p)
      in i \<le> x \<and> x < k \<and> k < length srt \<and> r = (srt ! i, srt ! x, srt ! k))"

lemma reports_percentile_order:
  "sorted srt \<Longrightarrow> reports_percentile srt pct (i, x, k) \<Longrightarrow> i \<le> x \<and> x \<le> k"
  by (auto simp: reports_percentile_def Let_def intro!: sorted_nth_mono)

lemma reports_percentile_mono:
  assumes "sorted srt" and "reports_percentile srt pct (i, x, k)" and "reports_percentile srt pct' (i', x', k')"
    and "pct \<le> pct'"
  shows "x \<le> x'"
proof -
  have "length srt * pct div 100 \<le> length srt * pct' div 100" using assms(4) by (intro div_le_mono) simp
  moreover have "length srt * pct' div 100 < length srt" "x = srt ! (length srt * pct div 100)"
    "x' = srt ! (length srt * pct' div 100)"
    using assms(2,3) by (simp_all add: reports_percentile_def Let_def)
  ultimately show ?thesis using sorted_nth_mono [OF assms(1)] by simp
qed

lemma ci_around_index:
  assumes "n = real m" and "p = real pct / 100" and "pct \<le> 100"
  shows "ci_low n p \<le> int (m * pct div 100)" and "int (m * pct div 100) + 1 \<le> ci_high n p"
proof -
  have w: "0 \<le> half_width n p" using assms by (intro half_width_nonneg) simp_all
  have idx: "\<lfloor>n * p\<rfloor> = int (m * pct div 100)"
    using floor_divide_of_nat_eq [of "m * pct" 100, where ?'a = real] unfolding assms(1,2) by simp
  show "ci_low n p \<le> int (m * pct div 100)"
    unfolding ci_low_def idx [symmetric] using w by (intro floor_mono) simp
  have "\<lfloor>n * p\<rfloor> \<le> \<lceil>n * p + half_width n p\<rceil>"
    using w by linarith
  then show "int (m * pct div 100) + 1 \<le> ci_high n p"
    unfolding ci_high_def idx by linarith
qed

lemma percentile_ci_reads:
  assumes m: "unat sz = m" and n: "4 \<le> m" "m \<le> AGG_SAMPLE_SIZE" "m \<le> length samples"
    and pct: "unat pct = c" "c \<in> {50, 90, 95, 99}" and p: "p = real c / 100"
    and high: "ci_high (real m) p < int (length samples)" "ci_high (real m) p < 2 ^ 32"
  shows "percentile_ci samples sz pct (Fin p) = Inr (ls_nsec (samples ! nat (ci_low (real m) p)),
    ls_nsec (samples ! (m * c div 100)), ls_nsec (samples ! nat (ci_high (real m) p)))"
    and "0 \<le> ci_low (real m) p" and "ci_low (real m) p \<le> int (m * c div 100)"
    and "int (m * c div 100) < ci_high (real m) p"
proof -
  let ?n = "real m"
  have "1 / 2 \<le> p" "p < 1" "c \<le> 100" using pct(2) p by auto
  show low: "0 \<le> ci_low ?n p" using n(1) \<open>1 / 2 \<le> p\<close> \<open>p < 1\<close> by (intro ci_low_nonneg) simp_all
  note mid = ci_around_index [OF refl p \<open>c \<le> 100\<close>, of m]
  from mid show "ci_low ?n p \<le> int (m * c div 100)" "int (m * c div 100) < ci_high ?n p" by linarith+
  have bounds: "get_ci_bounds (int m) (Fin p)
      = Inr \<lparr>ci_i = word_of_int (ci_low ?n p), ci_k = word_of_int (ci_high ?n p)\<rparr>"
    using get_ci_bounds_eq [of "int m" p] low high \<open>1 / 2 \<le> p\<close> \<open>p < 1\<close> by simp
  have "0 \<le> ci_high ?n p" "ci_low ?n p < 2 ^ 32" using low high mid by linarith+
  then have idx: "unat (word_of_int (ci_low ?n p) :: u32) = nat (ci_low ?n p)"
    "unat (word_of_int (ci_high ?n p) :: u32) = nat (ci_high ?n p)"
    using low high by (simp_all add: unat_word_of_int_u32)
  have inside: "nat (ci_low ?n p) < length samples" "nat (ci_high ?n p) < length samples" "m * c div 100 < length samples"
    using low high mid by linarith+
  show "percentile_ci samples sz pct (Fin p) = Inr (ls_nsec (samples ! nat (ci_low ?n p)),
      ls_nsec (samples ! (m * c div 100)), ls_nsec (samples ! nat (ci_high ?n p)))"
    using inside bounds idx unat_pct [of sz pct] m pct(1) \<open>c \<le> 100\<close> n(2)
    by (simp add: percentile_ci_def)
qed

lemma percentile_ci_ok:
  assumes m: "unat sz = m" and n: "726 \<le> m" "m \<le> AGG_SAMPLE_SIZE" "m \<le> length samples"
    and pct: "unat pct = c" "c \<in> {50, 90, 95, 99}" and p: "p = real c / 100"
  shows "\<exists>r. percentile_ci samples sz pct (Fin p) = Inr r
    \<and> reports_percentile (map ls_nsec (take m samples)) c r"
proof -
  have "p \<in> (\<lambda>k. real k / 100) ` {50, 90, 95, 99}" using pct(2) p by (intro image_eqI)
  then have "p \<in> {50 / 100, 90 / 100, 95 / 100, 99 / 100}" by simp
  from ci_high_less [OF _ this, of "real m"] have high: "ci_high (real m) p \<le> int m - 1"
    using n(1) by simp
  then have "ci_high (real m) p < int (length samples)" "ci_high (real m) p < 2 ^ 32"
    using n by (simp_all add: stats_sizes)
  note reads = percentile_ci_reads [OF m _ n(2,3) pct p this]
  have "nat (ci_low (real m) p) \<le> m * c div 100" "m * c div 100 < nat (ci_high (real m) p)"
    "nat (ci_high (real m) p) < m"
    using reads(2-4) high n(1) by linarith+
  then show ?thesis
    using n(1,3) reads(1) by (simp add: reports_percentile_def Let_def min_absorb2 p [symmetric])
qed

lemma sorted_nsec_prefix:
  assumes "close_values (map ls_nsec (take n samples))" and "n \<le> length samples"
  shows "\<exists>smp. sort_samples n samples = Inr smp \<and> mset smp = mset samples
    \<and> map ls_nsec (take n smp) = sort (map ls_nsec (take n samples)) \<and> drop n smp = drop n samples"
proof (intro exI conjI)
  show "sort_samples n samples = Inr (qsort sample_cmp_latency (take n samples) @ drop n samples)"
    using assms(2) by (simp add: sort_samples_def)
  show "mset (qsort sample_cmp_latency (take n samples) @ drop n samples) = mset samples"
    unfolding mset_append qs.mset_sort_by by (simp flip: mset_append)
  show "map ls_nsec (take n (qsort sample_cmp_latency (take n samples) @ drop n samples))
      = sort (map ls_nsec (take n samples))"
    using assms(2) qsort_latency [OF assms(1)] by (simp add: min_absorb2)
  show "drop n (qsort sample_cmp_latency (take n samples) @ drop n samples) = drop n samples"
    using assms(2) by (simp add: min_absorb2)
qed

text \<open>The fields of the report: four percentiles, in order, and the average.\<close>

definition reports_latencies :: "u64 list \<Rightarrow> latency_stats \<Rightarrow> bool" where
  "reports_latencies srt r \<longleftrightarrow>
     reports_percentile srt 50 (lt_p50_i r, lt_p50 r, lt_p50_k r)
   \<and> reports_percentile srt 90 (lt_p90_i r, lt_p90 r, lt_p90_k r)
   \<and> reports_percentile srt 95 (lt_p95_i r, lt_p95 r, lt_p95_k r)
   \<and> reports_percentile srt 99 (lt_p99_i r, lt_p99 r, lt_p99_k r)
   \<and> lt_p50 r \<le> lt_p90 r \<and> lt_p90 r \<le> lt_p95 r \<and> lt_p95 r \<le> lt_p99 r
   \<and> lt_avg_lat r = (\<Sum>x\<leftarrow>srt. x) div word_of_nat (length srt)"

lemma word_of_length: "length srt = unat (w :: u32) \<Longrightarrow> (word_of_nat (length srt) :: u64) = ucast w"
  by simp

lemma percentiles_ci_correct:
  assumes "726 \<le> unat (lt_size lt)" and "unat (lt_size lt) \<le> AGG_SAMPLE_SIZE"
    and "unat (lt_size lt) \<le> length (lt_samples lt)"
    and "close_values (map ls_nsec (take (unat (lt_size lt)) (lt_samples lt)))"
  defines "srt \<equiv> sort (map ls_nsec (take (unat (lt_size lt)) (lt_samples lt)))"
  shows "\<exists>r. compute_latency_percentiles_ci lt = Inr r \<and> mset (lt_samples r) = mset (lt_samples lt)
    \<and> map ls_nsec (take (unat (lt_size lt)) (lt_samples r)) = srt
    \<and> reports_latencies srt r
    \<and> lt_th r = lt_th lt \<and> lt_size r = lt_size lt"
proof -
  let ?n = "unat (lt_size lt)"
  obtain smp where sort: "sort_samples ?n (lt_samples lt) = Inr smp" and perm: "mset smp = mset (lt_samples lt)"
    and srt: "map ls_nsec (take ?n smp) = srt"
    using sorted_nsec_prefix [OF assms(4,3)] unfolding srt_def by blast
  have len: "?n \<le> length smp" using assms(3) perm by (metis size_mset)
  note pct = percentile_ci_ok [OF refl assms(1,2) len refl, unfolded srt]
  obtain i50 p50 k50 where r50: "percentile_ci smp (lt_size lt) 50 (Fin (50 / 100)) = Inr (i50, p50, k50)"
    "reports_percentile srt 50 (i50, p50, k50)" using pct [of 50 "50 / 100"] by auto
  obtain i90 p90 k90 where r90: "percentile_ci smp (lt_size lt) 90 (Fin (90 / 100)) = Inr (i90, p90, k90)"
    "reports_percentile srt 90 (i90, p90, k90)" using pct [of 90 "90 / 100"] by auto
  obtain i95 p95 k95 where r95: "percentile_ci smp (lt_size lt) 95 (Fin (95 / 100)) = Inr (i95, p95, k95)"
    "reports_percentile srt 95 (i95, p95, k95)" using pct [of 95 "95 / 100"] by auto
  obtain i99 p99 k99 where r99: "percentile_ci smp (lt_size lt) 99 (Fin (99 / 100)) = Inr (i99, p99, k99)"
    "reports_percentile srt 99 (i99, p99, k99)" using pct [of 99 "99 / 100"] by auto
  have "0 < lt_size lt" using assms(1) by (simp add: word_less_nat_alt)
  moreover have "(\<Sum>s\<leftarrow>take ?n smp. ls_nsec s) = (\<Sum>x\<leftarrow>srt. x)" by (simp flip: srt add: comp_def)
  moreover define r where "r = lt\<lparr>lt_samples := smp, lt_avg_lat := (\<Sum>x\<leftarrow>srt. x) div ucast (lt_size lt),
      lt_p50_i := i50, lt_p50 := p50, lt_p50_k := k50, lt_p90_i := i90, lt_p90 := p90, lt_p90_k := k90,
      lt_p95_i := i95, lt_p95 := p95, lt_p95_k := k95, lt_p99_i := i99, lt_p99 := p99, lt_p99_k := k99\<rparr>"
  ultimately have run: "compute_latency_percentiles_ci lt = Inr r"
    unfolding compute_latency_percentiles_ci_def Let_def
    by (simp only: sort c_bind_Inr c_assert_True r50(1) r90(1) r95(1) r99(1) prod.case)
  have "sorted srt" by (simp add: srt_def)
  then have "p50 \<le> p90" "p90 \<le> p95" "p95 \<le> p99"
    using reports_percentile_mono [OF _ r50(2) r90(2)] reports_percentile_mono [OF _ r90(2) r95(2)]
      reports_percentile_mono [OF _ r95(2) r99(2)] by simp_all
  moreover have "length srt = ?n" using assms(3) by (simp add: srt_def)
  ultimately show ?thesis
    using run perm srt r50(2) r90(2) r95(2) r99(2)
    by (intro exI [of _ r] conjI) (simp_all add: r_def reports_latencies_def word_of_length)
qed

subsection \<open>Properties\<close>

text \<open>
  C12. From 726 samples on, the latency report is right: the array is only sorted; the four
  percentiles are the order statistics at \<open>n * pct / 100\<close>, each between its confidence bounds, which
  are order statistics of valid samples; the percentiles are in order; the average is the sum of
  the samples divided by their number.
\<close>

theorem percentiles_report:
  assumes "726 \<le> unat (lt_size lt)" and "unat (lt_size lt) \<le> AGG_SAMPLE_SIZE"
    and "unat (lt_size lt) \<le> length (lt_samples lt)"
    and "close_values (map ls_nsec (take (unat (lt_size lt)) (lt_samples lt)))"
  defines "srt \<equiv> sort (map ls_nsec (take (unat (lt_size lt)) (lt_samples lt)))"
  shows "\<exists>r. compute_latency_percentiles_ci lt = Inr r \<and> mset (lt_samples r) = mset (lt_samples lt)
    \<and> map ls_nsec (take (unat (lt_size lt)) (lt_samples r)) = srt
    \<and> reports_percentile srt 50 (lt_p50_i r, lt_p50 r, lt_p50_k r)
    \<and> reports_percentile srt 90 (lt_p90_i r, lt_p90 r, lt_p90_k r)
    \<and> reports_percentile srt 95 (lt_p95_i r, lt_p95 r, lt_p95_k r)
    \<and> reports_percentile srt 99 (lt_p99_i r, lt_p99 r, lt_p99_k r)
    \<and> lt_p50 r \<le> lt_p90 r \<and> lt_p90 r \<le> lt_p95 r \<and> lt_p95 r \<le> lt_p99 r
    \<and> lt_avg_lat r = (\<Sum>x\<leftarrow>srt. x) div ucast (lt_size lt)
    \<and> lt_th r = lt_th lt \<and> lt_size r = lt_size lt"
  using percentiles_ci_correct [OF assms(1-4)] assms(3)
  unfolding srt_def reports_latencies_def by (auto simp: word_of_length)

theorem percentiles_report_witness:
  "\<exists>r. compute_latency_percentiles_ci ((zero_lat (replicate 800 zero_sample))\<lparr>lt_size := 800\<rparr>) = Inr r
     \<and> lt_p50_i r \<le> lt_p50 r \<and> lt_p99 r \<le> lt_p99_k r"
proof -
  let ?lt = "(zero_lat (replicate 800 zero_sample))\<lparr>lt_size := 800\<rparr>"
  have "close_values (map ls_nsec (take (unat (lt_size ?lt)) (lt_samples ?lt)))"
    by (simp add: close_values_def zero_lat_def)
  moreover have "726 \<le> unat (lt_size ?lt)" "unat (lt_size ?lt) \<le> AGG_SAMPLE_SIZE"
    "unat (lt_size ?lt) \<le> length (lt_samples ?lt)" by (simp_all add: zero_lat_def stats_sizes)
  ultimately show ?thesis
    using percentiles_report [of ?lt] reports_percentile_order [OF sorted_sort] by meson
qed

text \<open>A small number of valid samples in the aggregate buffer: every access stays in the buffer.\<close>

lemma small_percentiles:
  assumes "4 \<le> n" and "n \<le> 725" and "length smp = AGG_SAMPLE_SIZE"
  shows "\<exists>r50 r90 r95 r99. percentile_ci smp (word_of_nat n) 50 (Fin (50 / 100)) = Inr r50
    \<and> percentile_ci smp (word_of_nat n) 90 (Fin (90 / 100)) = Inr r90 \<and> percentile_ci smp (word_of_nat n) 95 (Fin (95 / 100)) = Inr r95
    \<and> percentile_ci smp (word_of_nat n) 99 (Fin (99 / 100)) = Inr r99
    \<and> fst (snd r99) = ls_nsec (smp ! (n * 99 div 100)) \<and> snd (snd r99) = ls_nsec (smp ! nat (ci_high (real n) (99 / 100)))"
proof -
  have n: "unat (word_of_nat n :: u32) = n" using assms(2) by (simp add: unat_of_nat_u32)
  have agg: "n \<le> AGG_SAMPLE_SIZE" using assms(2) by (simp add: stats_sizes)
  have reads: "\<exists>r. percentile_ci smp (word_of_nat n) pct (Fin p) = Inr r \<and>
      fst (snd r) = ls_nsec (smp ! (n * c div 100)) \<and> snd (snd r) = ls_nsec (smp ! nat (ci_high (real n) p))"
    if "unat pct = c" "c \<in> {50, 90, 95, 99}" "p = real c / 100" for pct c p
  proof -
    have "1 / 2 \<le> p" "p \<le> 1" using that(2,3) by auto
    from ci_high_le_twice [OF _ this, of "real n"] have "ci_high (real n) p \<le> 2 * int n + 2"
      using assms(1) by simp
    with assms(2) assms(3) show ?thesis
      using percentile_ci_reads(1) [OF n assms(1) agg _ that] agg by (simp add: stats_sizes)
  qed
  show ?thesis
    using reads [of 50 50 "50 / 100"] reads [of 90 90 "90 / 100"] reads [of 95 95 "95 / 100"] reads [of 99 99 "99 / 100"] by auto
qed

text \<open>
  C38. Below 726 samples the upper confidence bound of the 99th percentile is not a sample: its index
  is at or beyond the number of valid samples, and in the aggregate buffer, which is zeroed first,
  the report shows 0 although the percentile itself is not larger than the largest sample.
\<close>

theorem p99_bound_outside_samples:
  assumes "4 \<le> n" and "n \<le> 725" and "length valid = n" and "close_values (map ls_nsec valid)"
  shows "\<exists>r. compute_latency_percentiles_ci ((zero_lat (valid @ replicate (AGG_SAMPLE_SIZE - n) zero_sample))
        \<lparr>lt_size := word_of_nat n\<rparr>) = Inr r
    \<and> lt_p99 r = sort (map ls_nsec valid) ! (n * 99 div 100) \<and> lt_p99_k r = 0"
proof -
  let ?zeros = "replicate (AGG_SAMPLE_SIZE - n) zero_sample"
  let ?lt = "(zero_lat (valid @ ?zeros))\<lparr>lt_size := word_of_nat n\<rparr>"
  have n: "unat (word_of_nat n :: u32) = n" using assms(2) by (simp add: unat_of_nat_u32)
  have take: "take n (valid @ ?zeros) = valid" "drop n (valid @ ?zeros) = ?zeros" using assms(3) by simp_all
  have agg: "n \<le> AGG_SAMPLE_SIZE" "n \<le> length (valid @ ?zeros)" using assms(2,3) by (simp_all add: stats_sizes)
  from sorted_nsec_prefix [of n "valid @ ?zeros", unfolded take, OF assms(4) agg(2)] obtain smp where
    sort: "sort_samples n (valid @ ?zeros) = Inr smp" and perm: "mset smp = mset (valid @ ?zeros)"
    and srt: "map ls_nsec (take n smp) = sort (map ls_nsec valid)" and rest: "drop n smp = ?zeros"
    by blast
  have len: "length smp = AGG_SAMPLE_SIZE" using mset_eq_length [OF perm] assms(3) agg(1) by simp
  obtain r50 r90 r95 r99 where percentiles: "percentile_ci smp (word_of_nat n) 50 (Fin (50 / 100)) = Inr r50"
    "percentile_ci smp (word_of_nat n) 90 (Fin (90 / 100)) = Inr r90" "percentile_ci smp (word_of_nat n) 95 (Fin (95 / 100)) = Inr r95"
    "percentile_ci smp (word_of_nat n) 99 (Fin (99 / 100)) = Inr r99"
    and p99: "fst (snd r99) = ls_nsec (smp ! (n * 99 div 100))" "snd (snd r99) = ls_nsec (smp ! nat (ci_high (real n) (99 / 100)))"
    using small_percentiles [OF assms(1,2) len] by blast
  let ?k = "nat (ci_high (real n) (99 / 100))"
  have "n \<le> ?k" "?k < AGG_SAMPLE_SIZE"
    using ci_high_99_outside [of "int n"] ci_high_le_twice [of "real n" "99 / 100"] assms(1,2)
    by (simp_all add: stats_sizes)
  then have "smp ! ?k = zero_sample"
    using rest len nth_drop [of n smp "?k - n"] by simp
  moreover have "smp ! (n * 99 div 100) = take n smp ! (n * 99 div 100)" using assms(1) by simp
  then have "ls_nsec (smp ! (n * 99 div 100)) = sort (map ls_nsec valid) ! (n * 99 div 100)"
    using assms(1) len agg(1) unfolding srt [symmetric] by simp
  moreover have "0 < (word_of_nat n :: u32)" using assms(1) n by (simp add: word_gt_0 unat_eq_0 [symmetric])
  ultimately show ?thesis
    using percentiles p99 sort n
    by (cases r50; cases r90; cases r95; cases r99)
      (simp add: compute_latency_percentiles_ci_def Let_def zero_lat_def zero_sample_def)
qed

theorem p99_bound_outside_samples_witness:
  "\<exists>r. compute_latency_percentiles_ci ((zero_lat (replicate 4 (zero_sample\<lparr>ls_nsec := 7\<rparr>)
        @ replicate (AGG_SAMPLE_SIZE - 4) zero_sample))\<lparr>lt_size := word_of_nat 4\<rparr>) = Inr r
     \<and> lt_p99 r = 7 \<and> lt_p99_k r = 0"
proof -
  let ?valid = "replicate 4 (zero_sample\<lparr>ls_nsec := 7\<rparr>)"
  have close: "close_values (map ls_nsec ?valid)" by (simp add: close_values_def)
  have seven: "sort (map ls_nsec ?valid) ! (4 * 99 div 100) = 7" by (simp add: sorted_sort_id)
  have "(4::nat) \<le> 4" "(4::nat) \<le> 725" "length ?valid = 4" by simp_all
  from p99_bound_outside_samples [OF this close, unfolded seven] show ?thesis .
qed

text \<open>
  C39. The report stops the agent when there are too few samples: no sample fails the assertion, one
  to three samples make the median's lower index a negative number converted to \<open>uint32_t\<close>.
\<close>

theorem report_needs_four_samples:
  assumes "lt_size lt = word_of_nat n" and "n \<le> 3" and "3 \<le> length (lt_samples lt)"
  shows "compute_latency_percentiles_ci lt = Inl (if n = 0 then Assertion_Failed else Undefined)
    \<and> compute_latency_percentiles lt = Inl Assertion_Failed"
proof (intro conjI)
  have n: "unat (word_of_nat n :: u32) = n" using assms(2) by (simp add: unat_of_nat_u32)
  obtain smp where sort: "sort_samples n (lt_samples lt) = Inr smp" and len: "length smp = length (lt_samples lt)"
    using assms(2,3) by (auto simp: sort_samples_def)
  show "compute_latency_percentiles_ci lt = Inl (if n = 0 then Assertion_Failed else Undefined)"
  proof (cases "n = 0")
    case True
    then show ?thesis using assms(1) sort by (simp add: compute_latency_percentiles_ci_def Let_def)
  next
    case False
    then have "n \<in> {1, 2, 3}" using assms(2) by auto
    have "0 < (word_of_nat n :: u32)" using False n by (simp add: word_gt_0 unat_eq_0 [symmetric])
    moreover have "percentile_ci smp (word_of_nat n) 50 (Fin (50 / 100)) = Inl Undefined"
      using get_ci_bounds_undefined [OF \<open>n \<in> {1, 2, 3}\<close>] unat_pct [of "word_of_nat n" 50] n assms(2,3) len
      by (simp add: percentile_ci_def stats_sizes)
    ultimately show ?thesis
      using assms(1) sort n False by (simp add: compute_latency_percentiles_ci_def Let_def)
  qed
  show "compute_latency_percentiles lt = Inl Assertion_Failed"
    by (simp add: compute_latency_percentiles_def Let_def)
qed

theorem report_needs_four_samples_witness:
  "compute_latency_percentiles_ci ((zero_lat (replicate 5 zero_sample))\<lparr>lt_size := 2\<rparr>) = Inl Undefined"
  using report_needs_four_samples [of "(zero_lat (replicate 5 zero_sample))\<lparr>lt_size := 2\<rparr>" 2]
  by (simp add: zero_lat_def)

end
