(* ===== verification/Fifo.thy ===== *)
theory Fifo
  imports Prelude
begin

text \<open>
  The interface of a bounded first-in first-out queue. The transport's main loop is its client: it
  enqueues a transmit timestamp per request and dequeues one per response. \<open>room\<close> is when the
  provider can take one more element without losing one. The client's fact is proved here once:
  over any sequence of operations, what was taken out is a prefix of what was put in, in order.
\<close>

datatype 'a fifo_op = Enq 'a | Deq

fun put_in :: "'a fifo_op list \<Rightarrow> 'a list" where
  "put_in [] = []"
| "put_in (Enq x # ps) = x # put_in ps"
| "put_in (Deq # ps) = put_in ps"

locale fifo =
  fixes enq :: "'a \<Rightarrow> 'q \<Rightarrow> 'q"
    and deq :: "'q \<Rightarrow> 'a option \<times> 'q"
    and content :: "'q \<Rightarrow> 'a list"
    and inv :: "'q \<Rightarrow> bool"
    and room :: "'q \<Rightarrow> bool"
  assumes inv_enq: "inv q \<Longrightarrow> room q \<Longrightarrow> inv (enq x q)"
    and content_enq: "inv q \<Longrightarrow> room q \<Longrightarrow> content (enq x q) = content q @ [x]"
    and deq_Nil: "inv q \<Longrightarrow> content q = [] \<Longrightarrow> deq q = (None, q)"
    and deq_Cons: "inv q \<Longrightarrow> content q = x # xs \<Longrightarrow> fst (deq q) = Some x \<and> content (snd (deq q)) = xs"
    and inv_deq: "inv q \<Longrightarrow> inv (snd (deq q))"
begin

fun step :: "'a fifo_op \<Rightarrow> 'q \<times> 'a list \<Rightarrow> 'q \<times> 'a list" where
  "step (Enq x) (q, out) = (enq x q, out)"
| "step Deq (q, out) =
     (case deq q of (None, q') \<Rightarrow> (q', out) | (Some x, q') \<Rightarrow> (q', out @ [x]))"

fun runs_in_room :: "'a fifo_op list \<Rightarrow> 'q \<times> 'a list \<Rightarrow> bool" where
  "runs_in_room [] s = True"
| "runs_in_room (p # ps) s =
     ((case p of Enq x \<Rightarrow> room (fst s) | Deq \<Rightarrow> True) \<and> runs_in_room ps (step p s))"

lemma step_inv:
  "inv q \<Longrightarrow> (case p of Enq x \<Rightarrow> room q | Deq \<Rightarrow> True) \<Longrightarrow> inv (fst (step p (q, out)))"
  using inv_deq [of q] by (cases p) (auto simp: inv_enq split: option.splits prod.splits)

lemma step_order:
  assumes "inv q" and "case p of Enq x \<Rightarrow> room q | Deq \<Rightarrow> True"
  shows "snd (step p (q, out)) @ content (fst (step p (q, out))) = out @ content q @ put_in [p]"
proof (cases p)
  case (Enq x)
  with assms show ?thesis by (simp add: content_enq)
next
  case Deq
  show ?thesis
  proof (cases "content q")
    case Nil
    with Deq assms show ?thesis by (simp add: deq_Nil)
  next
    case (Cons y ys)
    with deq_Cons [OF assms(1)] Deq show ?thesis
      by (auto split: option.splits prod.splits)
  qed
qed

theorem in_order:
  assumes "inv q" and "runs_in_room ps (q, out)"
  shows "snd (fold step ps (q, out)) @ content (fst (fold step ps (q, out)))
       = out @ content q @ put_in ps"
  using assms
proof (induction ps arbitrary: q out)
  case (Cons p ps)
  obtain q' out' where s: "step p (q, out) = (q', out')" by fastforce
  from Cons.prems have ok: "case p of Enq x \<Rightarrow> room q | Deq \<Rightarrow> True" by (cases p) simp_all
  from step_inv [OF Cons.prems(1) ok, of out] s have "inv q'" by simp
  then have "snd (fold step ps (q', out')) @ content (fst (fold step ps (q', out')))
      = out' @ content q' @ put_in ps"
    using Cons.prems(2) s by (intro Cons.IH) simp_all
  moreover have "put_in (p # ps) = put_in [p] @ put_in ps"
    by (cases p) simp_all
  ultimately show ?case
    using step_order [OF Cons.prems(1) ok, of out] s by simp
qed simp

end

end
