(* ===== verification/Timestamping.thy ===== *)
theory Timestamping
  imports Stats_Record Fifo
begin

text \<open>
  \<open>timestamping.c\<close>: matching requests with the times they left the host. Every connection has a ring
  \<open>pending_tx\<close> of 16 slots and three counters that only grow: \<open>head\<close> counts the requests sent,
  \<open>tail\<close> those whose timestamp has been received, \<open>consumed\<close> those whose response has been received.
  With NIC timestamps \<open>add_pending_tx_timestamp\<close> records the stream offset of a request and
  \<open>get_tx_timestamp\<close> fills in the time when the kernel reports it, once for all requests the NIC sent
  together; with user-space timestamps \<open>push_complete_tx_timestamp\<close> does both at once.
\<close>

subsection \<open>Data\<close>

definition MAX_PENDING_REQS :: nat where "MAX_PENDING_REQS = 16"

record timestamp_info =
  ti_time :: timespec
  ti_optid :: u32

record pending_tx =
  tx_byte_counter :: u32
  pq_head :: u32
  pq_tail :: u32
  pq_consumed :: u32
  pq_pending :: "timestamp_info list"

definition slot :: "u32 \<Rightarrow> nat" where
  "slot w = unat w mod MAX_PENDING_REQS"

lemma slot_lt [simp]: "slot w < MAX_PENDING_REQS"
  by (simp add: slot_def MAX_PENDING_REQS_def)

text \<open>\<open>calloc\<close> in \<open>throughput_open_connections\<close> zeroes every connection's ring.\<close>

definition zero_info :: timestamp_info where
  "zero_info = \<lparr>ti_time = zero_timespec, ti_optid = 0\<rparr>"

definition zero_pending :: pending_tx where
  "zero_pending = \<lparr>tx_byte_counter = 0, pq_head = 0, pq_tail = 0, pq_consumed = 0,
     pq_pending = replicate MAX_PENDING_REQS zero_info\<rparr>"

subsection \<open>Control messages\<close>

text \<open>
  What \<open>recvmsg\<close> puts in the control buffer, told apart by \<open>cmsg_type\<close>: a timestamp message with
  three times, of which the third is the hardware's; an extended error; anything else.
\<close>

datatype control_msg =
    Scm_timestamping "timespec list"
  | Ip_recverr (ee_errno: int) (ee_origin: int) (ee_data: u32)
  | Other_cmsg int

definition ENOMSG :: int where "ENOMSG = 42"
definition SO_EE_ORIGIN_TIMESTAMPING :: int where "SO_EE_ORIGIN_TIMESTAMPING = 4"

text \<open>
  \<open>extract_timestamps\<close>: the loop over the control messages. The state is \<open>found\<close>, \<open>*dest\<close> and the
  thread-local \<open>received_opid\<close>, an \<open>int\<close> assigned from an unsigned number.
\<close>

fun extract_loop ::
  "control_msg list \<Rightarrow> int \<Rightarrow> timestamp_info \<Rightarrow> int \<Rightarrow> (int \<times> timestamp_info \<times> int) c_result" where
  "extract_loop [] found dest opid = Inr (found, dest, opid)"
| "extract_loop (Scm_timestamping ts # ms) found dest opid =
     c_bind (c_read ts 2) (\<lambda>t.
     if tv_sec t \<noteq> 0 then
       c_bind (c_assert (found = - 1)) (\<lambda>_. extract_loop ms 1 (dest\<lparr>ti_time := t\<rparr>) opid)
     else extract_loop ms found dest opid)"
| "extract_loop (Ip_recverr e org d # ms) found dest opid =
     (if e = ENOMSG \<and> org = SO_EE_ORIGIN_TIMESTAMPING then
        (if ti_optid dest < d + 1 then extract_loop ms 0 dest (sint d)
         else if d + 1 < ti_optid dest then extract_loop ms (- 1) dest opid
         else extract_loop ms 1 dest opid)
      else extract_loop ms found dest opid)"
| "extract_loop (Other_cmsg _ # ms) found dest opid = extract_loop ms found dest opid"

definition extract_timestamps ::
  "control_msg list \<Rightarrow> timestamp_info \<Rightarrow> int \<Rightarrow> (int \<times> timestamp_info \<times> int) c_result" where
  "extract_timestamps hdr dest opid = extract_loop hdr (- 1) dest opid"

text \<open>
  \<open>timestamp_recv\<close>: \<open>recvmsg\<close> on the socket (the number of bytes it returned and the control
  messages); with data, \<open>last_rx_time\<close> is zeroed and filled from the control messages.
\<close>

definition timestamp_recv ::
  "int \<Rightarrow> control_msg list \<Rightarrow> timestamp_info \<Rightarrow> int \<Rightarrow> (int \<times> timestamp_info \<times> int) c_result" where
  "timestamp_recv nbytes cmsgs last_rx opid =
     (if nbytes \<le> 0 then Inr (nbytes, last_rx, opid)
      else c_bind (extract_timestamps cmsgs zero_info opid) (\<lambda>(_, rx, opid'). Inr (nbytes, rx, opid')))"

subsection \<open>The ring\<close>

definition add_pending_tx_timestamp :: "pending_tx \<Rightarrow> u32 \<Rightarrow> pending_tx" where
  "add_pending_tx_timestamp q bytes =
     (let c = tx_byte_counter q + bytes; i = slot (pq_head q) in
      q\<lparr>tx_byte_counter := c, pq_head := pq_head q + 1,
        pq_pending := (pq_pending q)[i := (pq_pending q ! i)\<lparr>ti_optid := c\<rparr>]\<rparr>)"

text \<open>The returned pointer is the slot's contents; no pointer (NULL) is \<open>None\<close>.\<close>

definition pop_pending_tx_timestamps :: "pending_tx \<Rightarrow> (timestamp_info option \<times> pending_tx) c_result" where
  "pop_pending_tx_timestamps q =
     c_bind (c_assert (pq_consumed q \<le> pq_head q)) (\<lambda>_.
     if pq_consumed q < pq_tail q
     then Inr (Some (pq_pending q ! slot (pq_consumed q)), q\<lparr>pq_consumed := pq_consumed q + 1\<rparr>)
     else Inr (None, q))"

definition blind_skip_tx_timestamps :: "pending_tx \<Rightarrow> int \<Rightarrow> pending_tx" where
  "blind_skip_tx_timestamps q to_skip =
     (if 0 < to_skip then q\<lparr>pq_consumed := pq_consumed q + word_of_int to_skip\<rparr> else q)"

definition push_complete_tx_timestamp ::
  "bool \<Rightarrow> timespec \<Rightarrow> pending_tx \<times> tx_samples \<Rightarrow> pending_tx \<times> tx_samples" where
  "push_complete_tx_timestamp measuring to_add s =
     (let q = fst s; i = slot (pq_tail q);
          info = (pq_pending q ! i)\<lparr>ti_time := to_add\<rparr> in
      (q\<lparr>pq_pending := (pq_pending q)[i := info], pq_head := pq_head q + 1, pq_tail := pq_tail q + 1\<rparr>,
       add_tx_timestamp measuring (ti_time info) (snd s)))"

subsection \<open>Hardware timestamps\<close>

text \<open>
  The loop of \<open>get_tx_timestamp\<close>: all further pending requests up to offset \<open>acked\<close> left with the same
  segment and get the same time \<open>t\<close> (the time stored in the slot \<open>curr\<close> points to, which the loop
  itself can only overwrite with the same value). \<open>tail < head\<close> bounds the loop.
\<close>

function coalesce_loop ::
  "bool \<Rightarrow> u32 \<Rightarrow> timespec \<Rightarrow> pending_tx \<times> tx_samples \<Rightarrow> pending_tx \<times> tx_samples" where
  "coalesce_loop measuring acked t s =
     (let q = fst s; i = slot (pq_tail q) in
      if ti_optid (pq_pending q ! i) \<le> acked \<and> pq_tail q < pq_head q then
        coalesce_loop measuring acked t
          (q\<lparr>pq_pending := (pq_pending q)[i := (pq_pending q ! i)\<lparr>ti_time := t\<rparr>],
             pq_tail := pq_tail q + 1\<rparr>,
           add_tx_timestamp measuring t (snd s))
      else s)"
  by pat_completeness auto

termination
  by (relation "measure (\<lambda>(measuring, acked, t, s). unat (pq_head (fst s)) - unat (pq_tail (fst s)))")
    (auto simp: unat_Suc_less word_less_nat_alt)

declare coalesce_loop.simps [simp del]

text \<open>
  \<open>get_tx_timestamp\<close>: \<open>err_msgs\<close> is what \<open>recvmsg(MSG_ERRQUEUE)\<close> delivers, the number of payload
  bytes and the control messages, or \<open>None\<close> when it fails. The status is 1 when a timestamp was
  matched and 0 otherwise. \<open>received_opid + 1\<close> is computed as an \<open>int\<close>, so the largest \<open>int\<close> is an
  overflow, and is converted to unsigned for the comparison.
\<close>

definition get_tx_timestamp ::
  "bool \<Rightarrow> (nat \<times> control_msg list) option \<Rightarrow> int \<Rightarrow> pending_tx \<times> tx_samples
   \<Rightarrow> (int \<times> int \<times> pending_tx \<times> tx_samples) c_result" where
  "get_tx_timestamp measuring err_msgs opid s =
     (case err_msgs of
        None \<Rightarrow> Inr (0, opid, s)
      | Some (n, cmsgs) \<Rightarrow>
          c_bind (c_assert (n = 0)) (\<lambda>_.
          let q = fst s; i = slot (pq_tail q) in
          c_bind (extract_timestamps cmsgs (pq_pending q ! i) opid) (\<lambda>(found, info, opid').
          let q1 = q\<lparr>pq_pending := (pq_pending q)[i := info]\<rparr> in
          if found = - 1 then Inr (0, opid', q1, snd s)
          else
            let s2 = (q1\<lparr>pq_tail := pq_tail q1 + 1\<rparr>, add_tx_timestamp measuring (ti_time info) (snd s)) in
            if found = 1 then Inr (1, opid', s2)
            else if opid' = 2 ^ 31 - 1 then Inl Undefined
            else Inr (1, opid', coalesce_loop measuring (word_of_int (opid' + 1)) (ti_time info) s2))))"

subsection \<open>Well-formed rings and their contents\<close>

text \<open>
  \<open>pq_wf\<close>: the counters are ordered as far as the code keeps them ordered, and no more requests are
  without a response than the ring has slots. \<open>tail\<close> can lag behind \<open>consumed\<close>: a response may
  arrive before its request's hardware timestamp.
\<close>

definition pq_wf :: "pending_tx \<Rightarrow> bool" where
  "pq_wf q \<longleftrightarrow> length (pq_pending q) = MAX_PENDING_REQS \<and> pq_tail q \<le> pq_head q \<and>
     pq_consumed q \<le> pq_head q \<and> unat (pq_head q) - unat (pq_consumed q) \<le> MAX_PENDING_REQS"

definition in_flight :: "pending_tx \<Rightarrow> nat" where
  "in_flight q = unat (pq_head q) - unat (pq_consumed q)"

text \<open>The entry of the \<open>k\<close>-th request ever sent on the connection.\<close>

definition entry :: "pending_tx \<Rightarrow> nat \<Rightarrow> timestamp_info" where
  "entry q k = pq_pending q ! (k mod MAX_PENDING_REQS)"

definition unread_times :: "pending_tx \<Rightarrow> timespec list" where
  "unread_times q = map (\<lambda>k. ti_time (entry q k)) [unat (pq_consumed q) ..< unat (pq_tail q)]"

lemma pq_wf_zero: "pq_wf zero_pending"
  by (simp add: pq_wf_def zero_pending_def)

lemma slot_neq_window:
  "k < n \<Longrightarrow> n < k + MAX_PENDING_REQS \<Longrightarrow> k mod MAX_PENDING_REQS \<noteq> n mod MAX_PENDING_REQS"
  using mod_eq_window by blast

lemma mod_pending_lt [simp]: "k mod MAX_PENDING_REQS < MAX_PENDING_REQS"
  by (simp add: MAX_PENDING_REQS_def)

text \<open>User-space timestamps: every request is complete as soon as it is sent.\<close>

definition complete_wf :: "pending_tx \<Rightarrow> bool" where
  "complete_wf q \<longleftrightarrow> pq_wf q \<and> pq_tail q = pq_head q"

definition has_room :: "pending_tx \<Rightarrow> bool" where
  "has_room q \<longleftrightarrow> in_flight q < MAX_PENDING_REQS \<and> unat (pq_head q) + 1 < 2 ^ 32"

definition pop_time :: "pending_tx \<times> tx_samples \<Rightarrow> timespec option \<times> pending_tx \<times> tx_samples" where
  "pop_time s =
     (case pop_pending_tx_timestamps (fst s) of
        Inl _ \<Rightarrow> (None, s)
      | Inr (r, q) \<Rightarrow> (map_option ti_time r, q, snd s))"

lemma unread_times_push:
  assumes "complete_wf q" and "has_room q"
  shows "unread_times (fst (push_complete_tx_timestamp measuring t (q, txs))) = unread_times q @ [t]"
proof -
  let ?i = "unat (pq_tail q) mod MAX_PENDING_REQS"
  have keep: "?i \<noteq> k mod MAX_PENDING_REQS" if "unat (pq_consumed q) \<le> k" "k < unat (pq_tail q)" for k
    using that assms by (intro not_sym [OF slot_neq_window]) (auto simp: complete_wf_def has_room_def in_flight_def)
  from assms have "unat (pq_tail q + 1) = unat (pq_tail q) + 1"
    and "unat (pq_consumed q) \<le> unat (pq_tail q)" and "?i < length (pq_pending q)"
    by (simp_all add: has_room_def complete_wf_def pq_wf_def unat_Suc_u32 word_le_nat_alt)
  with keep show ?thesis
    by (auto simp: unread_times_def entry_def push_complete_tx_timestamp_def Let_def slot_def)
qed

lemma complete_wf_push:
  assumes "complete_wf q" and "has_room q"
  shows "complete_wf (fst (push_complete_tx_timestamp measuring t (q, txs)))"
  using assms
  by (auto simp: complete_wf_def has_room_def in_flight_def pq_wf_def push_complete_tx_timestamp_def
      Let_def word_le_nat_alt unat_Suc_u32)

lemma pop_complete:
  assumes "complete_wf q"
  shows "pop_pending_tx_timestamps q =
    (if unread_times q = [] then Inr (None, q)
     else Inr (Some (entry q (unat (pq_consumed q))), q\<lparr>pq_consumed := pq_consumed q + 1\<rparr>))"
  using assms
  by (auto simp: pop_pending_tx_timestamps_def complete_wf_def pq_wf_def unread_times_def
      word_less_nat_alt entry_def slot_def)

lemma unread_times_pop:
  assumes "complete_wf q" and "unread_times q = t # ts"
  shows "ti_time (entry q (unat (pq_consumed q))) = t
    \<and> unread_times (q\<lparr>pq_consumed := pq_consumed q + 1\<rparr>) = ts
    \<and> complete_wf (q\<lparr>pq_consumed := pq_consumed q + 1\<rparr>)"
proof -
  from assms(2) have less: "unat (pq_consumed q) < unat (pq_tail q)"
    by (cases "unat (pq_consumed q) < unat (pq_tail q)") (simp_all add: unread_times_def)
  then have "unat (pq_consumed q + 1) = unat (pq_consumed q) + 1"
    by (intro unat_Suc_less) (simp add: word_less_nat_alt)
  with assms less show ?thesis
    by (auto simp: unread_times_def upt_conv_Cons complete_wf_def pq_wf_def entry_def word_le_nat_alt)
qed

interpretation user_times: fifo "push_complete_tx_timestamp measuring" pop_time
    "\<lambda>s. unread_times (fst s)" "\<lambda>s. complete_wf (fst s)" "\<lambda>s. has_room (fst s)"
  for measuring :: bool
proof (unfold_locales, goal_cases)
  case (1 s x)
  then show ?case by (cases s) (simp add: complete_wf_push)
next
  case (2 s x)
  then show ?case by (cases s) (simp add: unread_times_push)
next
  case (3 s)
  then show ?case by (simp add: pop_time_def pop_complete)
next
  case (4 s x xs)
  then show ?case by (auto simp: pop_time_def pop_complete dest: unread_times_pop)
next
  case (5 s)
  then show ?case
    by (cases "unread_times (fst s)") (auto simp: pop_time_def pop_complete dest: unread_times_pop)
qed

subsection \<open>Hardware timestamps: one report covers a whole segment\<close>

text \<open>Writing the same time into the entries of the requests \<open>ks\<close>.\<close>

definition stamp :: "timespec \<Rightarrow> nat list \<Rightarrow> timestamp_info list \<Rightarrow> timestamp_info list" where
  "stamp t ks p =
     foldl (\<lambda>p k. p[k mod MAX_PENDING_REQS := (p ! (k mod MAX_PENDING_REQS))\<lparr>ti_time := t\<rparr>]) p ks"

lemma length_stamp [simp]: "length (stamp t ks p) = length p"
  unfolding stamp_def by (induction ks arbitrary: p) simp_all

lemma stamp_Cons:
  "stamp t (k # ks) p =
   stamp t ks (p[k mod MAX_PENDING_REQS := (p ! (k mod MAX_PENDING_REQS))\<lparr>ti_time := t\<rparr>])"
  by (simp add: stamp_def)

lemma nth_stamp:
  assumes "j < length p"
  shows "stamp t ks p ! j =
    (if \<exists>k \<in> set ks. k mod MAX_PENDING_REQS = j then (p ! j)\<lparr>ti_time := t\<rparr> else p ! j)"
  using assms
proof (induction ks arbitrary: p)
  case Nil
  then show ?case by (simp add: stamp_def)
next
  case (Cons k ks)
  then show ?case
    by (cases "k mod MAX_PENDING_REQS = j") (auto simp: stamp_Cons nth_list_update_neq)
qed

text \<open>How many of the requests sent but not yet timestamped end at or before offset \<open>acked\<close>.\<close>

definition covered :: "u32 \<Rightarrow> pending_tx \<Rightarrow> nat" where
  "covered acked q =
     length (takeWhile (\<lambda>k. ti_optid (entry q k) \<le> acked) [unat (pq_tail q) ..< unat (pq_head q)])"

definition stamp_next :: "timespec \<Rightarrow> nat \<Rightarrow> pending_tx \<Rightarrow> pending_tx" where
  "stamp_next t n q =
     q\<lparr>pq_pending := stamp t [unat (pq_tail q) ..< unat (pq_tail q) + n] (pq_pending q),
       pq_tail := word_of_nat (unat (pq_tail q) + n)\<rparr>"

lemma covered_le: "covered acked q \<le> unat (pq_head q) - unat (pq_tail q)"
  unfolding covered_def by (rule order_trans [OF length_takeWhile_le]) simp

lemma stamp_next_0 [simp]: "stamp_next t 0 q = q"
  by (simp add: stamp_next_def stamp_def)

lemma stamp_next_fields [simp]:
  "pq_head (stamp_next t n q) = pq_head q"
  "pq_consumed (stamp_next t n q) = pq_consumed q"
  "length (pq_pending (stamp_next t n q)) = length (pq_pending q)"
  by (simp_all add: stamp_next_def)

lemma pq_tail_stamp_next: "pq_tail (stamp_next t n q) = word_of_nat (unat (pq_tail q) + n)"
  by (simp add: stamp_next_def)

lemma entry_stamp_time:
  "length (pq_pending q) = MAX_PENDING_REQS \<Longrightarrow>
   ti_optid (stamp t ks (pq_pending q) ! (k mod MAX_PENDING_REQS)) = ti_optid (entry q k)"
  by (simp add: nth_stamp entry_def)

text \<open>One turn of the loop, seen from outside.\<close>

definition stamp_one :: "timespec \<Rightarrow> pending_tx \<Rightarrow> pending_tx" where
  "stamp_one t q =
     q\<lparr>pq_pending := (pq_pending q)[slot (pq_tail q) := (pq_pending q ! slot (pq_tail q))\<lparr>ti_time := t\<rparr>],
       pq_tail := pq_tail q + 1\<rparr>"

lemma stamp_next_Suc:
  assumes "pq_tail q < pq_head q"
  shows "stamp_next t n (stamp_one t q) = stamp_next t (Suc n) q"
proof -
  let ?T = "unat (pq_tail q)"
  have "[?T ..< ?T + Suc n] = ?T # [Suc ?T ..< Suc ?T + n]"
    by (simp add: upt_conv_Cons del: upt_Suc)
  then show ?thesis
    using unat_Suc_less [OF assms]
    by (simp add: stamp_next_def stamp_one_def slot_def stamp_Cons ac_simps del: upt_Suc)
qed

lemma covered_Suc:
  assumes "pq_tail q < pq_head q" and "ti_optid (entry q (unat (pq_tail q))) \<le> acked"
    and "length (pq_pending q) = MAX_PENDING_REQS"
  shows "covered acked q = Suc (covered acked (stamp_one t q))"
proof -
  have "ti_optid (entry (stamp_one t q) k) = ti_optid (entry q k)" for k
    using assms(3) by (cases "slot (pq_tail q) = k mod MAX_PENDING_REQS")
      (simp_all add: entry_def stamp_one_def)
  moreover have "unat (pq_tail q) < unat (pq_head q)"
    using assms(1) by (simp add: word_less_nat_alt)
  ultimately show ?thesis
    using assms(1,2) unat_Suc_less [OF assms(1)]
    by (simp add: covered_def stamp_one_def upt_conv_Cons)
qed

lemma covered_0:
  assumes "\<not> (ti_optid (entry q (unat (pq_tail q))) \<le> acked \<and> pq_tail q < pq_head q)"
  shows "covered acked q = 0"
  using assms
  by (cases "unat (pq_tail q) < unat (pq_head q)")
    (auto simp: covered_def upt_conv_Cons word_less_nat_alt)

lemma coalesce_loop_result:
  assumes "length (pq_pending (fst s)) = MAX_PENDING_REQS"
  shows "coalesce_loop measuring acked t s =
    (stamp_next t (covered acked (fst s)) (fst s),
     (add_tx_timestamp measuring t ^^ covered acked (fst s)) (snd s))"
  using assms
proof (induction measuring acked t s rule: coalesce_loop.induct)
  case (1 measuring acked t s)
  obtain q txs where s: "s = (q, txs)" by (cases s)
  have entry: "pq_pending q ! slot (pq_tail q) = entry q (unat (pq_tail q))"
    by (simp add: entry_def slot_def)
  show ?case
  proof (cases "ti_optid (entry q (unat (pq_tail q))) \<le> acked \<and> pq_tail q < pq_head q")
    case True
    then have "coalesce_loop measuring acked t s
        = coalesce_loop measuring acked t (stamp_one t q, add_tx_timestamp measuring t txs)"
      by (subst coalesce_loop.simps) (simp add: s Let_def entry stamp_one_def)
    also have "\<dots> = (stamp_next t (covered acked (stamp_one t q)) (stamp_one t q),
      (add_tx_timestamp measuring t ^^ covered acked (stamp_one t q)) (add_tx_timestamp measuring t txs))"
      using "1.IH" [of q "slot (pq_tail q)"] True "1.prems" by (simp add: s entry stamp_one_def)
    finally show ?thesis
      using True "1.prems"
      by (simp add: s stamp_next_Suc covered_Suc [of q acked t] funpow_swap1)
  next
    case False
    then have "coalesce_loop measuring acked t s = s"
      by (subst coalesce_loop.simps) (auto simp: s Let_def entry)
    then show ?thesis
      by (simp add: s covered_0 [OF False])
  qed
qed

lemma extract_nic:
  assumes "tv_sec t \<noteq> 0"
  shows "extract_timestamps [Scm_timestamping [t0, t1, t], Ip_recverr ENOMSG SO_EE_ORIGIN_TIMESTAMPING d] dest opid
    = Inr (if ti_optid dest < d + 1 then (0, dest\<lparr>ti_time := t\<rparr>, sint d)
           else if d + 1 < ti_optid dest then (- 1, dest\<lparr>ti_time := t\<rparr>, opid)
           else (1, dest\<lparr>ti_time := t\<rparr>, opid))"
  using assms by (simp add: extract_timestamps_def)

text \<open>
  The report of the NIC driver, as Linux delivers it: the hardware time followed by the offset of
  the last byte it covers.
\<close>

definition nic_report :: "timespec \<Rightarrow> u32 \<Rightarrow> (nat \<times> control_msg list) option" where
  "nic_report t d = Some (0, [Scm_timestamping [zero_timespec, zero_timespec, t],
     Ip_recverr ENOMSG SO_EE_ORIGIN_TIMESTAMPING d])"

definition increasing_offsets :: "pending_tx \<Rightarrow> bool" where
  "increasing_offsets q \<longleftrightarrow>
     sorted_wrt (<) (map (\<lambda>k. ti_optid (entry q k)) [unat (pq_tail q) ..< unat (pq_head q)])"

lemma covered_equal:
  assumes "increasing_offsets q" and "pq_tail q < pq_head q"
    and "ti_optid (entry q (unat (pq_tail q))) = acked"
  shows "covered acked q = 1"
proof -
  let ?T = "unat (pq_tail q)" and ?H = "unat (pq_head q)"
  have less: "?T < ?H" using assms(2) by (simp add: word_less_nat_alt)
  then have "\<forall>k \<in> set [Suc ?T ..< ?H]. acked < ti_optid (entry q k)"
    using assms(1,3) by (simp add: increasing_offsets_def upt_conv_Cons)
  then have "takeWhile (\<lambda>k. ti_optid (entry q k) \<le> acked) [Suc ?T ..< ?H] = []"
    by (cases "[Suc ?T ..< ?H]") (auto simp: not_le)
  with less assms(3) show ?thesis
    by (simp add: covered_def upt_conv_Cons)
qed

lemma word_of_int_sint_plus_1: "word_of_int (sint (d :: u32) + 1) = d + 1"
  by simp

lemma get_tx_timestamp_nic:
  assumes len: "length (pq_pending q) = MAX_PENDING_REQS"
    and pending: "pq_tail q < pq_head q" and incr: "increasing_offsets q"
    and t: "tv_sec t \<noteq> 0" and first: "ti_optid (entry q (unat (pq_tail q))) \<le> d + 1"
    and small: "sint d \<noteq> 2 ^ 31 - 1"
  shows "\<exists>opid'. get_tx_timestamp measuring (nic_report t d) opid (q, txs) =
    Inr (1, opid', stamp_next t (covered (d + 1) q) q,
         (add_tx_timestamp measuring t ^^ covered (d + 1) q) txs)"
proof -
  let ?q1 = "q\<lparr>pq_pending := (pq_pending q)[slot (pq_tail q) := (entry q (unat (pq_tail q)))\<lparr>ti_time := t\<rparr>]\<rparr>"
  have entry: "pq_pending q ! slot (pq_tail q) = entry q (unat (pq_tail q))"
    by (simp add: entry_def slot_def)
  have one: "?q1\<lparr>pq_tail := pq_tail q + 1\<rparr> = stamp_one t q"
    by (simp add: stamp_one_def entry)
  show ?thesis
  proof (cases "ti_optid (entry q (unat (pq_tail q))) = d + 1")
    case True
    have "stamp_one t q = stamp_next t 1 q"
      using stamp_next_Suc [OF pending, of t 0] by simp
    then show ?thesis
      using True t covered_equal [OF incr pending True]
      by (simp add: get_tx_timestamp_def nic_report_def extract_nic Let_def entry one)
  next
    case False
    with first have less: "ti_optid (entry q (unat (pq_tail q))) < d + 1" by simp
    have cov: "covered (d + 1) q = Suc (covered (d + 1) (stamp_one t q))"
      by (rule covered_Suc [OF pending first len])
    have len1: "length (pq_pending (fst (stamp_one t q, add_tx_timestamp measuring t txs))) = MAX_PENDING_REQS"
      using len by (simp add: stamp_one_def)
    show ?thesis
      using less t small
      by (simp add: get_tx_timestamp_def nic_report_def extract_nic Let_def entry one
          coalesce_loop_result [OF len1] cov stamp_next_Suc [OF pending] funpow_swap1)
  qed
qed

subsection \<open>Properties\<close>

text \<open>
  A connection in user-space mode: \<open>Enq t\<close> is a request sent at time \<open>t\<close>, \<open>Deq\<close> a response. The
  transmit times handed to the responses are collected. \<open>None\<close>: a request was sent while the ring
  was full, which \<open>pick_conn\<close> rules out.
\<close>

fun user_run ::
  "bool \<Rightarrow> timespec fifo_op list \<Rightarrow> (pending_tx \<times> tx_samples) \<times> timespec list
   \<Rightarrow> ((pending_tx \<times> tx_samples) \<times> timespec list) option" where
  "user_run measuring [] s = Some s"
| "user_run measuring (Enq t # ps) (s, out) =
     (if has_room (fst s) then user_run measuring ps (push_complete_tx_timestamp measuring t s, out)
      else None)"
| "user_run measuring (Deq # ps) (s, out) =
     (case pop_pending_tx_timestamps (fst s) of
        Inl e \<Rightarrow> None
      | Inr (r, q) \<Rightarrow>
          user_run measuring ps ((q, snd s), out @ (case r of None \<Rightarrow> [] | Some i \<Rightarrow> [ti_time i])))"

lemma user_step_Deq:
  "pop_pending_tx_timestamps (fst s) = Inr (r, q) \<Longrightarrow>
   user_times.step measuring Deq (s, out)
     = ((q, snd s), out @ (case r of None \<Rightarrow> [] | Some i \<Rightarrow> [ti_time i]))"
  by (simp add: pop_time_def split: option.split)

lemma user_run_fifo:
  "user_run measuring ps (s, out) = Some s' \<Longrightarrow>
   user_times.runs_in_room measuring ps (s, out) \<and> fold (user_times.step measuring) ps (s, out) = s'"
proof (induction ps arbitrary: s out)
  case Nil
  then show ?case by simp
next
  case (Cons p ps)
  show ?case
  proof (cases p)
    case (Enq t)
    with Cons.prems have "has_room (fst s)"
      and "user_run measuring ps (push_complete_tx_timestamp measuring t s, out) = Some s'"
      by (auto split: if_splits)
    with Cons.IH Enq show ?thesis by simp
  next
    case Deq
    with Cons.prems obtain r q where pop: "pop_pending_tx_timestamps (fst s) = Inr (r, q)"
      and "user_run measuring ps ((q, snd s), out @ (case r of None \<Rightarrow> [] | Some i \<Rightarrow> [ti_time i])) = Some s'"
      by (auto split: sum.splits)
    with Cons.IH show ?thesis
      unfolding Deq by (simp del: user_times.step.simps add: user_step_Deq [OF pop])
  qed
qed

text \<open>
  Transmit times are matched to responses in the order of the requests: over any run of a
  connection in user-space mode, the times handed out followed by those still unread are exactly
  the times pushed.
\<close>

theorem user_times_in_order:
  assumes "user_run measuring ps ((zero_pending, txs), []) = Some ((q, txs'), out)"
  shows "out @ unread_times q = put_in ps"
proof -
  have "complete_wf (fst (zero_pending, txs))" and "unread_times zero_pending = []"
    using pq_wf_zero by (simp_all add: complete_wf_def) (simp_all add: zero_pending_def unread_times_def)
  with user_times.in_order [of "(zero_pending, txs)" measuring ps "[]"] user_run_fifo [OF assms]
  show ?thesis by simp
qed

theorem user_times_in_order_witness:
  "\<exists>q out. user_run True [Enq (Timespec 1 5), Enq (Timespec 1 7), Deq] ((zero_pending, zero_tx), [])
      = Some (q, out) \<and> out = [Timespec 1 5] \<and> out @ unread_times (fst q) = [Timespec 1 5, Timespec 1 7]"
proof -
  let ?ps = "[Enq (Timespec 1 5), Enq (Timespec 1 7), Deq]"
  have "\<exists>q txs. user_run True ?ps ((zero_pending, zero_tx), []) = Some ((q, txs), [Timespec 1 5])"
    by (simp add: has_room_def in_flight_def zero_pending_def push_complete_tx_timestamp_def Let_def
        slot_def MAX_PENDING_REQS_def pop_pending_tx_timestamps_def)
  then obtain q txs where run: "user_run True ?ps ((zero_pending, zero_tx), []) = Some ((q, txs), [Timespec 1 5])"
    by blast
  from user_times_in_order [OF run] run show ?thesis by simp
qed

lemma covered_iff:
  assumes "increasing_offsets q" and "unat (pq_tail q) \<le> k" and "k < unat (pq_head q)"
  shows "k < unat (pq_tail q) + covered acked q \<longleftrightarrow> ti_optid (entry q k) \<le> acked"
proof -
  have "k - unat (pq_tail q) < length [unat (pq_tail q) ..< unat (pq_head q)]"
    using assms(2,3) by simp
  from takeWhile_sorted_prefix [OF assms(1) [unfolded increasing_offsets_def] this, of acked] assms(2,3)
  show ?thesis
    by (simp add: covered_def less_diff_conv2 add.commute)
qed

lemma entry_stamp_next:
  assumes "unat (pq_tail q) \<le> k" and "k < unat (pq_head q)"
    and "unat (pq_head q) - unat (pq_tail q) \<le> MAX_PENDING_REQS"
    and "length (pq_pending q) = MAX_PENDING_REQS" and "n \<le> unat (pq_head q) - unat (pq_tail q)"
  shows "entry (stamp_next t n q) k =
    (if k < unat (pq_tail q) + n then (entry q k)\<lparr>ti_time := t\<rparr> else entry q k)"
proof -
  let ?T = "unat (pq_tail q)"
  have same: "k' = k" if "k' \<in> {?T ..< ?T + n}" "k' mod MAX_PENDING_REQS = k mod MAX_PENDING_REQS" for k'
  proof -
    have "k < k' + MAX_PENDING_REQS" and "k' < k + MAX_PENDING_REQS"
      using that(1) assms by auto
    then show ?thesis
      using that(2) slot_neq_window [of k k'] slot_neq_window [of k' k]
      by (cases k k' rule: linorder_cases) auto
  qed
  have "(\<exists>k' \<in> {?T ..< ?T + n}. k' mod MAX_PENDING_REQS = k mod MAX_PENDING_REQS) \<longleftrightarrow> k < ?T + n"
    using assms(1) same by force
  then show ?thesis
    using assms(4) by (simp add: entry_def stamp_next_def nth_stamp)
qed

lemma unat_tail_stamp_next:
  assumes "unat (pq_tail q) + n \<le> unat (pq_head q)"
  shows "unat (pq_tail (stamp_next t n q)) = unat (pq_tail q) + n"
proof -
  have "unat (pq_tail q) + n < 2 ^ 32"
    using assms unat_u32_pow [of "pq_head q"] by linarith
  then show ?thesis
    by (simp only: pq_tail_stamp_next unat_of_nat_u32)
qed

lemma pq_wf_stamp_next:
  assumes "pq_wf q" and "unat (pq_tail q) + n \<le> unat (pq_head q)"
  shows "pq_wf (stamp_next t n q)"
  using assms unat_tail_stamp_next [OF assms(2), of t]
  by (simp add: pq_wf_def word_le_nat_alt)

text \<open>
  C10. A report of the network card that covers stream offset \<open>d + 1\<close> gives its time to exactly the
  requests without a timestamp that end at or before that offset, in one call: \<open>tail\<close> moves past
  them, their entries get the time, every other entry of the ring, the offsets and the other
  counters stay as they were, and one transmit sample is recorded per request covered.
\<close>

theorem get_tx_timestamp_covers_segment:
  assumes "pq_wf q" and "pq_tail q < pq_head q" and "unat (pq_head q) - unat (pq_tail q) \<le> MAX_PENDING_REQS"
    and "increasing_offsets q" and "tv_sec t \<noteq> 0"
    and "ti_optid (entry q (unat (pq_tail q))) \<le> d + 1" and "sint d \<noteq> 2 ^ 31 - 1"
  shows "\<exists>opid' q' txs'. get_tx_timestamp True (nic_report t d) opid (q, txs) = Inr (1, opid', q', txs')
    \<and> unat (pq_tail q') = unat (pq_tail q) + covered (d + 1) q
    \<and> pq_head q' = pq_head q \<and> pq_consumed q' = pq_consumed q \<and> pq_wf q'
    \<and> (\<forall>k \<in> {unat (pq_tail q) ..< unat (pq_head q)}. entry q' k =
         (if ti_optid (entry q k) \<le> d + 1 then (entry q k)\<lparr>ti_time := t\<rparr> else entry q k))
    \<and> txs' = ((\<lambda>s. tx_push s t) ^^ covered (d + 1) q) txs"
proof -
  let ?n = "covered (d + 1) q"
  from assms(1) have len: "length (pq_pending q) = MAX_PENDING_REQS" by (simp add: pq_wf_def)
  have n: "unat (pq_tail q) + ?n \<le> unat (pq_head q)" "?n \<le> unat (pq_head q) - unat (pq_tail q)"
    using covered_le [of "d + 1" q] assms(2) by (simp_all add: word_less_nat_alt)
  obtain opid' where run: "get_tx_timestamp True (nic_report t d) opid (q, txs)
      = Inr (1, opid', stamp_next t ?n q, (add_tx_timestamp True t ^^ ?n) txs)"
    using get_tx_timestamp_nic [OF len assms(2,4-7)] by blast
  have "entry (stamp_next t ?n q) k =
      (if ti_optid (entry q k) \<le> d + 1 then (entry q k)\<lparr>ti_time := t\<rparr> else entry q k)"
    if "k \<in> {unat (pq_tail q) ..< unat (pq_head q)}" for k
    using that entry_stamp_next [OF _ _ assms(3) len n(2)] covered_iff [OF assms(4)] by simp
  moreover have "add_tx_timestamp True t = (\<lambda>s. tx_push s t)"
    by (simp add: add_tx_timestamp_def fun_eq_iff)
  ultimately show ?thesis
    using run unat_tail_stamp_next [OF n(1)] pq_wf_stamp_next [OF assms(1) n(1)]
    by (intro exI [of _ opid'] exI [of _ "stamp_next t ?n q"] exI [of _ "((\<lambda>s. tx_push s t) ^^ ?n) txs"])
      simp
qed

definition two_sent :: pending_tx where
  "two_sent = add_pending_tx_timestamp (add_pending_tx_timestamp zero_pending 10) 20"

lemma two_sent_fields:
  "pq_head two_sent = 2" "pq_tail two_sent = 0" "pq_consumed two_sent = 0"
  "entry two_sent 0 = \<lparr>ti_time = zero_timespec, ti_optid = 10\<rparr>"
  "entry two_sent (Suc 0) = \<lparr>ti_time = zero_timespec, ti_optid = 30\<rparr>"
  "pq_wf two_sent"
  by (simp_all add: two_sent_def add_pending_tx_timestamp_def Let_def zero_pending_def slot_def
      MAX_PENDING_REQS_def entry_def zero_info_def pq_wf_def)

theorem get_tx_timestamp_covers_segment_witness:
  "covered 30 two_sent = 2 \<and>
   (\<exists>opid' q' txs'. get_tx_timestamp True (nic_report (Timespec 9 1) 29) 0 (two_sent, zero_tx)
      = Inr (1, opid', q', txs') \<and> unat (pq_tail q') = 2 \<and> ti_time (entry q' (Suc 0)) = Timespec 9 1)"
proof -
  have upt: "[0 ..< unat (2 :: u32)] = [0, Suc 0]" by (simp add: upt_rec)
  have cov: "covered 30 two_sent = 2"
    by (simp only: covered_def two_sent_fields unat_0 upt) (simp add: two_sent_fields)
  have "increasing_offsets two_sent"
    by (simp only: increasing_offsets_def two_sent_fields unat_0 upt) (simp add: two_sent_fields)
  from get_tx_timestamp_covers_segment [OF _ _ _ this, of "Timespec 9 1" 29 0 zero_tx]
  obtain opid' q' txs' where run: "get_tx_timestamp True (nic_report (Timespec 9 1) 29) 0 (two_sent, zero_tx)
      = Inr (1, opid', q', txs')" and tail: "unat (pq_tail q') = covered 30 two_sent"
    and entries: "\<forall>k \<in> {0 ..< 2}. entry q' k = (if ti_optid (entry two_sent k) \<le> 30
         then (entry two_sent k)\<lparr>ti_time := Timespec 9 1\<rparr> else entry two_sent k)"
    by (auto simp: two_sent_fields MAX_PENDING_REQS_def)
  from entries have "entry q' (Suc 0) = (entry two_sent (Suc 0))\<lparr>ti_time := Timespec 9 1\<rparr>"
    by (simp add: two_sent_fields)
  with run tail cov show ?thesis by auto
qed

end
