(* ===== verification/C_String.thy ===== *)
theory C_String
  imports C_Double
begin

text \<open>
  The functions of \<open>string.h\<close>, \<open>stdlib.h\<close> and \<open>stdio.h\<close> that the agent parses its arguments and
  formats its requests with. A C string is the \<open>char\<close> list before the terminating NUL. \<open>strtok\<close>
  writes a NUL behind the token it returns, so the caller's string is cut there; that effect is
  \<open>strtok_cut\<close>, because \<open>args.c\<close> parses the same argument twice.
\<close>

subsection \<open>Tokens\<close>

definition strncmp_eq :: "string \<Rightarrow> string \<Rightarrow> nat \<Rightarrow> bool" where
  "strncmp_eq s t n \<longleftrightarrow> take n s = take n t"

text \<open>\<open>strtok\<close>: the token and the position where the next call continues; NULL when only delimiters are left.\<close>

definition strtok :: "string \<Rightarrow> string \<Rightarrow> (string \<times> string) option" where
  "strtok delims s =
     (let t = dropWhile (\<lambda>c. c \<in> set delims) s in
      if t = [] then None
      else Some (takeWhile (\<lambda>c. c \<notin> set delims) t, tl (dropWhile (\<lambda>c. c \<notin> set delims) t)))"

text \<open>What the string reads as after the first call of \<open>strtok\<close> on it: its first token is terminated in place.\<close>

definition strtok_cut :: "string \<Rightarrow> string \<Rightarrow> string" where
  "strtok_cut delims s =
     takeWhile (\<lambda>c. c \<in> set delims) s @ takeWhile (\<lambda>c. c \<notin> set delims) (dropWhile (\<lambda>c. c \<in> set delims) s)"

text \<open>The next token from a saved position, as \<open>strtok(NULL, delims)\<close> returns it; NULL is \<open>None\<close>.\<close>

definition next_tok :: "string \<Rightarrow> string option \<Rightarrow> string option \<times> string option" where
  "next_tok delims pos =
     (case pos of
        None \<Rightarrow> (None, None)
      | Some s \<Rightarrow> (case strtok delims s of None \<Rightarrow> (None, None) | Some (t, rest) \<Rightarrow> (Some t, Some rest)))"

lemma strtok_shorter: "strtok delims s = Some (t, rest) \<Longrightarrow> length rest < length s"
proof -
  assume tok: "strtok delims s = Some (t, rest)"
  let ?u = "dropWhile (\<lambda>c. c \<in> set delims) s"
  have "?u \<noteq> []" and rest: "rest = tl (dropWhile (\<lambda>c. c \<notin> set delims) ?u)"
    using tok by (auto simp: strtok_def Let_def split: if_splits)
  then have "length rest < length ?u"
    using length_dropWhile_le [of "\<lambda>c. c \<notin> set delims" ?u] by (cases ?u) (auto simp: less_Suc_eq_le)
  with length_dropWhile_le [of "\<lambda>c. c \<in> set delims" s] show ?thesis by linarith
qed

text \<open>All tokens of a string.\<close>

function tokens :: "string \<Rightarrow> string \<Rightarrow> string list" where
  "tokens delims s =
     (case strtok delims s of None \<Rightarrow> [] | Some (t, rest) \<Rightarrow> t # tokens delims rest)"
  by pat_completeness auto
termination
  by (relation "measure (\<lambda>(delims, s). length s)") (auto dest: strtok_shorter)

declare tokens.simps [simp del]

lemma tokens_Nil [simp]: "tokens delims [] = []"
  by (simp add: tokens.simps strtok_def)

lemma strtok_token:
  "t \<noteq> [] \<Longrightarrow> set t \<inter> set delims = {} \<Longrightarrow> strtok delims t = Some (t, [])"
proof -
  assume t: "t \<noteq> []" "set t \<inter> set delims = {}"
  then have "takeWhile (\<lambda>c. c \<notin> set delims) t = t" "dropWhile (\<lambda>c. c \<notin> set delims) t = []"
    by (auto simp: takeWhile_eq_all_conv dropWhile_eq_Nil_conv)
  moreover have "dropWhile (\<lambda>c. c \<in> set delims) t = t" using t by (cases t) auto
  ultimately show "strtok delims t = Some (t, [])" by (simp only: strtok_def Let_def t(1) if_False list.sel(2))
qed

lemma strtok_token_sep:
  assumes "t \<noteq> []" and "set t \<inter> set delims = {}" and "d \<in> set delims"
  shows "strtok delims (t @ d # rest) = Some (t, rest)"
proof -
  have "dropWhile (\<lambda>c. c \<in> set delims) (t @ d # rest) = t @ d # rest"
    using assms(1,2) by (cases t) auto
  moreover have "takeWhile (\<lambda>c. c \<notin> set delims) (t @ d # rest) = t"
    and "dropWhile (\<lambda>c. c \<notin> set delims) (t @ d # rest) = d # rest"
    using assms(2,3) by (auto simp: takeWhile_tail dropWhile_append3 intro: takeWhile_append2)
  ultimately show ?thesis by (simp add: strtok_def)
qed

lemma strtok_cut_sep:
  assumes "t \<noteq> []" and "set t \<inter> set delims = {}" and "d \<in> set delims"
  shows "strtok_cut delims (t @ d # rest) = t"
  using assms by (cases t) (auto simp: strtok_cut_def takeWhile_tail)

lemma strtok_cut_token:
  assumes "set t \<inter> set delims = {}"
  shows "strtok_cut delims t = t"
proof -
  have "takeWhile (\<lambda>c. c \<notin> set delims) t = t" using assms by (auto simp: takeWhile_eq_all_conv)
  moreover have "dropWhile (\<lambda>c. c \<in> set delims) t = t" "takeWhile (\<lambda>c. c \<in> set delims) t = []"
    using assms by (cases t; auto)+
  ultimately show ?thesis by (simp only: strtok_cut_def append_Nil)
qed

subsection \<open>Numbers\<close>

definition digit_value :: "char \<Rightarrow> nat" where
  "digit_value c = (of_char c :: nat) - 48"

definition is_digit :: "char \<Rightarrow> bool" where
  "is_digit c \<longleftrightarrow> 48 \<le> (of_char c :: nat) \<and> (of_char c :: nat) \<le> 57"

definition digits_value :: "string \<Rightarrow> nat" where
  "digits_value s = foldl (\<lambda>n c. n * 10 + digit_value c) 0 s"

definition is_space :: "char \<Rightarrow> bool" where
  "is_space c \<longleftrightarrow> (of_char c :: nat) = 32 \<or> 9 \<le> (of_char c :: nat) \<and> (of_char c :: nat) \<le> 13"

text \<open>An optional sign: whether it is a minus, and what follows it.\<close>

fun c_sign :: "string \<Rightarrow> bool \<times> string" where
  "c_sign (c # s) = (if c = CHR ''-'' then (True, s) else if c = CHR ''+'' then (False, s) else (False, c # s))"
| "c_sign [] = (False, [])"

text \<open>\<open>atoi\<close>; a number that does not fit an \<open>int\<close> is undefined, a NULL argument is one in the callers.\<close>

definition atoi :: "string \<Rightarrow> int c_result" where
  "atoi s =
     (let (neg, r) = c_sign (dropWhile is_space s);
          n = int (digits_value (takeWhile is_digit r));
          v = (if neg then - n else n)
      in if - (2 ^ 31) \<le> v \<and> v < 2 ^ 31 then Inr v else Inl Undefined)"

text \<open>
  \<open>atof\<close> for decimal notation: sign, digits, an optional fraction and an optional exponent. The
  spellings of infinities, NaNs and hexadecimal numbers are not covered: they read as 0 or as their
  leading digits.
\<close>

definition atof_exponent :: "string \<Rightarrow> int" where
  "atof_exponent r =
     (case r of [] \<Rightarrow> 0
      | c # s \<Rightarrow> if c = CHR ''e'' \<or> c = CHR ''E''
          then (let (neg, d) = c_sign s; n = int (digits_value (takeWhile is_digit d)) in if neg then - n else n)
          else 0)"

definition atof :: "string \<Rightarrow> real" where
  "atof s =
     (let (neg, r) = c_sign (dropWhile is_space s);
          whole = takeWhile is_digit r;
          r1 = dropWhile is_digit r;
          frac = (if r1 \<noteq> [] \<and> hd r1 = CHR ''.'' then takeWhile is_digit (tl r1) else []);
          r2 = (if r1 \<noteq> [] \<and> hd r1 = CHR ''.'' then dropWhile is_digit (tl r1) else r1);
          m = real (digits_value whole) + real (digits_value frac) / 10 ^ length frac;
          e = (if whole = [] \<and> frac = [] then 0 else atof_exponent r2);
          v = (if whole = [] \<and> frac = [] then 0 else m * 10 powr real_of_int e)
      in if neg then - v else v)"

text \<open>Decimal output: \<open>%ld\<close>, and \<open>%0<w>d\<close> for a number that is not negative.\<close>

definition digit_char :: "nat \<Rightarrow> char" where
  "digit_char d = char_of (48 + d)"

fun show_nat_aux :: "nat \<Rightarrow> string" where
  "show_nat_aux n = (if n < 10 then [digit_char n] else show_nat_aux (n div 10) @ [digit_char (n mod 10)])"

declare show_nat_aux.simps [simp del]

definition show_dec :: "int \<Rightarrow> string" where
  "show_dec v = (if v < 0 then CHR ''-'' # show_nat_aux (nat (- v)) else show_nat_aux (nat v))"

definition show_padded :: "nat \<Rightarrow> nat \<Rightarrow> string" where
  "show_padded w n = (let s = show_nat_aux n in replicate (w - length s) (CHR ''0'') @ s)"

lemma of_char_digit: "d < 10 \<Longrightarrow> (of_char (digit_char d) :: nat) = 48 + d"
  by (simp add: digit_char_def)

lemma digit_char_digit [simp]: "d < 10 \<Longrightarrow> is_digit (digit_char d)" "d < 10 \<Longrightarrow> digit_value (digit_char d) = d"
  by (simp_all add: is_digit_def digit_value_def of_char_digit)

lemma digits_value_snoc: "digits_value (s @ [c]) = digits_value s * 10 + digit_value c"
  by (simp add: digits_value_def)

lemma digits_value_show: "digits_value (show_nat_aux n) = n"
proof (induction n rule: show_nat_aux.induct)
  case (1 n)
  then show ?case
    by (subst show_nat_aux.simps) (auto simp: digits_value_snoc, simp add: digits_value_def)
qed

lemma show_nat_digits: "list_all is_digit (show_nat_aux n)"
proof (induction n rule: show_nat_aux.induct)
  case (1 n)
  then show ?case by (subst show_nat_aux.simps) auto
qed

lemma length_show_nat: "n < 10 ^ Suc k \<Longrightarrow> length (show_nat_aux n) \<le> Suc k"
proof (induction k arbitrary: n)
  case 0
  then show ?case by (subst show_nat_aux.simps) simp
next
  case (Suc k)
  then have "n div 10 < 10 ^ Suc k" by (simp add: less_mult_imp_div_less)
  from Suc.IH [OF this] show ?case by (subst show_nat_aux.simps) simp
qed

lemma digits_value_zeros: "digits_value (replicate k (CHR ''0'') @ s) = digits_value s"
  by (induction k) (simp_all add: digits_value_def digit_value_def)

lemma length_show_padded: "n < 10 ^ w \<Longrightarrow> 0 < w \<Longrightarrow> length (show_padded w n) = w"
  using length_show_nat [of n "w - 1"] by (simp add: show_padded_def Let_def)

lemma digits_value_padded: "digits_value (show_padded w n) = n"
  by (simp add: show_padded_def Let_def digits_value_zeros digits_value_show)

lemma show_padded_digits: "list_all is_digit (show_padded w n)"
proof -
  have "is_digit (CHR ''0'')" by (simp add: is_digit_def)
  then show ?thesis
    using show_nat_digits [of n] by (auto simp: show_padded_def Let_def list_all_iff)
qed

text \<open>Reading back what was printed.\<close>

lemma takeWhile_all_digits: "list_all is_digit s \<Longrightarrow> takeWhile is_digit (s @ c # r) = s" if "\<not> is_digit c"
  using that by (induction s) simp_all

lemma show_nat_head: "\<exists>c s. show_nat_aux n = c # s \<and> is_digit c"
proof -
  have "show_nat_aux n \<noteq> []" by (subst show_nat_aux.simps) simp
  then show ?thesis using show_nat_digits [of n] by (cases "show_nat_aux n") auto
qed

lemma atoi_show:
  assumes "n < 2 ^ 31"
  shows "atoi (show_nat_aux n) = Inr (int n)"
proof -
  obtain c s where c: "show_nat_aux n = c # s" "is_digit c" using show_nat_head by blast
  have "takeWhile is_digit (show_nat_aux n) = show_nat_aux n"
    using show_nat_digits [of n] by (simp add: list_all_iff)
  moreover have "\<not> is_space c" "c \<noteq> CHR ''-''" "c \<noteq> CHR ''+''"
    using c(2) by (auto simp: is_space_def is_digit_def)
  ultimately show ?thesis
    using assms digits_value_show [of n] by (simp add: atoi_def c(1))
qed

end
