(* ===== verification/Rand_Gen.thy ===== *)
theory Rand_Gen
  imports C_String
begin

text \<open>
  \<open>rand_gen.c\<close>: the distributions of inter-arrival and service times. The function pointers of
  \<open>struct rand_gen\<close> and its \<open>params\<close> are one datatype: the constructor tells which functions the
  pointers point to. What \<open>drand48\<close> and \<open>get_normal_rand\<close> return are arguments (\<open>draws\<close>);
  \<open>get_gamma_rand\<close> returns nothing defined (\<open>Cpp_Rand\<close>).
\<close>

subsection \<open>Data\<close>

record param_1 =
  p1_a :: dbl

record param_2 =
  p2_a :: dbl
  p2_b :: dbl

record param_3 =
  p3_a :: dbl
  p3_b :: dbl
  p3_c :: dbl

record param_lss =
  loc :: dbl
  scale :: dbl
  shape :: dbl

record bimodal_param =
  low :: dbl
  up :: dbl
  prob :: dbl

record lognorm_params =
  sigma :: dbl
  mu :: dbl

datatype rand_gen =
    Fixed_gen dbl
  | Exp_gen dbl
  | Gpar_gen param_lss
  | Gev_gen param_lss
  | Bimodal_gen bimodal_param
  | Lognormal_gen lognorm_params
  | Gamma_gen dbl dbl

record draws =
  uniform_draw :: dbl
  normal_draw :: dbl

text \<open>\<open>struct param_3\<close> read through a pointer of another type with three doubles.\<close>

definition as_lss :: "param_3 \<Rightarrow> param_lss" where
  "as_lss p = \<lparr>loc = p3_a p, scale = p3_b p, shape = p3_c p\<rparr>"

definition as_bimodal :: "param_3 \<Rightarrow> bimodal_param" where
  "as_bimodal p = \<lparr>low = p3_a p, up = p3_b p, prob = p3_c p\<rparr>"

subsection \<open>The distributions\<close>

definition exp_inv_cdf :: "dbl \<Rightarrow> dbl \<Rightarrow> dbl" where
  "exp_inv_cdf lambda y = - c_log y / lambda"

definition gpar_inv_cdf :: "param_lss \<Rightarrow> dbl \<Rightarrow> dbl" where
  "gpar_inv_cdf p y = loc p + scale p * (c_pow (Fin 1 - y) (- shape p) - Fin 1) / shape p"

definition gev_inv_cdf :: "param_lss \<Rightarrow> dbl \<Rightarrow> dbl" where
  "gev_inv_cdf p y = loc p + scale p * (c_pow (- c_exp y) (- shape p) - Fin 1) / shape p"

definition bimodal_inv_cdf :: "bimodal_param \<Rightarrow> dbl \<Rightarrow> dbl" where
  "bimodal_inv_cdf p y = (if y \<le> prob p then low p else up p)"

definition lognorm_generate :: "lognorm_params \<Rightarrow> dbl \<Rightarrow> dbl" where
  "lognorm_generate p y = c_exp (mu p + y * sigma p)"

text \<open>\<open>g\<close> is the outcome of \<open>get_gamma_rand\<close>; the number passes through an \<open>int\<close>.\<close>

definition gamma_generate :: "dbl c_result \<Rightarrow> dbl c_result" where
  "gamma_generate g = c_bind g (\<lambda>x. c_bind (dbl_to_c_int x) (\<lambda>res. Inr (dbl_of_int res)))"

text \<open>The functions the code never means to call.\<close>

definition lognorm_inv_cdf :: "lognorm_params \<Rightarrow> dbl \<Rightarrow> dbl c_result" where
  [simp]: "lognorm_inv_cdf p y = Inl Assertion_Failed"

definition gamma_inv_cdf :: "dbl \<Rightarrow> dbl \<Rightarrow> dbl \<Rightarrow> dbl c_result" where
  [simp]: "gamma_inv_cdf a b y = Inl Assertion_Failed"

definition gev_set_avg :: "param_lss \<Rightarrow> dbl \<Rightarrow> rand_gen c_result" where
  [simp]: "gev_set_avg p avg = Inl Assertion_Failed"

definition bimodal_set_avg :: "bimodal_param \<Rightarrow> dbl \<Rightarrow> rand_gen c_result" where
  [simp]: "bimodal_set_avg p avg = Inl Assertion_Failed"

definition lognorm_set_avg :: "lognorm_params \<Rightarrow> dbl \<Rightarrow> rand_gen c_result" where
  [simp]: "lognorm_set_avg p avg = Inl Assertion_Failed"

definition gamma_set_avg :: "dbl \<Rightarrow> dbl \<Rightarrow> dbl \<Rightarrow> rand_gen c_result" where
  [simp]: "gamma_set_avg a b avg = Inl Assertion_Failed"

text \<open>The calls through the function pointers of a generator.\<close>

fun inv_cdf :: "rand_gen \<Rightarrow> dbl \<Rightarrow> dbl c_result" where
  "inv_cdf (Fixed_gen a) y = Inr a"
| "inv_cdf (Exp_gen lambda) y = Inr (exp_inv_cdf lambda y)"
| "inv_cdf (Gpar_gen p) y = Inr (gpar_inv_cdf p y)"
| "inv_cdf (Gev_gen p) y = Inr (gev_inv_cdf p y)"
| "inv_cdf (Bimodal_gen p) y = Inr (bimodal_inv_cdf p y)"
| "inv_cdf (Lognormal_gen p) y = lognorm_inv_cdf p y"
| "inv_cdf (Gamma_gen a b) y = gamma_inv_cdf a b y"

text \<open>
  No gamma generator gets here, since \<open>gamma_init\<close> fails; if one did, \<open>get_gamma_rand\<close> would use its engine as
  the distribution.
\<close>

fun generate :: "rand_gen \<Rightarrow> draws \<Rightarrow> dbl c_result" where
  "generate (Lognormal_gen p) d = Inr (lognorm_generate p (normal_draw d))"
| "generate (Gamma_gen a b) d = gamma_generate (Inl Undefined)"
| "generate g d = inv_cdf g (uniform_draw d)"

definition gpar_set_avg :: "param_lss \<Rightarrow> dbl \<Rightarrow> param_lss" where
  "gpar_set_avg p avg = p\<lparr>scale := (avg - loc p) * (Fin 1 - shape p)\<rparr>"

fun set_avg :: "rand_gen \<Rightarrow> dbl \<Rightarrow> rand_gen c_result" where
  "set_avg (Fixed_gen a) avg = Inr (Fixed_gen avg)"
| "set_avg (Exp_gen lambda) avg = Inr (Exp_gen (Fin 1 / avg))"
| "set_avg (Gpar_gen p) avg = Inr (Gpar_gen (gpar_set_avg p avg))"
| "set_avg (Gev_gen p) avg = gev_set_avg p avg"
| "set_avg (Bimodal_gen p) avg = bimodal_set_avg p avg"
| "set_avg (Lognormal_gen p) avg = lognorm_set_avg p avg"
| "set_avg (Gamma_gen a b) avg = gamma_set_avg a b avg"

subsection \<open>Parsing\<close>

text \<open>\<open>atof\<close> of a token; a NULL token is undefined.\<close>

definition atof_tok :: "string option \<Rightarrow> dbl c_result" where
  "atof_tok t = (case t of None \<Rightarrow> Inl Undefined | Some s \<Rightarrow> Inr (Fin (atof s)))"

definition colon :: string where "colon = '':''"

definition parse_param_1 :: "string \<Rightarrow> param_1" where
  "parse_param_1 type =
     (let (t0, s0) = next_tok colon (Some type);
          (tok, s1) = next_tok colon s0
      in \<lparr>p1_a = (case tok of None \<Rightarrow> Fin 0 | Some t \<Rightarrow> Fin (atof t))\<rparr>)"

definition parse_param_2 :: "string \<Rightarrow> param_2 c_result" where
  "parse_param_2 type =
     (let (t0, s0) = next_tok colon (Some type);
          (ta, sa) = next_tok colon s0;
          (tb, sb) = next_tok colon sa
      in c_bind (atof_tok ta) (\<lambda>a. c_bind (atof_tok tb) (\<lambda>b. Inr \<lparr>p2_a = a, p2_b = b\<rparr>)))"

definition parse_param_3 :: "string \<Rightarrow> param_3 c_result" where
  "parse_param_3 type =
     (let (t0, s0) = next_tok colon (Some type);
          (ta, sa) = next_tok colon s0;
          (tb, sb) = next_tok colon sa;
          (tc, sc) = next_tok colon sb
      in c_bind (atof_tok ta) (\<lambda>a. c_bind (atof_tok tb) (\<lambda>b. c_bind (atof_tok tc) (\<lambda>c.
         Inr \<lparr>p3_a = a, p3_b = b, p3_c = c\<rparr>))))"

definition fixed_init :: "param_1 \<Rightarrow> rand_gen c_result" where
  "fixed_init p = set_avg (Fixed_gen (Fin 0)) (p1_a p)"

definition exp_init :: "param_1 \<Rightarrow> rand_gen c_result" where
  "exp_init p = set_avg (Exp_gen (Fin 0)) (p1_a p)"

definition gpar_init :: "param_3 \<Rightarrow> rand_gen" where
  [simp]: "gpar_init p = Gpar_gen (as_lss p)"

definition gev_init :: "param_3 \<Rightarrow> rand_gen" where
  [simp]: "gev_init p = Gev_gen (as_lss p)"

definition bimodal_init :: "param_3 \<Rightarrow> rand_gen" where
  [simp]: "bimodal_init p = Bimodal_gen (as_bimodal p)"

definition lognormal_init :: "param_2 \<Rightarrow> rand_gen" where
  "lognormal_init p = Lognormal_gen \<lparr>sigma = p2_b p, mu = p2_a p\<rparr>"

text \<open>\<open>gamma_init\<close> begins with \<open>assert(0)\<close>.\<close>

definition gamma_init :: "param_2 \<Rightarrow> rand_gen c_result" where
  "gamma_init p = c_bind (c_assert False) (\<lambda>_. Inr (Gamma_gen (p2_a p) (p2_b p)))"

text \<open>
  \<open>init_rand\<close>: the generator, or \<open>None\<close> for an unknown type, with what is left of the argument
  string. \<open>parsed\<close> is the branch of a distribution that reads its parameters from the argument.
\<close>

definition parsed :: "string \<Rightarrow> rand_gen c_result \<Rightarrow> (rand_gen option \<times> string) c_result" where
  "parsed type g = c_bind g (\<lambda>gen. Inr (Some gen, strtok_cut colon type))"

definition init_rand :: "string \<Rightarrow> (rand_gen option \<times> string) c_result" where
  "init_rand gen_type =
     (if strncmp_eq gen_type ''fixed'' 5 then parsed gen_type (fixed_init (parse_param_1 gen_type))
      else if strncmp_eq gen_type ''exp'' 3 then parsed gen_type (exp_init (parse_param_1 gen_type))
      else if strncmp_eq gen_type ''pareto'' 6 then
        parsed gen_type (c_bind (parse_param_3 gen_type) (\<lambda>p. Inr (gpar_init p)))
      else if strncmp_eq gen_type ''gev'' 3 then
        parsed gen_type (c_bind (parse_param_3 gen_type) (\<lambda>p. Inr (gev_init p)))
      else if gen_type = ''fb_key'' then
        c_bind (parse_param_3 ''gev:30.7984:8.20449:0.078688'') (\<lambda>p. Inr (Some (gev_init p), gen_type))
      else if gen_type = ''fb_ia'' then
        c_bind (parse_param_3 ''gpar:0:16.0292:0.154971'') (\<lambda>p. Inr (Some (gpar_init p), gen_type))
      else if gen_type = ''fb_val'' then
        c_bind (parse_param_3 ''gpar:15.0:214.476:0.348238'') (\<lambda>p. Inr (Some (gpar_init p), gen_type))
      else if strncmp_eq gen_type ''bimodal'' 7 then
        parsed gen_type (c_bind (parse_param_3 gen_type) (\<lambda>p. Inr (bimodal_init p)))
      else if strncmp_eq gen_type ''lognorm'' 7 then
        parsed gen_type (c_bind (parse_param_2 gen_type) (\<lambda>p. Inr (lognormal_init p)))
      else if strncmp_eq gen_type ''gamma'' 5 then
        parsed gen_type (c_bind (parse_param_2 gen_type) gamma_init)
      else Inr (None, gen_type))"

subsection \<open>Parsing the same argument again\<close>

lemma strncmp_name:
  assumes "CHR '':'' \<notin> set t" and "n = length t" and "CHR '':'' \<notin> set name"
  shows "strncmp_eq (name @ CHR '':'' # rest) t n \<longleftrightarrow> strncmp_eq name t n"
proof (cases "n \<le> length name")
  case True
  then show ?thesis by (simp add: strncmp_eq_def)
next
  case False
  then have "CHR '':'' \<in> set (take n (name @ CHR '':'' # rest))"
    by (cases "n - length name") simp_all
  then have "take n (name @ CHR '':'' # rest) \<noteq> t" using assms(1) by metis
  moreover have "length (take n name) < n" using False by simp
  ultimately show ?thesis using assms(2) by (auto simp: strncmp_eq_def)
qed

text \<open>The branch of \<open>init_rand\<close> that the prefix selects, for a string that is not one of the presets.\<close>

definition parsed_first :: "string \<Rightarrow> string \<Rightarrow> (rand_gen option \<times> string) c_result" where
  "parsed_first name s =
     (if strncmp_eq name ''fixed'' 5 then parsed s (fixed_init (parse_param_1 s))
      else if strncmp_eq name ''exp'' 3 then parsed s (exp_init (parse_param_1 s))
      else if strncmp_eq name ''pareto'' 6 then parsed s (c_bind (parse_param_3 s) (\<lambda>p. Inr (gpar_init p)))
      else if strncmp_eq name ''gev'' 3 then parsed s (c_bind (parse_param_3 s) (\<lambda>p. Inr (gev_init p)))
      else if strncmp_eq name ''bimodal'' 7 then
        parsed s (c_bind (parse_param_3 s) (\<lambda>p. Inr (bimodal_init p)))
      else if strncmp_eq name ''lognorm'' 7 then parsed s (c_bind (parse_param_2 s) (\<lambda>p. Inr (lognormal_init p)))
      else if strncmp_eq name ''gamma'' 5 then parsed s (c_bind (parse_param_2 s) gamma_init)
      else Inr (None, s))"

lemma init_rand_colon:
  assumes "CHR '':'' \<notin> set name"
  shows "init_rand (name @ CHR '':'' # rest) = parsed_first name (name @ CHR '':'' # rest)"
proof -
  let ?s = "name @ CHR '':'' # rest"
  have "CHR '':'' \<in> set ?s" by simp
  moreover have "CHR '':'' \<notin> set ''fb_key''" "CHR '':'' \<notin> set ''fb_ia''" "CHR '':'' \<notin> set ''fb_val''" by simp_all
  ultimately have neq: "(?s = ''fb_key'') = False" "(?s = ''fb_ia'') = False" "(?s = ''fb_val'') = False" by metis+
  have pre: "strncmp_eq ?s ''fixed'' 5 = strncmp_eq name ''fixed'' 5" "strncmp_eq ?s ''exp'' 3 = strncmp_eq name ''exp'' 3"
    "strncmp_eq ?s ''pareto'' 6 = strncmp_eq name ''pareto'' 6" "strncmp_eq ?s ''gev'' 3 = strncmp_eq name ''gev'' 3"
    "strncmp_eq ?s ''bimodal'' 7 = strncmp_eq name ''bimodal'' 7" "strncmp_eq ?s ''lognorm'' 7 = strncmp_eq name ''lognorm'' 7"
    "strncmp_eq ?s ''gamma'' 5 = strncmp_eq name ''gamma'' 5"
    by (rule strncmp_name; simp add: assms)+
  show ?thesis
    by (simp only: init_rand_def parsed_first_def neq pre if_False)
qed

lemma init_rand_name:
  assumes "parsed_first name s = Inr (Some g, s')"
  shows "init_rand name = parsed_first name name"
proof -
  have "name \<noteq> ''fb_key''" "name \<noteq> ''fb_ia''" "name \<noteq> ''fb_val''"
    using assms by (auto simp: parsed_first_def strncmp_eq_def)
  then show ?thesis
    by (simp only: init_rand_def parsed_first_def if_False)
qed

lemma next_tok_name:
  assumes "name \<noteq> []" and "CHR '':'' \<notin> set name"
  shows "next_tok colon (Some name) = (Some name, Some [])" and "next_tok colon (Some []) = (None, None)"
    and "next_tok colon None = (None, None)" and "strtok_cut colon (name @ CHR '':'' # rest) = name"
  using assms strtok_token [of name colon] strtok_cut_sep [of name colon "CHR '':''"]
  by (simp_all add: next_tok_def colon_def strtok_def)

lemma parse_param_name:
  assumes "name \<noteq> []" and "CHR '':'' \<notin> set name"
  shows "parse_param_1 name = \<lparr>p1_a = Fin 0\<rparr>" and "parse_param_2 name = Inl Undefined"
    and "parse_param_3 name = Inl Undefined"
  by (simp_all add: parse_param_1_def parse_param_2_def parse_param_3_def Let_def atof_tok_def
      next_tok_name [OF assms])

lemma init_rand_again:
  assumes "init_rand (name @ CHR '':'' # rest) = Inr (Some g, s')" and "name \<noteq> []"
    and "CHR '':'' \<notin> set name"
  shows "s' = name \<and> init_rand s' =
    (case g of Fixed_gen _ \<Rightarrow> Inr (Some (Fixed_gen (Fin 0)), name)
     | Exp_gen _ \<Rightarrow> Inr (Some (Exp_gen PInf), name)
     | _ \<Rightarrow> Inl Undefined)"
proof -
  note tok = next_tok_name [OF assms(2,3)] and par = parse_param_name [OF assms(2,3)]
  have cut: "strtok_cut colon name = name"
    by (rule strtok_cut_token) (use assms(3) in \<open>auto simp: colon_def\<close>)
  from assms(1) have first: "parsed_first name (name @ CHR '':'' # rest) = Inr (Some g, s')"
    by (simp add: init_rand_colon [OF assms(3)])
  then have s': "s' = name"
    by (auto simp: parsed_first_def parsed_def c_result_simps tok(4) gamma_init_def split: if_splits)
  have again: "init_rand s' = parsed_first name name"
    unfolding s' using first by (rule init_rand_name)
  from first have "parsed_first name name = (case g of Fixed_gen _ \<Rightarrow> Inr (Some (Fixed_gen (Fin 0)), name)
     | Exp_gen _ \<Rightarrow> Inr (Some (Exp_gen PInf), name) | _ \<Rightarrow> Inl Undefined)"
    by (auto simp: parsed_first_def parsed_def c_result_simps par cut fixed_init_def exp_init_def
        lognormal_init_def gamma_init_def inf_of_sign_def split: if_splits)
  with again s' show ?thesis by simp
qed

subsection \<open>Properties\<close>

text \<open>
  C31. The exponential generator draws from the exponential distribution with the requested average:
  for a uniform draw \<open>u\<close> strictly between 0 and 1 it returns the number whose survival probability
  under that distribution is \<open>u\<close>. (For \<open>u = 0\<close>, which \<open>drand48\<close> can return, it is infinite.)
\<close>

theorem exp_generator_inverts_survival:
  assumes "0 < avg" and "uniform_draw d = Fin u" and "0 < u" and "u < 1"
  shows "\<exists>g x. set_avg (Exp_gen old) (Fin avg) = Inr g \<and> generate g d = Inr (Fin x)
    \<and> 0 < x \<and> exp (- x / avg) = u \<and> generate g (d\<lparr>uniform_draw := Fin 0\<rparr>) = Inr PInf"
proof -
  have "generate (Exp_gen (Fin (1 / avg))) d = Inr (Fin (- ln u * avg))"
    using assms by (simp add: exp_inv_cdf_def)
  moreover have "generate (Exp_gen (Fin (1 / avg))) (d\<lparr>uniform_draw := Fin 0\<rparr>) = Inr PInf"
    using assms(1) by (simp add: exp_inv_cdf_def uminus_dbl_def dbl_neg_def divide_dbl_def inf_of_sign_def)
  moreover have "ln u < 0" using assms(3,4) by simp
  ultimately show ?thesis
    using assms by (simp add: mult_neg_pos)
qed

theorem exp_generator_inverts_survival_witness:
  "\<exists>g x. set_avg (Exp_gen (Fin 1)) (Fin 100) = Inr g
     \<and> generate g \<lparr>uniform_draw = Fin (1 / 2), normal_draw = Fin 0\<rparr> = Inr (Fin x)
     \<and> exp (- x / 100) = 1 / 2"
  using exp_generator_inverts_survival [of 100 "\<lparr>uniform_draw = Fin (1 / 2), normal_draw = Fin 0\<rparr>" "1 / 2" "Fin 1"]
  by auto

lemma powr_inverse_shape:
  assumes "0 < x" and "0 < (k::real)"
  shows "(x powr - k) powr (- (1 / k)) = x"
  using assms by (simp add: powr_powr)

text \<open>
  C32. The generalised Pareto generator: after \<open>set_avg\<close> the distribution has the requested mean
  \<open>location + scale / (1 - shape)\<close>, and for every uniform draw \<open>u\<close> it returns the \<open>u\<close>-quantile, the
  number at which the distribution function is \<open>u\<close>.
\<close>

theorem gpar_generator_inverts_cdf:
  assumes p: "p = \<lparr>loc = Fin l, scale = s0, shape = Fin k\<rparr>" and "0 < k" and "k < 1" and "l < avg"
    and "uniform_draw d = Fin u" and "0 \<le> u" and "u < 1"
  shows "\<exists>s x. set_avg (Gpar_gen p) (Fin avg) = Inr (Gpar_gen (p\<lparr>scale := Fin s\<rparr>))
    \<and> l + s / (1 - k) = avg \<and> 0 < s
    \<and> generate (Gpar_gen (p\<lparr>scale := Fin s\<rparr>)) d = Inr (Fin x) \<and> l \<le> x
    \<and> 1 - (1 + k * (x - l) / s) powr (- (1 / k)) = u"
proof -
  define s where "s = (avg - l) * (1 - k)"
  have s: "0 < s" using assms by (simp add: s_def)
  define w where "w = (1 - u) powr - k"
  define x where "x = l + s * (w - 1) / k"
  have w1: "1 \<le> w"
    using assms powr_mono2' [of "- k" "1 - u" 1] by (simp add: w_def)
  have "set_avg (Gpar_gen p) (Fin avg) = Inr (Gpar_gen (p\<lparr>scale := Fin s\<rparr>))"
    by (simp add: p gpar_set_avg_def s_def)
  moreover have "l + s / (1 - k) = avg" using assms(3) by (simp add: s_def)
  moreover have "generate (Gpar_gen (p\<lparr>scale := Fin s\<rparr>)) d = Inr (Fin x)"
    using assms(2,5-7) by (simp add: p gpar_inv_cdf_def x_def w_def)
  moreover have "l \<le> x" using s w1 assms(2) by (simp add: x_def)
  moreover have "1 + k * (x - l) / s = w"
    using s assms(2) by (simp add: x_def)
  then have "1 - (1 + k * (x - l) / s) powr (- (1 / k)) = u"
    using powr_inverse_shape [of "1 - u" k] assms(2,7) by (simp add: w_def)
  ultimately show ?thesis using s by blast
qed

theorem gpar_generator_inverts_cdf_witness:
  "\<exists>s x. set_avg (Gpar_gen \<lparr>loc = Fin 0, scale = Fin 7, shape = Fin (1 / 2)\<rparr>) (Fin 10)
      = Inr (Gpar_gen \<lparr>loc = Fin 0, scale = Fin s, shape = Fin (1 / 2)\<rparr>)
     \<and> s / (1 - 1 / 2) = 10 \<and> 0 \<le> (x :: real)"
  using gpar_generator_inverts_cdf [of "\<lparr>loc = Fin 0, scale = Fin 7, shape = Fin (1 / 2)\<rparr>" 0 "Fin 7" "1 / 2" 10
    "\<lparr>uniform_draw = Fin (1 / 4), normal_draw = Fin 0\<rparr>" "1 / 4"] by auto

text \<open>
  The GEV generator, which raises \<open>-exp(y)\<close> instead of \<open>-log(y)\<close> to a power, returns a NaN for
  every draw unless its shape is an integer; so does \<open>fb_key\<close>.
\<close>

theorem gev_generates_nan:
  assumes "k \<notin> \<int>"
  shows "generate (Gev_gen \<lparr>loc = Fin l, scale = Fin s, shape = Fin k\<rparr>) (d\<lparr>uniform_draw := Fin u\<rparr>) = Inr NaN"
proof -
  have "- k \<notin> \<int>" and "k \<noteq> 0" using assms by auto
  then have "c_pow (Fin (- exp u)) (Fin (- k)) = NaN" by (simp add: not_less)
  then show ?thesis by (simp add: gev_inv_cdf_def minus_dbl_def dbl_neg_def)
qed

theorem gev_generates_nan_witness:
  "generate (Gev_gen \<lparr>loc = Fin 3, scale = Fin 8, shape = Fin (1 / 2)\<rparr>)
     (\<lparr>uniform_draw = Fin 0, normal_draw = Fin 0\<rparr>\<lparr>uniform_draw := Fin (1 / 2)\<rparr>) = Inr NaN"
proof (rule gev_generates_nan)
  show "(1 / 2 :: real) \<notin> \<int>"
  proof
    assume "(1 / 2 :: real) \<in> \<int>"
    then obtain z where "(1 / 2 :: real) = of_int z" by (rule Ints_cases)
    then have "real_of_int (2 * z) = real_of_int 1" by simp
    then have "2 * z = 1" by (simp only: of_int_eq_iff)
    then show False by presburger
  qed
qed

end
