(* ===== verification/C_Bytes.thy ===== *)
theory C_Bytes
  imports Prelude
begin

text \<open>
  Objects as bytes: the little-endian representation of the integers the agent, the coordinator and
  the server exchange, and its inverse.
\<close>

type_synonym byte = "8 word"

fun le_bytes :: "nat \<Rightarrow> nat \<Rightarrow> byte list" where
  "le_bytes 0 v = []"
| "le_bytes (Suc k) v = word_of_nat (v mod 256) # le_bytes k (v div 256)"

fun le_value :: "byte list \<Rightarrow> nat" where
  "le_value [] = 0"
| "le_value (b # bs) = unat b + 256 * le_value bs"

lemma length_le_bytes [simp]: "length (le_bytes k v) = k"
  by (induction k arbitrary: v) simp_all

lemma unat_byte: "n < 256 \<Longrightarrow> unat (word_of_nat n :: byte) = n"
  by (simp add: unat_of_nat)

lemma unat_byte_lt: "unat (b :: byte) < 256"
  by (rule order_less_le_trans [OF unsigned_less]) simp

lemma le_value_le_bytes: "v < 256 ^ k \<Longrightarrow> le_value (le_bytes k v) = v"
  by (induction k arbitrary: v) (simp_all add: unat_byte less_mult_imp_div_less mult.commute)

lemma digit_less: "x < 256 \<Longrightarrow> y < z \<Longrightarrow> x + 256 * y < 256 * (z :: nat)"
proof -
  assume "x < 256" "y < z"
  then have "256 * (y + 1) \<le> 256 * z" by (intro mult_le_mono2) simp
  moreover have "256 * (y + 1) = 256 * y + 256" by (simp only: distrib_left mult_1_right)
  ultimately show "x + 256 * y < 256 * z" using \<open>x < 256\<close> by linarith
qed

lemma le_value_lt: "le_value bs < 256 ^ length bs"
  by (induction bs) (simp_all add: digit_less unat_byte_lt)

lemma le_bytes_le_value: "le_bytes (length bs) (le_value bs) = bs"
proof (induction bs)
  case (Cons b bs)
  have "unat b < 256" by (rule unat_byte_lt)
  with Cons show ?case by simp
qed simp

definition u32_bytes :: "u32 \<Rightarrow> byte list" where
  "u32_bytes w = le_bytes 4 (unat w)"

definition u64_bytes :: "u64 \<Rightarrow> byte list" where
  "u64_bytes w = le_bytes 8 (unat w)"

definition bytes_u32 :: "byte list \<Rightarrow> u32" where
  "bytes_u32 bs = word_of_nat (le_value (take 4 bs))"

definition bytes_u64 :: "byte list \<Rightarrow> u64" where
  "bytes_u64 bs = word_of_nat (le_value (take 8 bs))"

text \<open>A \<open>long\<close> is stored as its two's complement.\<close>

definition long_bytes :: "int \<Rightarrow> byte list" where
  "long_bytes v = u64_bytes (word_of_int v)"

definition bytes_long :: "byte list \<Rightarrow> int" where
  "bytes_long bs = sint (bytes_u64 bs)"

lemma length_word_bytes [simp]:
  "length (u32_bytes w) = 4" "length (u64_bytes v) = 8" "length (long_bytes x) = 8"
  by (simp_all add: u32_bytes_def u64_bytes_def long_bytes_def)

lemma bytes_u32_append [simp]: "bytes_u32 (u32_bytes w @ bs) = w"
proof -
  have "unat w < 256 ^ 4" using unat_u32_pow [of w] by simp
  then show ?thesis by (simp add: bytes_u32_def u32_bytes_def le_value_le_bytes)
qed

lemma bytes_u64_append [simp]: "bytes_u64 (u64_bytes w @ bs) = w"
proof -
  have "unat w < 2 ^ 64" using unsigned_less [of w] by simp
  then have "unat w < 256 ^ 8" by simp
  then show ?thesis by (simp add: bytes_u64_def u64_bytes_def le_value_le_bytes)
qed

lemma bytes_long_append [simp]:
  "- (2 ^ 63) \<le> v \<Longrightarrow> v < 2 ^ 63 \<Longrightarrow> bytes_long (long_bytes v @ bs) = v"
  by (simp add: bytes_long_def long_bytes_def sint_sbintrunc' signed_take_bit_int_eq_self)

lemmas bytes_roundtrip = bytes_u32_append [where bs = "[]", simplified]
  bytes_u64_append [where bs = "[]", simplified] bytes_long_append [where bs = "[]", simplified]

end
