(* ===== verification/App_Proto.thy ===== *)
theory App_Proto
  imports Rand_Gen C_Bytes Stats_Record
begin

text \<open>
  \<open>app_proto.c\<close>: the application protocols. A protocol is a datatype whose constructor says which
  functions the pointers of \<open>struct application_protocol\<close> point to and what \<open>arg\<close> holds. None of the
  protocols reads a response: \<open>consume_response\<close> only looks at its length, which is never negative in
  the callers (an unsigned 16-bit index or a positive \<open>int\<close>) and so is a \<open>nat\<close>.
\<close>

subsection \<open>Data\<close>

datatype app_proto =
    Proto_echo "byte list"
  | Proto_synthetic rand_gen
  | Proto_ascii_mem
  | Proto_ascii_mem_svc "rand_gen option"

text \<open>The thread-local \<open>per_thread_arg\<close>: NULL, the synthetic protocol's number, or the memcached key counter.\<close>

datatype thread_arg = Arg_NULL | Arg_long int | Arg_mem u32

text \<open>A request is the contents of its I/O vectors (\<open>meta\<close> is always NULL).\<close>

type_synonym request = "byte list list"

definition char_bytes :: "string \<Rightarrow> byte list" where
  "char_bytes s = map (\<lambda>c. of_char c) s"

lemma length_char_bytes [simp]: "length (char_bytes s) = length s"
  by (simp add: char_bytes_def)

definition RESPONSE_SIZE :: nat where "RESPONSE_SIZE = 40"

subsection \<open>Echo\<close>

definition echo_create_request :: "byte list \<Rightarrow> request" where
  "echo_create_request msg = [msg]"

definition echo_consume_response :: "byte list \<Rightarrow> nat \<Rightarrow> byte_req_pair c_result" where
  "echo_consume_response msg n =
     (if length msg = 0 then Inl Undefined
      else let reqs = n div length msg
        in Inr \<lparr>br_bytes = word_of_nat (reqs * length msg), br_reqs = word_of_nat reqs\<rparr>)"

text \<open>The \<open>malloc\<close> of a negative length, converted to an unsigned size, fails.\<close>

definition echo_init :: "string \<Rightarrow> app_proto c_result" where
  "echo_init proto =
     (let (t0, s0) = next_tok colon (Some proto);
          (token, s1) = next_tok colon s0
      in case token of
           None \<Rightarrow> Inl Undefined
         | Some t \<Rightarrow>
             c_bind (atoi t) (\<lambda>message_len.
             c_bind (c_assert (0 \<le> message_len)) (\<lambda>_.
             Inr (Proto_echo (replicate (nat message_len) (of_char (CHR 0x23)))))))"

subsection \<open>Synthetic\<close>

definition synthetic_create_request :: "rand_gen \<Rightarrow> draws \<Rightarrow> (request \<times> thread_arg) c_result" where
  "synthetic_create_request generator d =
     c_bind (generate generator d) (\<lambda>x.
     c_bind (c_lround x) (\<lambda>v. Inr ([long_bytes v], Arg_long v)))"

definition synthetic_consume_response :: "nat \<Rightarrow> byte_req_pair" where
  "synthetic_consume_response n =
     (let reqs = n div 8 in \<lparr>br_bytes = word_of_nat (reqs * 8), br_reqs = word_of_nat reqs\<rparr>)"

definition synthetic_init :: "string \<Rightarrow> app_proto c_result" where
  "synthetic_init proto =
     (let (t0, s0) = next_tok colon (Some proto);
          (token, s1) = next_tok [] s0
      in case token of
           None \<Rightarrow> Inl Undefined
         | Some t \<Rightarrow>
             c_bind (init_rand t) (\<lambda>(gen, _).
             case gen of None \<Rightarrow> Inl Assertion_Failed | Some g \<Rightarrow> Inr (Proto_synthetic g)))"

subsection \<open>ASCII memcached\<close>

text \<open>\<open>snprintf\<close> of \<open>get %019d\<close> and a line end, with the key counter modulo one million.\<close>

definition CRLF :: string where "CRLF = [CHR 0x0D, CHR 0x0A]"

definition ascii_mem_create_request :: "thread_arg \<Rightarrow> (request \<times> thread_arg) c_result" where
  "ascii_mem_create_request arg =
     (case arg of
        Arg_long _ \<Rightarrow> Inl Undefined
      | _ \<Rightarrow>
        let key = (case arg of Arg_mem k \<Rightarrow> k | _ \<Rightarrow> 0);
            line = ''get '' @ show_padded 19 (unat (key mod 1000000)) @ CRLF
        in c_bind (c_assert (0 < length line)) (\<lambda>_. Inr ([char_bytes line], Arg_mem (key + 1))))"

text \<open>The loop counts responses of 40 bytes each.\<close>

function ascii_consume_loop :: "nat \<Rightarrow> nat \<Rightarrow> nat \<Rightarrow> nat \<times> nat" where
  "ascii_consume_loop n bytes reqs =
     (if bytes < n then
        let reqs' = reqs + 1; bytes' = bytes + RESPONSE_SIZE
        in if n < bytes' + RESPONSE_SIZE then (bytes', reqs') else ascii_consume_loop n bytes' reqs'
      else (bytes, reqs))"
  by pat_completeness auto
termination
  by (relation "measure (\<lambda>(n, bytes, reqs). n - bytes)") (auto simp: RESPONSE_SIZE_def)

declare ascii_consume_loop.simps [simp del]

definition ascii_mem_consume_response :: "nat \<Rightarrow> byte_req_pair c_result" where
  "ascii_mem_consume_response n =
     c_bind (c_assert (RESPONSE_SIZE \<le> n)) (\<lambda>_.
     let (bytes, reqs) = ascii_consume_loop n 0 0
     in Inr \<lparr>br_bytes = word_of_nat bytes, br_reqs = word_of_nat reqs\<rparr>)"

text \<open>The service variant asks for a random number instead of a key; a missing generator is a NULL dereference.\<close>

definition ascii_mem_svc_create_request ::
  "rand_gen option \<Rightarrow> draws \<Rightarrow> thread_arg \<Rightarrow> (request \<times> thread_arg) c_result" where
  "ascii_mem_svc_create_request gen d arg =
     (case gen of
        None \<Rightarrow> Inl Undefined
      | Some g \<Rightarrow>
          c_bind (generate g d) (\<lambda>x.
          c_bind (c_lround x) (\<lambda>v.
          let line = ''get '' @ show_dec v @ CRLF
          in c_bind (c_assert (0 < length line)) (\<lambda>_.
          Inr ([char_bytes line], (case arg of Arg_mem k \<Rightarrow> Arg_mem k | _ \<Rightarrow> Arg_mem 0))))))"

text \<open>\<open>&proto[14]\<close> is outside the string unless something follows the 13 characters of the name.\<close>

definition ascii_mem_init :: app_proto where
  [simp]: "ascii_mem_init = Proto_ascii_mem"

definition ascii_mem_svc_init :: "string \<Rightarrow> app_proto c_result" where
  "ascii_mem_svc_init proto =
     (if length proto < 14 then Inl Undefined
      else c_bind (init_rand (drop 14 proto)) (\<lambda>(gen, _). Inr (Proto_ascii_mem_svc gen)))"

subsection \<open>Dispatch\<close>

definition init_app_proto :: "string \<Rightarrow> app_proto option c_result" where
  "init_app_proto proto =
     (if strncmp_eq proto ''echo'' 4 then c_bind (echo_init proto) (\<lambda>p. Inr (Some p))
      else if strncmp_eq proto ''synthetic'' 9 then c_bind (synthetic_init proto) (\<lambda>p. Inr (Some p))
      else if strncmp_eq proto ''ascii-mem-svc'' 13 then c_bind (ascii_mem_svc_init proto) (\<lambda>p. Inr (Some p))
      else if strncmp_eq proto ''ascii-mem'' 9 then Inr (Some ascii_mem_init)
      else Inr None)"

fun create_request :: "app_proto \<Rightarrow> draws \<Rightarrow> thread_arg \<Rightarrow> (request \<times> thread_arg) c_result" where
  "create_request (Proto_echo msg) d arg = Inr (echo_create_request msg, arg)"
| "create_request (Proto_synthetic g) d arg = synthetic_create_request g d"
| "create_request Proto_ascii_mem d arg = ascii_mem_create_request arg"
| "create_request (Proto_ascii_mem_svc g) d arg = ascii_mem_svc_create_request g d arg"

fun consume_response :: "app_proto \<Rightarrow> nat \<Rightarrow> byte_req_pair c_result" where
  "consume_response (Proto_echo msg) n = echo_consume_response msg n"
| "consume_response (Proto_synthetic g) n = Inr (synthetic_consume_response n)"
| "consume_response Proto_ascii_mem n = ascii_mem_consume_response n"
| "consume_response (Proto_ascii_mem_svc g) n = ascii_mem_consume_response n"

subsection \<open>The interface of a response consumer\<close>

text \<open>
  What the transport relies on: messages have a fixed size \<open>msg\<close>; of \<open>n\<close> bytes, the consumer takes
  all whole messages. \<open>least\<close> is the number of bytes below which it may refuse. The client's fact:
  as numbers, the counts are those of the whole messages, and less than a message stays behind.
\<close>

locale response_consumer =
  fixes consume :: "nat \<Rightarrow> byte_req_pair c_result"
    and msg :: nat
    and least :: nat
  assumes msg_pos: "0 < msg"
    and consume_whole: "least \<le> n \<Longrightarrow> n < 2 ^ 31 \<Longrightarrow>
      consume n = Inr \<lparr>br_bytes = word_of_nat (n div msg * msg), br_reqs = word_of_nat (n div msg)\<rparr>"
begin

lemma consume_counts:
  assumes "least \<le> n" and "n < 2 ^ 31"
  shows "\<exists>r. consume n = Inr r \<and> unat (br_reqs r) = n div msg \<and> unat (br_bytes r) = n div msg * msg
    \<and> unat (br_bytes r) \<le> n \<and> n - unat (br_bytes r) < msg"
proof -
  have le: "n div msg * msg \<le> n" "n div msg \<le> n" by simp_all
  moreover have "n < 2 ^ 64" using assms(2) by simp
  ultimately have "n div msg * msg < 2 ^ 64" "n div msg < 2 ^ 64" by (blast intro: order_le_less_trans)+
  then have "unat (word_of_nat (n div msg * msg) :: u64) = n div msg * msg"
    and "unat (word_of_nat (n div msg) :: u64) = n div msg" by (simp_all only: unat_of_nat_u64)
  moreover have "n - n div msg * msg < msg" using msg_pos by (metis mod_less_divisor minus_div_mult_eq_mod)
  ultimately show ?thesis using consume_whole [OF assms] le by simp
qed

end

subsection \<open>The consumers\<close>

lemma ascii_consume_loop_eq:
  "b + RESPONSE_SIZE \<le> n \<Longrightarrow>
   ascii_consume_loop n b r = (b + (n - b) div RESPONSE_SIZE * RESPONSE_SIZE, r + (n - b) div RESPONSE_SIZE)"
proof (induction n b r rule: ascii_consume_loop.induct)
  case (1 n b r)
  let ?q = "(n - (b + RESPONSE_SIZE)) div RESPONSE_SIZE"
  have q: "(n - b) div RESPONSE_SIZE = Suc ?q"
    using "1.prems" le_div_geq [of RESPONSE_SIZE "n - b"] by (simp add: RESPONSE_SIZE_def)
  have less: "b < n" using "1.prems" by (simp add: RESPONSE_SIZE_def)
  show ?case
  proof (cases "n < b + RESPONSE_SIZE + RESPONSE_SIZE")
    case True
    then have "?q = 0" using "1.prems" by (simp add: RESPONSE_SIZE_def)
    with True less q show ?thesis by (subst ascii_consume_loop.simps) (simp add: Let_def)
  next
    case False
    then have "b + RESPONSE_SIZE + RESPONSE_SIZE \<le> n" by simp
    from "1.IH" [OF less refl refl False this] False less q show ?thesis
      by (subst ascii_consume_loop.simps) (simp add: Let_def)
  qed
qed

interpretation synthetic: response_consumer "\<lambda>n. Inr (synthetic_consume_response n)" 8 0
  by unfold_locales (simp_all add: synthetic_consume_response_def Let_def)

interpretation ascii_mem: response_consumer ascii_mem_consume_response RESPONSE_SIZE RESPONSE_SIZE
  by unfold_locales
    (simp_all add: ascii_mem_consume_response_def ascii_consume_loop_eq, simp add: RESPONSE_SIZE_def)

interpretation echo: response_consumer "echo_consume_response (b # bs)" "Suc (length bs)" 0
  for b :: byte and bs :: "byte list"
  by unfold_locales (simp_all add: echo_consume_response_def Let_def)

text \<open>The size of a protocol's messages; an echo protocol with an empty message has none.\<close>

fun message_size :: "app_proto \<Rightarrow> nat" where
  "message_size (Proto_echo msg) = length msg"
| "message_size (Proto_synthetic g) = 8"
| "message_size Proto_ascii_mem = RESPONSE_SIZE"
| "message_size (Proto_ascii_mem_svc g) = RESPONSE_SIZE"

fun least_response :: "app_proto \<Rightarrow> nat" where
  "least_response (Proto_echo msg) = 0"
| "least_response (Proto_synthetic g) = 0"
| "least_response Proto_ascii_mem = RESPONSE_SIZE"
| "least_response (Proto_ascii_mem_svc g) = RESPONSE_SIZE"

lemma response_consumer_proto:
  assumes "0 < message_size p"
  shows "response_consumer (consume_response p) (message_size p) (least_response p)"
proof (cases p)
  case (Proto_echo msg)
  with assms obtain b bs where "msg = b # bs" by (cases msg) auto
  then show ?thesis
    unfolding Proto_echo by (unfold_locales; simp add: echo_consume_response_def Let_def)
next
  case (Proto_synthetic g)
  then show ?thesis by (unfold_locales; simp add: synthetic_consume_response_def Let_def)
next
  case Proto_ascii_mem
  then show ?thesis using ascii_mem.response_consumer_axioms unfolding response_consumer_def by simp
next
  case (Proto_ascii_mem_svc g)
  then show ?thesis using ascii_mem.response_consumer_axioms unfolding response_consumer_def by simp
qed

lemma consume_response_whole:
  assumes "0 < message_size p" and "least_response p \<le> n" and "n < 2 ^ 31"
  shows "consume_response p n = Inr \<lparr>br_bytes = word_of_nat (n div message_size p * message_size p),
    br_reqs = word_of_nat (n div message_size p)\<rparr>"
  using response_consumer.consume_whole [OF response_consumer_proto [OF assms(1)] assms(2,3)] .

lemma consume_response_counts:
  assumes "0 < message_size p" and "least_response p \<le> n" and "n < 2 ^ 31"
  shows "\<exists>r. consume_response p n = Inr r \<and> unat (br_reqs r) = n div message_size p
    \<and> unat (br_bytes r) = n div message_size p * message_size p
    \<and> unat (br_bytes r) \<le> n \<and> n - unat (br_bytes r) < message_size p"
  using response_consumer.consume_counts [OF response_consumer_proto [OF assms(1)] assms(2,3)] .

subsection \<open>Properties\<close>

text \<open>
  A memcached request is the 25 bytes \<open>get \<key>\r\n\<close> with the key in 19 digits: it reads back as
  the thread's counter modulo one million, and the counter moves on by one.
\<close>

theorem ascii_request_carries_key:
  "\<exists>r digits. create_request Proto_ascii_mem d (Arg_mem k) = Inr ([r], Arg_mem (k + 1))
     \<and> r = char_bytes (''get '' @ digits @ CRLF) \<and> length r = 25 \<and> list_all is_digit digits
     \<and> digits_value digits = unat k mod 1000000"
proof -
  let ?key = "unat (k mod 1000000)"
  have key: "?key = unat k mod 1000000" by (simp add: unat_mod)
  have "?key < 10 ^ 19" unfolding key by (rule order_less_trans [of _ 1000000]) simp_all
  then have "length (show_padded 19 ?key) = 19" by (intro length_show_padded) simp_all
  then show ?thesis
    using key digits_value_padded [of 19 ?key] show_padded_digits [of 19 ?key]
    by (intro exI [of _ "char_bytes (''get '' @ show_padded 19 ?key @ CRLF)"] exI [of _ "show_padded 19 ?key"])
      (simp add: ascii_mem_create_request_def Let_def CRLF_def)
qed

text \<open>
  The echo protocol's argument round-trips: \<open>echo:<n>\<close> with \<open>n\<close> printed in decimal configures a
  message of exactly \<open>n\<close> bytes, every request sends that message, and each \<open>n\<close> response bytes count as
  one request; with \<open>n = 0\<close> every response is a division by zero.
\<close>

theorem echo_configuration:
  assumes "n < 2 ^ 31" and "m < 2 ^ 31"
  shows "\<exists>msg. init_app_proto (''echo:'' @ show_nat_aux n) = Inr (Some (Proto_echo msg)) \<and> length msg = n
    \<and> create_request (Proto_echo msg) d arg = Inr ([msg], arg)
    \<and> consume_response (Proto_echo msg) m =
        (if n = 0 then Inl Undefined
         else Inr \<lparr>br_bytes = word_of_nat (m div n * n), br_reqs = word_of_nat (m div n)\<rparr>)"
proof -
  have no_colon: "CHR '':'' \<notin> set (show_nat_aux n)"
    using show_nat_digits [of n] by (auto simp: list_all_iff is_digit_def)
  have nonempty: "show_nat_aux n \<noteq> []" using show_nat_head [of n] by auto
  have "next_tok colon (Some (''echo:'' @ show_nat_aux n)) = (Some ''echo'', Some (show_nat_aux n))"
    using strtok_token_sep [of "''echo''" colon "CHR '':''" "show_nat_aux n"] by (simp add: next_tok_def colon_def)
  then have "echo_init (''echo:'' @ show_nat_aux n) = Inr (Proto_echo (replicate n (of_char (CHR 0x23))))"
    by (simp only: echo_init_def Let_def prod.case next_tok_name [OF nonempty no_colon] option.case atoi_show [OF assms(1)])
      simp
  then have "init_app_proto (''echo:'' @ show_nat_aux n) = Inr (Some (Proto_echo (replicate n (of_char (CHR 0x23)))))"
    by (simp add: init_app_proto_def strncmp_eq_def)
  then show ?thesis
    by (intro exI [of _ "replicate n (of_char (CHR 0x23))"])
      (simp add: echo_create_request_def echo_consume_response_def Let_def)
qed

theorem echo_configuration_witness:
  "\<exists>msg. init_app_proto (''echo:'' @ show_nat_aux 64) = Inr (Some (Proto_echo msg)) \<and> length msg = 64"
  using echo_configuration [of 64 0] by auto

end
