(* ===== verification/Agent.thy ===== *)
theory Agent
  imports App_Proto
begin

text \<open>
  \<open>agent.c\<close> and \<open>args.c\<close>: the configuration, how it is parsed, and the functions the transport and the
  manager reach it through. \<open>getopt\<close> is modelled by what it delivers, the list of option letters with
  their arguments. \<open>None\<close> as a result of \<open>parse_arguments\<close> is the NULL it returns.
\<close>

subsection \<open>Data\<close>

datatype transport_protocol_type = TCP | R2P2

record host_tuple =
  ht_ip :: u32
  ht_port :: u16

definition MAX_TARGETS :: nat where "MAX_TARGETS = 4096"

record agent_config =
  cfg_thread_count :: int
  cfg_conn_count :: int
  cfg_targets :: "host_tuple list"
  cfg_atype :: agent_type
  cfg_tp_type :: transport_protocol_type
  cfg_idist :: "rand_gen option"
  cfg_app_proto :: "app_proto option"
  cfg_reference_ia_gen :: "rand_gen option"

text \<open>\<open>calloc\<close>: the first value of every enumeration. The reference generator is \<open>stats.c\<close>'s static variable.\<close>

definition zero_config :: agent_config where
  "zero_config = \<lparr>cfg_thread_count = 0, cfg_conn_count = 0, cfg_targets = [], cfg_atype = THROUGHPUT_AGENT,
     cfg_tp_type = TCP, cfg_idist = None, cfg_app_proto = None, cfg_reference_ia_gen = None\<rparr>"

subsection \<open>Targets\<close>

text \<open>\<open>inet_pton(AF_INET, ..)\<close>: four decimal numbers without leading zeros; the bytes in network order.\<close>

definition pton_octet :: "string \<Rightarrow> (nat \<times> string) option" where
  "pton_octet s =
     (let d = takeWhile is_digit s in
      if d = [] \<or> 3 < length d \<or> (1 < length d \<and> hd d = CHR ''0'') \<or> 255 < digits_value d then None
      else Some (digits_value d, dropWhile is_digit s))"

definition pton_dot :: "string \<Rightarrow> string option" where
  "pton_dot s = (case s of [] \<Rightarrow> None | c # r \<Rightarrow> if c = CHR ''.'' then Some r else None)"

definition inet_pton :: "string \<Rightarrow> u32 option" where
  "inet_pton s =
     Option.bind (pton_octet s) (\<lambda>(a, s1). Option.bind (pton_dot s1) (\<lambda>s2.
     Option.bind (pton_octet s2) (\<lambda>(b, s3). Option.bind (pton_dot s3) (\<lambda>s4.
     Option.bind (pton_octet s4) (\<lambda>(c, s5). Option.bind (pton_dot s5) (\<lambda>s6.
     Option.bind (pton_octet s6) (\<lambda>(d, s7).
     if s7 = [] then Some (word_of_nat (a + 256 * b + 65536 * c + 16777216 * d)) else None)))))))"

text \<open>
  One target \<open>ip:port\<close>. A malformed address leaves \<open>sa\<close> as the previous target set it; before the
  first target it is not initialised (\<open>None\<close>).
\<close>

definition parse_target :: "u32 option \<Rightarrow> string \<Rightarrow> (host_tuple \<times> u32 option) c_result" where
  "parse_target sa token1 =
     (let (ip, rest) = next_tok colon (Some token1);
          (port, _) = next_tok colon rest
      in case ip of
           None \<Rightarrow> Inl Undefined
         | Some t \<Rightarrow>
             let sa' = (case inet_pton t of None \<Rightarrow> sa | Some a \<Rightarrow> Some a)
             in case (sa', port) of
                  (Some a, Some p) \<Rightarrow> c_bind (atoi p) (\<lambda>v. Inr (\<lparr>ht_ip = a, ht_port = word_of_int v\<rparr>, sa'))
                | _ \<Rightarrow> Inl Undefined)"

fun parse_targets :: "string list \<Rightarrow> u32 option \<Rightarrow> host_tuple list \<Rightarrow> (host_tuple list \<times> u32 option) c_result" where
  "parse_targets [] sa ts = Inr (ts, sa)"
| "parse_targets (tok # toks) sa ts =
     c_bind (parse_target sa tok) (\<lambda>(t, sa').
     c_bind (c_assert (length ts + 1 < MAX_TARGETS)) (\<lambda>_. parse_targets toks sa' (ts @ [t])))"

subsection \<open>Options\<close>

definition parse_agent_type :: "int \<Rightarrow> agent_type option" where
  "parse_agent_type n =
     (if n = 0 then Some THROUGHPUT_AGENT
      else if n = 1 then Some LATENCY_AGENT
      else if n = 2 then Some SYMMETRIC_NIC_TIMESTAMP_AGENT
      else if n = 3 then Some SYMMETRIC_AGENT
      else None)"

text \<open>The static variable \<open>reference_ia_gen\<close> of \<open>stats.c\<close>.\<close>

definition init_reference_ia_dist :: "rand_gen option \<Rightarrow> agent_config \<Rightarrow> agent_config" where
  [simp]: "init_reference_ia_dist gen cfg = cfg\<lparr>cfg_reference_ia_gen := gen\<rparr>"

text \<open>
  The generator argument is parsed twice, and the second parse sees what the first left of the string.
\<close>

definition parse_ia :: "string \<Rightarrow> agent_config \<Rightarrow> agent_config option c_result" where
  "parse_ia optarg cfg =
     c_bind (init_rand optarg) (\<lambda>(idist, optarg').
     c_bind (init_rand optarg') (\<lambda>(ref, _).
     Inr (case idist of None \<Rightarrow> None
          | Some g \<Rightarrow> Some (init_reference_ia_dist ref (cfg\<lparr>cfg_idist := Some g\<rparr>)))))"

definition parse_option ::
  "char \<Rightarrow> string \<Rightarrow> agent_config \<times> u32 option \<Rightarrow> (agent_config \<times> u32 option) option c_result" where
  "parse_option c optarg s =
     (let cfg = fst s; sa = snd s in
      if c = CHR ''t'' then c_bind (atoi optarg) (\<lambda>n. Inr (Some (cfg\<lparr>cfg_thread_count := n\<rparr>, sa)))
      else if c = CHR ''s'' then
        c_bind (parse_targets (tokens '','' optarg) sa (cfg_targets cfg)) (\<lambda>(ts, sa').
        Inr (Some (cfg\<lparr>cfg_targets := ts\<rparr>, sa')))
      else if c = CHR ''c'' then c_bind (atoi optarg) (\<lambda>n. Inr (Some (cfg\<lparr>cfg_conn_count := n\<rparr>, sa)))
      else if c = CHR ''a'' then
        c_bind (atoi optarg) (\<lambda>n.
        Inr (case parse_agent_type n of None \<Rightarrow> None | Some a \<Rightarrow> Some (cfg\<lparr>cfg_atype := a\<rparr>, sa)))
      else if c = CHR ''p'' then
        Inr (if optarg = ''TCP'' then Some (cfg\<lparr>cfg_tp_type := TCP\<rparr>, sa)
             else if optarg = ''R2P2'' then Some (cfg\<lparr>cfg_tp_type := R2P2\<rparr>, sa)
             else None)
      else if c = CHR ''i'' then
        c_bind (parse_ia optarg cfg) (\<lambda>r. Inr (case r of None \<Rightarrow> None | Some cfg' \<Rightarrow> Some (cfg', sa)))
      else if c = CHR ''r'' then
        c_bind (init_app_proto optarg) (\<lambda>p.
        Inr (case p of None \<Rightarrow> None | Some ap \<Rightarrow> Some (cfg\<lparr>cfg_app_proto := Some ap\<rparr>, sa)))
      else Inl (Process_Exit 134))"

fun parse_options ::
  "(char \<times> string) list \<Rightarrow> agent_config \<times> u32 option \<Rightarrow> (agent_config \<times> u32 option) option c_result" where
  "parse_options [] s = Inr (Some s)"
| "parse_options ((c, optarg) # os) s =
     c_bind (parse_option c optarg s) (\<lambda>r.
     case r of None \<Rightarrow> Inr None | Some s' \<Rightarrow> parse_options os s')"

text \<open>\<open>init_tcp\<close>: the main function of each agent type.\<close>

datatype tcp_main = Throughput_main | Latency_main | Symmetric_nic_main | Symmetric_main

definition init_tcp :: "agent_type \<Rightarrow> tcp_main option" where
  "init_tcp atype =
     (case atype of
        THROUGHPUT_AGENT \<Rightarrow> Some Throughput_main
      | LATENCY_AGENT \<Rightarrow> Some Latency_main
      | SYMMETRIC_NIC_TIMESTAMP_AGENT \<Rightarrow> Some Symmetric_nic_main
      | SYMMETRIC_AGENT \<Rightarrow> Some Symmetric_main
      | AGENT_NR \<Rightarrow> None)"

text \<open>A transport is its table of main functions; there is one for TCP only.\<close>

record transport_protocol =
  tp_main :: "agent_type \<Rightarrow> tcp_main option"

definition init_transport_protocol :: "transport_protocol_type \<Rightarrow> transport_protocol option" where
  "init_transport_protocol tp_type = (if tp_type = TCP then Some \<lparr>tp_main = init_tcp\<rparr> else None)"

lemma init_transport_protocol_TCP [simp]:
  "init_transport_protocol TCP = Some \<lparr>tp_main = init_tcp\<rparr>" "init_transport_protocol t = None \<longleftrightarrow> t \<noteq> TCP"
  by (simp_all add: init_transport_protocol_def)

text \<open>The transport is initialised last.\<close>

definition parse_arguments :: "(char \<times> string) list \<Rightarrow> agent_config option c_result" where
  "parse_arguments os =
     c_bind (parse_options os (zero_config, None)) (\<lambda>r.
     Inr (case r of None \<Rightarrow> None
          | Some (cfg, _) \<Rightarrow> (if init_transport_protocol (cfg_tp_type cfg) = None then None else Some cfg)))"

subsection \<open>Access from the transport and the manager\<close>

text \<open>\<open>cfg\<close> is the static variable of \<open>agent.c\<close>.\<close>

definition get_conn_count :: "agent_config \<Rightarrow> int" where
  [simp]: "get_conn_count cfg = cfg_conn_count cfg"

definition get_thread_count :: "agent_config \<Rightarrow> int" where
  [simp]: "get_thread_count cfg = cfg_thread_count cfg"

definition get_target_count :: "agent_config \<Rightarrow> int" where
  [simp]: "get_target_count cfg = int (length (cfg_targets cfg))"

definition get_targets :: "agent_config \<Rightarrow> host_tuple list" where
  [simp]: "get_targets cfg = cfg_targets cfg"

definition get_agent_type :: "agent_config \<Rightarrow> agent_type" where
  [simp]: "get_agent_type cfg = cfg_atype cfg"

definition get_ia_gen :: "agent_config \<Rightarrow> rand_gen option" where
  [simp]: "get_ia_gen cfg = cfg_idist cfg"

text \<open>A generator that was never configured is a NULL pointer.\<close>

definition gen_ptr :: "rand_gen option \<Rightarrow> rand_gen c_result" where
  "gen_ptr g = (case g of None \<Rightarrow> Inl Undefined | Some r \<Rightarrow> Inr r)"

definition get_ia :: "agent_config \<Rightarrow> draws \<Rightarrow> int c_result" where
  "get_ia cfg d =
     c_bind (gen_ptr (cfg_idist cfg)) (\<lambda>g. c_bind (generate g d) (\<lambda>x. c_lround (x * Fin 1000)))"

definition set_reference_load :: "u32 \<Rightarrow> agent_config \<Rightarrow> agent_config c_result" where
  "set_reference_load load cfg =
     c_bind (gen_ptr (cfg_reference_ia_gen cfg)) (\<lambda>g.
     c_bind (set_avg g (Fin (10 ^ 6) / dbl_of_nat (unat load))) (\<lambda>g'.
     Inr (cfg\<lparr>cfg_reference_ia_gen := Some g'\<rparr>)))"

definition set_load :: "u32 \<Rightarrow> agent_config \<Rightarrow> agent_config c_result" where
  "set_load load cfg =
     c_bind (set_reference_load load cfg) (\<lambda>cfg1.
     let per_thread_load = dbl_of_nat (unat load) / dbl_of_int (cfg_thread_count cfg1)
     in c_bind (gen_ptr (cfg_idist cfg1)) (\<lambda>g.
        c_bind (set_avg g (Fin (10 ^ 6) / per_thread_load)) (\<lambda>g'.
        Inr (cfg1\<lparr>cfg_idist := Some g'\<rparr>))))"

definition prepare_request :: "agent_config \<Rightarrow> draws \<Rightarrow> thread_arg \<Rightarrow> (request \<times> thread_arg) c_result" where
  "prepare_request cfg d arg =
     (case cfg_app_proto cfg of None \<Rightarrow> Inl Undefined | Some p \<Rightarrow> create_request p d arg)"

definition process_response :: "agent_config \<Rightarrow> nat \<Rightarrow> byte_req_pair c_result" where
  "process_response cfg n =
     (case cfg_app_proto cfg of None \<Rightarrow> Inl Undefined | Some p \<Rightarrow> consume_response p n)"

subsection \<open>Printing targets\<close>

definition show_ip :: "nat \<Rightarrow> nat \<Rightarrow> nat \<Rightarrow> nat \<Rightarrow> string" where
  "show_ip a b c d = show_nat_aux a @ CHR ''.'' # show_nat_aux b @ CHR ''.'' # show_nat_aux c @ CHR ''.'' # show_nat_aux d"

fun show_target :: "(nat \<times> nat \<times> nat \<times> nat) \<times> nat \<Rightarrow> string" where
  "show_target ((a, b, c, d), port) = show_ip a b c d @ CHR '':'' # show_nat_aux port"

fun show_targets :: "((nat \<times> nat \<times> nat \<times> nat) \<times> nat) list \<Rightarrow> string" where
  "show_targets [] = []"
| "show_targets [t] = show_target t"
| "show_targets (t # ts) = show_target t @ CHR '','' # show_targets ts"

fun target_ok :: "(nat \<times> nat \<times> nat \<times> nat) \<times> nat \<Rightarrow> bool" where
  "target_ok ((a, b, c, d), port) \<longleftrightarrow> a < 256 \<and> b < 256 \<and> c < 256 \<and> d < 256 \<and> port < 65536"

fun target_of :: "(nat \<times> nat \<times> nat \<times> nat) \<times> nat \<Rightarrow> host_tuple" where
  "target_of ((a, b, c, d), port) =
     \<lparr>ht_ip = word_of_nat (a + 256 * b + 65536 * c + 16777216 * d), ht_port = word_of_nat port\<rparr>"

lemma show_nat_no_leading_zero: "10 \<le> n \<Longrightarrow> hd (show_nat_aux n) \<noteq> CHR ''0''"
proof (induction n rule: show_nat_aux.induct)
  case (1 n)
  then have step: "show_nat_aux n = show_nat_aux (n div 10) @ [digit_char (n mod 10)]"
    by (subst show_nat_aux.simps) simp
  have "hd (show_nat_aux n) = hd (show_nat_aux (n div 10))"
    using show_nat_head [of "n div 10"] unfolding step by auto
  moreover have "hd (show_nat_aux (n div 10)) \<noteq> CHR ''0''"
  proof (cases "10 \<le> n div 10")
    case True
    then show ?thesis using 1 by simp
  next
    case False
    then have "show_nat_aux (n div 10) = [digit_char (n div 10)]" by (subst show_nat_aux.simps) simp
    moreover have "digit_value (digit_char (n div 10)) = n div 10" using False by simp
    moreover have "digit_value (CHR ''0'') = 0" by (simp add: digit_value_def)
    ultimately show ?thesis using "1.prems" by (metis div_greater_zero_iff list.sel(1) not_less_iff_gr_or_eq zero_less_numeral)
  qed
  ultimately show ?case by simp
qed

lemma pton_octet_show:
  assumes "n < 256" and "r = [] \<or> \<not> is_digit (hd r)"
  shows "pton_octet (show_nat_aux n @ r) = Some (n, r)"
proof -
  have digits: "\<forall>c \<in> set (show_nat_aux n). is_digit c" using show_nat_digits [of n] by (simp add: list_all_iff)
  have take: "takeWhile is_digit (show_nat_aux n @ r) = show_nat_aux n"
    and drop: "dropWhile is_digit (show_nat_aux n @ r) = r"
    using digits assms(2) by (cases r; simp add: takeWhile_append2)+
  have "length (show_nat_aux n) \<le> Suc 2" using assms(1) by (intro length_show_nat) simp
  moreover have "show_nat_aux n \<noteq> []" using show_nat_head [of n] by auto
  moreover have "\<not> (1 < length (show_nat_aux n) \<and> hd (show_nat_aux n) = CHR ''0'')"
  proof (cases "10 \<le> n")
    case True
    then show ?thesis using show_nat_no_leading_zero by blast
  next
    case False
    then have "show_nat_aux n = [digit_char n]" by (subst show_nat_aux.simps) simp
    then show ?thesis by simp
  qed
  ultimately show ?thesis
    using assms(1) digits_value_show [of n] unfolding pton_octet_def take drop Let_def by auto
qed

lemma inet_pton_show:
  assumes "a < 256" and "b < 256" and "c < 256" and "d < 256"
  shows "inet_pton (show_ip a b c d) = Some (word_of_nat (a + 256 * b + 65536 * c + 16777216 * d))"
proof -
  have "\<not> is_digit (CHR ''.'')" by (simp add: is_digit_def)
  then show ?thesis
    using assms pton_octet_show [of d "[]"]
    by (simp add: inet_pton_def show_ip_def pton_octet_show pton_dot_def)
qed

lemma show_nat_chars: "c \<in> set (show_nat_aux n) \<Longrightarrow> is_digit c"
  using show_nat_digits [of n] by (simp add: list_all_iff)

lemma show_ip_no_sep: "CHR '':'' \<notin> set (show_ip a b c d)" "CHR '','' \<notin> set (show_ip a b c d)"
  "show_ip a b c d \<noteq> []"
  by (auto simp: show_ip_def is_digit_def dest!: show_nat_chars)

lemma show_target_no_comma: "CHR '','' \<notin> set (show_target t)" "show_target t \<noteq> []"
  by (cases t rule: show_target.cases; auto simp: show_ip_no_sep is_digit_def dest!: show_nat_chars)+

lemma tokens_show_targets: "tokens '','' (show_targets ts) = map show_target ts"
proof (induction ts rule: show_targets.induct)
  case (2 t)
  have "strtok '','' (show_target t) = Some (show_target t, [])"
    by (rule strtok_token) (use show_target_no_comma [of t] in auto)
  then show ?case by (simp add: tokens.simps [of _ "show_target t"])
next
  case (3 t u us)
  have "strtok '','' (show_target t @ CHR '','' # show_targets (u # us)) = Some (show_target t, show_targets (u # us))"
    by (rule strtok_token_sep) (use show_target_no_comma [of t] in auto)
  then show ?case using 3 by (simp add: tokens.simps [of _ "show_target t @ CHR '','' # show_targets (u # us)"])
qed simp

lemma parse_target_show:
  assumes "target_ok t"
  shows "\<exists>ip. parse_target sa (show_target t) = Inr (target_of t, Some ip)"
proof -
  obtain a b c d port where t: "t = ((a, b, c, d), port)" by (cases t rule: show_target.cases)
  have port_ok: "CHR '':'' \<notin> set (show_nat_aux port)" "show_nat_aux port \<noteq> []"
    using show_nat_head [of port] by (auto simp: is_digit_def dest!: show_nat_chars)
  have "next_tok colon (Some (show_target t)) = (Some (show_ip a b c d), Some (show_nat_aux port))"
    using strtok_token_sep [of "show_ip a b c d" colon "CHR '':''" "show_nat_aux port"] show_ip_no_sep [of a b c d]
    by (simp add: t next_tok_def colon_def)
  moreover have "next_tok colon (Some (show_nat_aux port)) = (Some (show_nat_aux port), Some [])"
    by (rule next_tok_name [OF port_ok(2,1)])
  moreover have "atoi (show_nat_aux port) = Inr (int port)" using assms by (intro atoi_show) (simp add: t)
  ultimately show ?thesis
    using assms inet_pton_show [of a b c d] by (simp add: t parse_target_def Let_def)
qed

lemma parse_targets_show:
  assumes "list_all target_ok ts" and "length done + length ts < MAX_TARGETS"
  shows "\<exists>sa'. parse_targets (map show_target ts) sa done = Inr (done @ map target_of ts, sa')"
  using assms
proof (induction ts arbitrary: sa "done")
  case (Cons t ts)
  then obtain ip where "parse_target sa (show_target t) = Inr (target_of t, Some ip)"
    using parse_target_show [of t sa] by auto
  then show ?case using Cons.IH [of "done @ [target_of t]" "Some ip"] Cons.prems by simp
qed simp

lemma parse_targets_overflow:
  assumes "list_all target_ok ts" and "MAX_TARGETS \<le> length done + length ts" and "length done < MAX_TARGETS"
  shows "parse_targets (map show_target ts) sa done = Inl Assertion_Failed"
  using assms
proof (induction ts arbitrary: sa "done")
  case (Cons t ts)
  then obtain ip where t: "parse_target sa (show_target t) = Inr (target_of t, Some ip)"
    using parse_target_show [of t sa] by auto
  show ?case
  proof (cases "length done + 1 < MAX_TARGETS")
    case True
    then show ?thesis using t Cons.IH [of "done @ [target_of t]" "Some ip"] Cons.prems by simp
  next
    case False
    then show ?thesis using t by simp
  qed
qed simp

subsection \<open>Properties\<close>

text \<open>
  C27. The target list round-trips: a list of addresses and ports printed as \<open>ip:port,ip:port\<close> is
  parsed back to exactly these targets, in order and with the addresses in network byte order, if
  there are fewer than 4096 of them; otherwise the agent stops with an assertion, before any write
  outside the array.
\<close>

theorem targets_roundtrip:
  assumes "list_all target_ok ts"
  shows "parse_arguments [(CHR ''s'', show_targets ts)] =
    (if length ts < MAX_TARGETS then Inr (Some (zero_config\<lparr>cfg_targets := map target_of ts\<rparr>))
     else Inl Assertion_Failed)"
proof (cases "length ts < MAX_TARGETS")
  case True
  obtain sa' where "parse_targets (map show_target ts) None [] = Inr (map target_of ts, sa')"
    using parse_targets_show [OF assms, of "[]" None] True by auto
  then show ?thesis
    using True by (simp add: parse_arguments_def parse_option_def Let_def tokens_show_targets zero_config_def)
next
  case False
  then have "parse_targets (map show_target ts) None [] = Inl Assertion_Failed"
    using parse_targets_overflow [OF assms, of "[]" None] by (simp add: MAX_TARGETS_def)
  then show ?thesis
    using False by (simp add: parse_arguments_def parse_option_def Let_def tokens_show_targets zero_config_def)
qed

theorem targets_roundtrip_witness:
  "parse_arguments [(CHR ''s'', show_targets [((10, 90, 44, 200), 5001), ((127, 0, 0, 1), 80)])] =
     Inr (Some (zero_config\<lparr>cfg_targets := [\<lparr>ht_ip = 3358349834, ht_port = 5001\<rparr>, \<lparr>ht_ip = 16777343, ht_port = 80\<rparr>]\<rparr>))"
  by (subst targets_roundtrip) (simp_all add: MAX_TARGETS_def)

text \<open>
  C28. \<open>set_load\<close> splits the load evenly: with \<open>t\<close> threads and \<open>load\<close> requests per second, a fixed
  generator makes every thread wait \<open>t * 10\<^sup>9 / load\<close> nanoseconds between requests (rounded), an
  exponential one \<open>- ln u\<close> times that, and the reference generator gets the average of the whole agent,
  \<open>10\<^sup>6 / load\<close> microseconds.
\<close>

theorem set_load_splits_load:
  assumes "0 < load" and "0 < cfg_thread_count cfg"
    and "cfg_idist cfg = Some g" and "cfg_reference_ia_gen cfg = Some g'"
    and "g = Fixed_gen a \<or> g = Exp_gen a" and "g' = Fixed_gen b \<or> g' = Exp_gen b"
    and "uniform_draw d = Fin u" and "0 < u"
    and gap: "gap = real_of_int (cfg_thread_count cfg) * 10 ^ 9 / real (unat load) * (if g = Fixed_gen a then 1 else - ln u)"
    and "\<bar>gap\<bar> < 2 ^ 62"
  shows "\<exists>cfg'. set_load load cfg = Inr cfg' \<and> get_ia cfg' d = Inr (round_half_away gap)
    \<and> cfg_reference_ia_gen cfg' = Some (if g' = Fixed_gen b then Fixed_gen (Fin (10 ^ 6 / real (unat load)))
         else Exp_gen (Fin (real (unat load) / 10 ^ 6)))"
proof -
  have "unat load \<noteq> 0" using assms(1) by (simp add: word_gt_0 unat_eq_0)
  then have load: "real (unat load) \<noteq> 0" by (simp only: of_nat_eq_0_iff not_False_eq_True)
  have t: "real_of_int (cfg_thread_count cfg) \<noteq> 0" using assms(2) by simp
  have range: "- (2 ^ 63) \<le> round_half_away gap" "round_half_away gap < 2 ^ 63"
    using assms(10) by (auto simp: round_half_away_def le_floor_iff floor_less_iff le_ceiling_iff ceiling_less_iff)
  have avg: "Fin (10 ^ 6) / (dbl_of_nat (unat load) / dbl_of_int (cfg_thread_count cfg))
      = Fin (10 ^ 6 * real_of_int (cfg_thread_count cfg) / real (unat load))"
    using load t by simp
  show ?thesis
    using assms(3-8) load t range
    unfolding set_load_def set_reference_load_def get_ia_def gen_ptr_def
    by (auto simp: avg gap exp_inv_cdf_def field_simps)
qed

theorem set_load_splits_load_witness:
  "\<exists>cfg'. set_load 1000 (zero_config\<lparr>cfg_thread_count := 4, cfg_idist := Some (Fixed_gen (Fin 0)),
        cfg_reference_ia_gen := Some (Fixed_gen (Fin 0))\<rparr>) = Inr cfg'
     \<and> get_ia cfg' \<lparr>uniform_draw = Fin (1/2), normal_draw = Fin 0\<rparr> = Inr 4000000"
proof -
  have "round_half_away (real_of_int 4000000) = 4000000" by (rule round_half_away_of_int)
  then show ?thesis
    using set_load_splits_load [of 1000 "zero_config\<lparr>cfg_thread_count := 4, cfg_idist := Some (Fixed_gen (Fin 0)),
        cfg_reference_ia_gen := Some (Fixed_gen (Fin 0))\<rparr>" "Fixed_gen (Fin 0)" "Fixed_gen (Fin 0)" "Fin 0" "Fin 0"
        "\<lparr>uniform_draw = Fin (1/2), normal_draw = Fin 0\<rparr>" "1/2" 4000000]
    by auto
qed

text \<open>
  C35. Only \<open>fixed\<close>, \<open>exp\<close> and the presets survive the command line: for every other generator with
  parameters the second parse of the argument dereferences NULL, so \<open>parse_arguments\<close> crashes.
\<close>

theorem parametric_ia_crashes:
  assumes "init_rand (name @ CHR '':'' # rest) = Inr (Some g, s')" and "name \<noteq> []" and "CHR '':'' \<notin> set name"
    and "\<forall>a. g \<noteq> Fixed_gen a \<and> g \<noteq> Exp_gen a"
  shows "parse_arguments [(CHR ''i'', name @ CHR '':'' # rest)] = Inl Undefined"
proof -
  have "init_rand s' = Inl Undefined"
    using init_rand_again [OF assms(1-3)] assms(4) by (cases g) auto
  then show ?thesis
    using assms(1) by (simp add: parse_arguments_def parse_option_def parse_ia_def Let_def)
qed

theorem parametric_ia_crashes_witness:
  "parse_arguments [(CHR ''i'', ''bimodal'' @ CHR '':'' # ''1:2:0.5'')] = Inl Undefined"
proof -
  have "\<exists>p s'. init_rand (''bimodal'' @ CHR '':'' # ''1:2:0.5'') = Inr (Some (Bimodal_gen p), s')"
    by (simp add: init_rand_def strncmp_eq_def parsed_def parse_param_3_def Let_def next_tok_def strtok_def
        colon_def atof_tok_def)
  then obtain p s' where "init_rand (''bimodal'' @ CHR '':'' # ''1:2:0.5'') = Inr (Some (Bimodal_gen p), s')" by blast
  from parametric_ia_crashes [OF this] show ?thesis by simp
qed

end
