(* ===== verification/IA_Check.thy ===== *)
theory IA_Check
  imports KS_Test Rand_Gen
begin

text \<open>
  The quality checks of \<open>stats.c\<close>: \<open>collect_reference_ia\<close> and \<open>check_ia\<close>, which compares the
  inter-transmission times the agent achieved with the distribution it was asked for, and
  \<open>check_iid\<close>, the correlation of successive latencies.
\<close>

subsection \<open>Inter-arrival times\<close>

text \<open>\<open>ds\<close> are the numbers drawn, one per reference sample.\<close>

fun collect_reference_loop :: "rand_gen \<Rightarrow> draws list \<Rightarrow> u64 list c_result" where
  "collect_reference_loop gen [] = Inr []"
| "collect_reference_loop gen (d # ds) =
     c_bind (generate gen d) (\<lambda>x.
     c_bind (c_lround (x * Fin 1000)) (\<lambda>v.
     c_bind (collect_reference_loop gen ds) (\<lambda>vs. Inr (word_of_int v # vs))))"

text \<open>The argument \<open>gen\<close> is not used: the samples are drawn from the static variable \<open>reference_ia_gen\<close>.\<close>

definition collect_reference_ia :: "rand_gen option \<Rightarrow> rand_gen \<Rightarrow> draws list \<Rightarrow> stats_state \<Rightarrow> stats_state c_result" where
  "collect_reference_ia gen reference_ia_gen ds st =
     c_bind (collect_reference_loop reference_ia_gen ds) (\<lambda>ref. Inr (st\<lparr>reference_ia := ref\<rparr>))"

text \<open>The copy loop of \<open>check_ia\<close>: the filled part of the local array \<open>data\<close>, which has room for \<open>32768\<close> times.\<close>

definition tx_used :: "tx_samples \<Rightarrow> nat" where
  "tx_used t = (if MAX_PER_THREAD_TX_SAMPLES < unat (txs_count t) then MAX_PER_THREAD_TX_SAMPLES
                else unat (txs_count t))"

definition tx_room :: nat where "tx_room = MAX_THREADS * MAX_PER_THREAD_TX_SAMPLES"

fun collect_tx :: "tx_samples list \<Rightarrow> timespec list \<Rightarrow> timespec list c_result" where
  "collect_tx [] data = Inr data"
| "collect_tx (t # ts) data =
     (if length data + tx_used t \<le> tx_room then collect_tx ts (data @ take (tx_used t) (txs_samples t))
      else Inl Undefined)"

fun inter_tx :: "timespec list \<Rightarrow> u64 list c_result" where
  "inter_tx (a # b # ts) =
     (let (ret, diff) = timespec_diff (Some b) (Some a) in
      case diff of
        None \<Rightarrow> Inl Assertion_Failed
      | Some d \<Rightarrow>
          c_bind (c_assert (ret = 0)) (\<lambda>_.
          c_bind (c_assert (tv_sec d = 0)) (\<lambda>_.
          c_bind (inter_tx (b # ts)) (\<lambda>xs. Inr (word_of_int (tv_nsec d) # xs)))))"
| "inter_tx _ = Inr []"

text \<open>
  With no time at all, \<open>ks\<close> is called with the length -1, which \<open>qsort\<close> takes for a huge one.
\<close>

definition check_ia :: "stats_state \<Rightarrow> (int \<times> stats_state) c_result" where
  "check_ia st =
     c_bind (collect_tx (all_tx st) []) (\<lambda>data.
     let copy_idx = length data in
     c_bind (c_assert (copy_idx \<le> tx_room)) (\<lambda>_.
     c_bind (inter_tx (qsort timespec_cmp data)) (\<lambda>collected_ia.
     if copy_idx = 0 then Inl Undefined
     else
       let (ks_result, ref, _) = ks (reference_ia st) collected_ia;
           collected_ia_size = dbl_of_nat (copy_idx - 1);
           val = ca * c_sqrt ((dbl_of_nat REFERENCE_IA_SIZE + collected_ia_size)
                              / (dbl_of_nat REFERENCE_IA_SIZE * collected_ia_size))
       in Inr (if ks_result < val then 1 else 0, st\<lparr>reference_ia := ref\<rparr>))))"

subsection \<open>Independence\<close>

text \<open>
  \<open>check_iid\<close>: the Pearson correlation of the latencies and their successors in transmission order.
  Sums and squares are unsigned 64-bit numbers. \<open>size - 1\<close> is unsigned: with no sample the loops run
  over the whole address space.
\<close>

definition u64_dbl :: "u64 \<Rightarrow> dbl" where "u64_dbl w = dbl_of_nat (unat w)"

definition pearson :: "u64 list \<Rightarrow> dbl" where
  "pearson xs =
     (let n = length xs; m = dbl_of_nat (n - 1);
          inner = take (n - 2) (drop 1 xs);
          sum = (\<Sum>x\<leftarrow>inner. x);
          sum_of_squares = (\<Sum>x\<leftarrow>inner. x * x);
          first = xs ! 0; lst = xs ! (n - 1);
          avg_x = u64_dbl (sum + first) / m;
          avg_y = u64_dbl (sum + lst) / m;
          avg_sqr_x = u64_dbl (sum_of_squares + first * first) / m;
          avg_sqr_y = u64_dbl (sum_of_squares + lst * lst) / m;
          sx = c_sqrt (avg_sqr_x - avg_x * avg_x);
          sy = c_sqrt (avg_sqr_y - avg_y * avg_y);
          cov_sum = foldl (\<lambda>c i. c + (u64_dbl (xs ! i) - avg_x) * (u64_dbl (xs ! (i + 1)) - avg_y)) (Fin 0) [0 ..< n - 1];
          cov = cov_sum / m
      in cov / (sx * sy))"

definition check_iid :: "latency_stats \<Rightarrow> (dbl \<times> latency_stats) c_result" where
  "check_iid lt =
     (let n = unat (lt_size lt) in
      if n = 0 \<or> length (lt_samples lt) < n then Inl Undefined
      else
        let smp = qsort sample_cmp_tx (take n (lt_samples lt)) @ drop n (lt_samples lt)
        in Inr (pearson (map ls_nsec (take n smp)), lt\<lparr>lt_samples := smp\<rparr>))"

subsection \<open>The collected times\<close>

definition recorded_tx :: "stats_state \<Rightarrow> timespec list" where
  "recorded_tx st = concat (map (\<lambda>t. take (tx_used t) (txs_samples t)) (all_tx st))"

lemma tx_used_log:
  assumes "length xs \<le> MAX_PER_THREAD_TX_SAMPLES"
  shows "tx_wf (foldl tx_push zero_tx xs)"
    and "take (tx_used (foldl tx_push zero_tx xs)) (txs_samples (foldl tx_push zero_tx xs)) = xs"
proof -
  have ok: "tx_wf zero_tx" "unat (txs_count zero_tx) = 0" "length xs < 2 ^ 32"
    using assms by (simp_all add: tx_wf_def zero_tx_def stats_sizes)
  show "tx_wf (foldl tx_push zero_tx xs)" by (rule tx_ring.run_ok [OF ok])
  show "take (tx_used (foldl tx_push zero_tx xs)) (txs_samples (foldl tx_push zero_tx xs)) = xs"
    using tx_ring.run_prefix [OF ok assms] tx_ring.run_count [OF ok] assms
    by (simp add: tx_used_def)
qed

lemma collect_tx_ok:
  assumes "\<forall>t \<in> set ts. tx_wf t"
    and "length data + length (concat (map (\<lambda>t. take (tx_used t) (txs_samples t)) ts)) \<le> tx_room"
  shows "collect_tx ts data = Inr (data @ concat (map (\<lambda>t. take (tx_used t) (txs_samples t)) ts))"
  using assms
proof (induction ts arbitrary: data)
  case (Cons t ts)
  have "tx_used t \<le> length (txs_samples t)"
    using Cons.prems(1) by (auto simp: tx_used_def tx_wf_def)
  with Cons show ?case by simp
qed simp

fun gaps :: "timespec list \<Rightarrow> int list" where
  "gaps (a # b # ts) = (timespec_ns b - timespec_ns a) # gaps (b # ts)"
| "gaps _ = []"

lemma length_gaps: "length (gaps ts) = length ts - 1"
  by (induction ts rule: gaps.induct) simp_all

lemma gaps_nonneg:
  "sorted ts \<Longrightarrow> \<forall>t \<in> set ts. timespec_ok t \<Longrightarrow> \<forall>g \<in> set (gaps ts). 0 \<le> g"
  by (induction ts rule: gaps.induct) (simp_all add: timespec_ns_mono)

lemma inter_tx_step:
  assumes "timespec_ok a" and "timespec_ok b" and "a \<le> b" and "0 < tv_sec a"
  shows "\<exists>d. timespec_diff (Some b) (Some a) = (0, Some d) \<and> timespec_ok d
    \<and> timespec_ns d = timespec_ns b - timespec_ns a
    \<and> (tv_sec d = 0 \<longleftrightarrow> timespec_ns b - timespec_ns a < 10 ^ 9)
    \<and> (tv_sec d = 0 \<longrightarrow> tv_nsec d = timespec_ns b - timespec_ns a)"
proof -
  have "0 < tv_sec b" using assms(3,4) by (auto simp: less_eq_timespec_def)
  then obtain d where d: "timespec_diff (Some b) (Some a) = (0, Some d)" using assms(4) by fastforce
  note ns = timespec_diff_ns [OF d] and ok = timespec_diff_ok [OF d assms(2,1)]
  have "0 \<le> timespec_ns d" using ns assms timespec_ns_mono [of a b] by simp
  then have "tv_sec d = 0 \<longleftrightarrow> timespec_ns d < 10 ^ 9"
    using ok timespec_ok_sec_nonneg [OF ok] by (auto simp: timespec_ns_def timespec_ok_def)
  moreover have "tv_sec d = 0 \<longrightarrow> tv_nsec d = timespec_ns d" by (simp add: timespec_ns_def)
  ultimately show ?thesis using d ns ok by auto
qed

lemma inter_tx_eq:
  assumes "sorted ts" and "\<forall>t \<in> set ts. timespec_ok t \<and> 0 < tv_sec t"
  shows "inter_tx ts = (if \<forall>g \<in> set (gaps ts). g < 10 ^ 9 then Inr (map word_of_int (gaps ts))
    else Inl Assertion_Failed)"
  using assms
proof (induction ts rule: gaps.induct)
  case (1 a b ts)
  then obtain d where d: "timespec_diff (Some b) (Some a) = (0, Some d)"
    "tv_sec d = 0 \<longleftrightarrow> timespec_ns b - timespec_ns a < 10 ^ 9"
    "tv_sec d = 0 \<longrightarrow> tv_nsec d = timespec_ns b - timespec_ns a"
    using inter_tx_step [of a b] by auto
  have "inter_tx (b # ts) = (if \<forall>g \<in> set (gaps (b # ts)). g < 10 ^ 9 then Inr (map word_of_int (gaps (b # ts)))
    else Inl Assertion_Failed)"
    using 1 by simp
  then show ?case
    using d(2,3) unfolding inter_tx.simps d(1) by (cases "tv_sec d = 0") auto
qed simp_all

text \<open>Times a clock can have returned during one run: normalised, after 1970, within 68 years of each other.\<close>

definition clock_times :: "timespec list \<Rightarrow> bool" where
  "clock_times ts \<longleftrightarrow> (\<forall>t \<in> set ts. timespec_ok t \<and> 0 < tv_sec t) \<and>
     (\<forall>s \<in> set ts. \<forall>t \<in> set ts. \<bar>tv_sec s - tv_sec t\<bar> < 2 ^ 31)"

lemma qsort_clock_times:
  assumes "clock_times ts"
  shows "qsort timespec_cmp ts = sort ts"
proof -
  have "compares_key_on (set ts) (\<lambda>t. t) timespec_cmp"
    using assms by (auto simp: compares_key_on_def clock_times_def timespec_cmp_le)
  from qs.map_key_sort_by [OF this] show ?thesis by simp
qed

lemma close_nats: "m < 10 ^ 9 \<Longrightarrow> n < 10 ^ 9 \<Longrightarrow> \<bar>int m - int n\<bar> < 2 ^ 31"
  by simp

lemma close_gaps:
  assumes "\<forall>g \<in> set gs. 0 \<le> g \<and> g < 10 ^ 9"
  shows "close_values (map word_of_int gs)"
proof -
  have "unat (word_of_int g :: u64) < 10 ^ 9" if "g \<in> set gs" for g
  proof -
    have g: "0 \<le> g" "g < 10 ^ 9" using that assms by blast+
    then have "unat (word_of_int g :: u64) = nat g" by (intro unat_word_of_int_u64) simp_all
    with g show ?thesis by simp
  qed
  then have small: "x \<in> set (map word_of_int gs) \<Longrightarrow> unat (x :: u64) < 10 ^ 9" for x by auto
  have "\<bar>int (unat x) - int (unat y)\<bar> < 2 ^ 31"
    if "x \<in> set (map word_of_int gs)" "y \<in> set (map word_of_int gs)" for x y :: u64
    by (rule close_nats [OF small [OF that(1)] small [OF that(2)]])
  then show ?thesis unfolding close_values_def by blast
qed

definition ia_threshold :: "nat \<Rightarrow> real" where
  "ia_threshold n = 1.858 * sqrt ((8192 + real n) / (8192 * real n))"

lemma ia_threshold_dbl:
  "0 < n \<Longrightarrow> ca * c_sqrt ((dbl_of_nat REFERENCE_IA_SIZE + dbl_of_nat n) / (dbl_of_nat REFERENCE_IA_SIZE * dbl_of_nat n))
     = Fin (ia_threshold n)"
  by (simp add: ca_def REFERENCE_IA_SIZE_def ia_threshold_def not_less)

lemma ia_threshold_0:
  "ca * c_sqrt ((dbl_of_nat REFERENCE_IA_SIZE + dbl_of_nat 0) / (dbl_of_nat REFERENCE_IA_SIZE * dbl_of_nat 0)) = PInf"
  by (simp add: ca_def REFERENCE_IA_SIZE_def inf_of_sign_def times_dbl_def)

lemma check_ia_eq:
  assumes "\<forall>t \<in> set (all_tx st). tx_wf t" and "length (recorded_tx st) \<le> tx_room" and "clock_times (recorded_tx st)"
    and "recorded_tx st \<noteq> []"
  shows "check_ia st =
    (if \<forall>g \<in> set (gaps (sort (recorded_tx st))). g < 10 ^ 9
     then Inr (if fst (ks (reference_ia st) (map word_of_int (gaps (sort (recorded_tx st)))))
          < ca * c_sqrt ((dbl_of_nat REFERENCE_IA_SIZE + dbl_of_nat (length (recorded_tx st) - 1))
              / (dbl_of_nat REFERENCE_IA_SIZE * dbl_of_nat (length (recorded_tx st) - 1))) then 1 else 0,
        st\<lparr>reference_ia := fst (snd (ks (reference_ia st) (map word_of_int (gaps (sort (recorded_tx st))))))\<rparr>)
     else Inl Assertion_Failed)"
proof -
  have data: "collect_tx (all_tx st) [] = Inr (recorded_tx st)"
    using collect_tx_ok [OF assms(1), of "[]"] assms(2) by (simp add: recorded_tx_def)
  have "\<forall>t \<in> set (sort (recorded_tx st)). timespec_ok t \<and> 0 < tv_sec t"
    using assms(3) by (simp add: clock_times_def)
  note inter = inter_tx_eq [OF sorted_sort this]
  show ?thesis
    unfolding check_ia_def data c_bind_Inr Let_def qsort_clock_times [OF assms(3)] inter
    using assms(2,4) by (simp add: case_prod_unfold)
qed

text \<open>The value it computes, and how it bounds the statistic.\<close>

lemma check_ia_value:
  assumes "\<forall>t \<in> set (all_tx st). tx_wf t" and "length (recorded_tx st) \<le> tx_room" and "clock_times (recorded_tx st)"
    and "2 \<le> length (recorded_tx st)" and "\<forall>g \<in> set (gaps (sort (recorded_tx st))). g < 10 ^ 9"
    and "close_values (reference_ia st)" and "reference_ia st \<noteq> []"
  defines "gs \<equiv> map word_of_int (gaps (sort (recorded_tx st)))"
  defines "distance \<equiv> ks_real (sort (reference_ia st)) (sort gs) 0 0 0"
  shows "check_ia st = Inr (if distance < ia_threshold (length (recorded_tx st) - 1) then 1 else 0,
      st\<lparr>reference_ia := sort (reference_ia st)\<rparr>)"
    and "ks_statistic (reference_ia st) gs \<le> distance"
proof -
  let ?n = "length (recorded_tx st) - 1"
  have ok: "\<forall>t \<in> set (sort (recorded_tx st)). timespec_ok t" using assms(3) by (simp add: clock_times_def)
  have "close_values gs" unfolding gs_def using assms(5) gaps_nonneg [OF sorted_sort ok] by (intro close_gaps) blast
  have len: "length gs = ?n" by (simp add: gs_def length_gaps)
  then have "gs \<noteq> []" "0 < ?n" using assms(4) by auto
  from ks_real_sorted_bounds [OF assms(7) \<open>gs \<noteq> []\<close>]
  show "ks_statistic (reference_ia st) gs \<le> distance" by (simp add: distance_def)
  have ks: "fst (ks (reference_ia st) gs) = Fin distance"
    "fst (snd (ks (reference_ia st) gs)) = sort (reference_ia st)"
    using assms(6) \<open>close_values gs\<close> by (simp_all add: fst_ks qsort_long distance_def) (simp add: ks_def Let_def qsort_long)
  have "recorded_tx st \<noteq> []" using assms(4) by auto
  note eq = check_ia_eq [OF assms(1-3) this, folded gs_def, unfolded ks ia_threshold_dbl [OF \<open>0 < ?n\<close>]]
  show "check_ia st = Inr (if distance < ia_threshold ?n then 1 else 0, st\<lparr>reference_ia := sort (reference_ia st)\<rparr>)"
    unfolding eq using assms(5) by simp
qed

subsection \<open>Properties\<close>

text \<open>
  C29. \<open>check_ia\<close> is sound: for transmit times of a run without a gap of a second, it succeeds, sorts the
  reference samples, and answers 1 only if the Kolmogorov-Smirnov statistic of the reference samples
  and the gaps between successive transmissions of all threads is below the critical value.
\<close>

theorem check_ia_sound:
  assumes "\<forall>t \<in> set (all_tx st). tx_wf t" and "length (recorded_tx st) \<le> tx_room" and "clock_times (recorded_tx st)"
    and "2 \<le> length (recorded_tx st)" and "\<forall>g \<in> set (gaps (sort (recorded_tx st))). g < 10 ^ 9"
    and "close_values (reference_ia st)" and "reference_ia st \<noteq> []"
  shows "\<exists>r. check_ia st = Inr (r, st\<lparr>reference_ia := sort (reference_ia st)\<rparr>) \<and>
    (r = 1 \<longrightarrow> ks_statistic (reference_ia st) (map word_of_int (gaps (sort (recorded_tx st))))
       < ia_threshold (length (recorded_tx st) - 1))"
  using check_ia_value [OF assms] by (auto split: if_splits)

definition ia_example :: stats_state where
  "ia_example = \<lparr>all_stats = [], all_tx = [foldl tx_push zero_tx [Timespec 5 10, Timespec 5 30]],
     per_thread_samples = 1, sampling_rate = Fin 1, reference_ia = [20, 21]\<rparr>"

lemma ia_example_tx:
  "recorded_tx ia_example = [Timespec 5 10, Timespec 5 30]" "\<forall>t \<in> set (all_tx ia_example). tx_wf t"
  using tx_used_log [of "[Timespec 5 10, Timespec 5 30]"]
  by (simp_all add: ia_example_def recorded_tx_def stats_sizes del: foldl_Cons)

theorem check_ia_sound_witness:
  "\<exists>r. check_ia ia_example = Inr (r, ia_example\<lparr>reference_ia := sort (reference_ia ia_example)\<rparr>)"
proof -
  have "sort [Timespec 5 10, Timespec 5 30] = [Timespec 5 10, Timespec 5 30]"
    by (rule sorted_sort_id) (simp add: less_eq_timespec_def)
  then have "gaps (sort (recorded_tx ia_example)) = [20]"
    by (simp add: ia_example_tx timespec_ns_def)
  moreover have "clock_times (recorded_tx ia_example)" "length (recorded_tx ia_example) \<le> tx_room"
    by (simp_all add: ia_example_tx clock_times_def timespec_ok_def tx_room_def stats_sizes)
  moreover have "close_values (reference_ia ia_example)" "reference_ia ia_example \<noteq> []"
    by (simp_all add: ia_example_def close_values_def)
  ultimately show ?thesis
    using check_ia_sound [OF ia_example_tx(2)] by (auto simp: ia_example_tx(1))
qed

text \<open>
  C36. \<open>check_ia\<close> aborts the agent when the load pauses: it fails its assertion exactly when two
  successive transmissions of all threads are a second or more apart.
\<close>

theorem check_ia_aborts_on_pause:
  assumes "\<forall>t \<in> set (all_tx st). tx_wf t" and "length (recorded_tx st) \<le> tx_room" and "clock_times (recorded_tx st)"
    and "recorded_tx st \<noteq> []"
  shows "check_ia st = Inl Assertion_Failed \<longleftrightarrow> (\<exists>g \<in> set (gaps (sort (recorded_tx st))). 10 ^ 9 \<le> g)"
  unfolding check_ia_eq [OF assms] by (auto simp: not_less)

theorem check_ia_aborts_on_pause_witness:
  "check_ia \<lparr>all_stats = [], all_tx = [foldl tx_push zero_tx [Timespec 5 10], foldl tx_push zero_tx [Timespec 7 30]],
     per_thread_samples = 1, sampling_rate = Fin 1, reference_ia = [20]\<rparr> = Inl Assertion_Failed"
proof -
  let ?st = "\<lparr>all_stats = [], all_tx = [foldl tx_push zero_tx [Timespec 5 10], foldl tx_push zero_tx [Timespec 7 30]],
     per_thread_samples = 1, sampling_rate = Fin 1, reference_ia = [20]\<rparr>"
  have tx: "recorded_tx ?st = [Timespec 5 10, Timespec 7 30]" "\<forall>t \<in> set (all_tx ?st). tx_wf t"
    using tx_used_log [of "[Timespec 5 10]"] tx_used_log [of "[Timespec 7 30]"]
    by (simp_all add: recorded_tx_def stats_sizes del: foldl_Cons)
  have "sort [Timespec 5 10, Timespec 7 30] = [Timespec 5 10, Timespec 7 30]"
    by (rule sorted_sort_id) (simp add: less_eq_timespec_def)
  then have "gaps (sort (recorded_tx ?st)) = [2000000020]"
    unfolding tx(1) by (simp add: timespec_ns_def)
  moreover have "clock_times (recorded_tx ?st)" "length (recorded_tx ?st) \<le> tx_room"
    unfolding tx(1) by (simp_all add: clock_times_def timespec_ok_def tx_room_def stats_sizes)
  ultimately show ?thesis
    using check_ia_aborts_on_pause [OF tx(2)] tx(1) by simp
qed

text \<open>
  Without enough data \<open>check_ia\<close> is useless or worse: with no recorded transmit time it sorts an
  array of length -1, and a single one passes every check.
\<close>

theorem check_ia_needs_two_times:
  assumes "\<forall>t \<in> set (all_tx st). tx_wf t" and "recorded_tx st = ts" and "clock_times ts" and "length ts \<le> 1"
  shows "case ts of [] \<Rightarrow> check_ia st = Inl Undefined | _ \<Rightarrow> (\<exists>st'. check_ia st = Inr (1, st'))"
proof (cases ts)
  case Nil
  then have "collect_tx (all_tx st) [] = Inr []"
    using collect_tx_ok [OF assms(1), of "[]"] assms(2) unfolding recorded_tx_def by (simp only: append_Nil list.size)
  then show ?thesis using Nil by (simp add: check_ia_def)
next
  case (Cons t us)
  then have ts: "ts = [t]" using assms(4) by simp
  have "length (recorded_tx st) \<le> tx_room" "recorded_tx st \<noteq> []"
    using assms(2) ts by (simp_all add: tx_room_def stats_sizes)
  note eq = check_ia_eq [OF assms(1) this(1) _ this(2), unfolded assms(2), OF assms(3), unfolded ts]
  have "fst (ks (reference_ia st) []) = Fin 0" by (simp add: fst_ks ks_real_stop)
  then have "fst (ks (reference_ia st) (map word_of_int (gaps (sort [t]))))
      < ca * c_sqrt ((dbl_of_nat REFERENCE_IA_SIZE + dbl_of_nat (length [t] - 1))
          / (dbl_of_nat REFERENCE_IA_SIZE * dbl_of_nat (length [t] - 1)))"
    using ia_threshold_0 by (simp add: less_dbl_def)
  then show ?thesis unfolding ts eq by simp
qed

theorem check_ia_needs_two_times_witness:
  "check_ia \<lparr>all_stats = [], all_tx = [zero_tx], per_thread_samples = 1, sampling_rate = Fin 1,
     reference_ia = [20]\<rparr> = Inl Undefined"
  using check_ia_needs_two_times [of "\<lparr>all_stats = [], all_tx = [zero_tx], per_thread_samples = 1,
    sampling_rate = Fin 1, reference_ia = [20]\<rparr>" "[]"]
  by (simp add: recorded_tx_def tx_used_def zero_tx_def tx_wf_def clock_times_def)

end
