(* ===== verification/Transport.thy ===== *)
theory Transport
  imports Agent Timestamping
begin

text \<open>
  \<open>tp_tcp.c\<close>: the load generating threads. The state of a thread is its thread-local variables; an
  iteration of a main loop is a function of that state and of what the system calls of the iteration
  return (\<open>send_env\<close>, \<open>recv_env\<close>, \<open>epoll_event\<close>). \<open>Stop\<close> is a \<open>return\<close> of the main function, which
  ends the thread. The three open-loop mains share their sending and receiving code in the source by
  repetition; here the shared text is one definition with the differences as arguments.
\<close>

subsection \<open>Data\<close>

definition MAX_PAYLOAD :: nat where "MAX_PAYLOAD = 4000"

record tcp_connection =
  tc_closed :: bool
  tc_pending :: u16
  tc_buffer_idx :: u16
  tc_buffer :: "byte list"

record thread_state =
  connections :: "tcp_connection list"
  avail_reqs :: int
  next_tx :: int
  conn_tx :: "pending_tx list"
  thr_stats :: latency_stats
  thr_tx :: tx_samples
  thr_arg :: thread_arg
  received_opid :: int
  thr_rx :: timestamp_info

datatype 'a step = Go 'a | Stop 'a

text \<open>Division and remainder of C \<open>int\<close>s, by zero undefined.\<close>

definition c_div :: "int \<Rightarrow> int \<Rightarrow> int c_result" where
  "c_div a b = (if b = 0 then Inl Undefined else Inr (sgn a * sgn b * (\<bar>a\<bar> div \<bar>b\<bar>)))"

definition per_thread_conn :: "agent_config \<Rightarrow> int c_result" where
  "per_thread_conn cfg = c_div (get_conn_count cfg) (get_thread_count cfg)"

subsection \<open>Opening connections\<close>

text \<open>
  What the calls that set one connection up return: success, an error after which the function
  returns -1, or the failing \<open>SO_LINGER\<close>, which exits.
\<close>

datatype setup_result = Setup_ok | Setup_error | Setup_exit

definition zero_connection :: tcp_connection where
  "zero_connection = \<lparr>tc_closed = False, tc_pending = 0, tc_buffer_idx = 0, tc_buffer = replicate MAX_PAYLOAD 0\<rparr>"

text \<open>The target of connection \<open>i\<close>; the result lists the targets connected to, in order.\<close>

definition dest_of :: "agent_config \<Rightarrow> nat \<Rightarrow> host_tuple c_result" where
  "dest_of cfg i =
     (if get_target_count cfg = 0 then Inl Undefined
      else Inr (get_targets cfg ! (i mod nat (get_target_count cfg))))"

fun open_loop ::
  "agent_config \<Rightarrow> nat \<Rightarrow> nat \<Rightarrow> (nat \<Rightarrow> setup_result) \<Rightarrow> host_tuple list \<Rightarrow> (int \<times> host_tuple list) c_result" where
  "open_loop cfg 0 i setup dests = Inr (0, dests)"
| "open_loop cfg (Suc k) i setup dests =
     c_bind (dest_of cfg i) (\<lambda>dest.
     case setup i of
       Setup_error \<Rightarrow> Inr (- 1, dests @ [dest])
     | Setup_exit \<Rightarrow> Inl (Process_Exit 1)
     | Setup_ok \<Rightarrow> open_loop cfg k (i + 1) setup (dests @ [dest]))"

text \<open>A negative number of connections makes \<open>calloc\<close> fail.\<close>

definition latency_open_connections ::
  "agent_config \<Rightarrow> (nat \<Rightarrow> setup_result) \<Rightarrow> thread_state \<Rightarrow> (int \<times> thread_state \<times> host_tuple list) c_result" where
  "latency_open_connections cfg setup s =
     c_bind (per_thread_conn cfg) (\<lambda>n.
     c_bind (open_loop cfg (nat n) 0 setup []) (\<lambda>(ret, dests).
     Inr (ret, s\<lparr>connections := replicate (nat n) zero_connection\<rparr>, dests)))"

definition throughput_open_connections ::
  "agent_config \<Rightarrow> bool \<Rightarrow> (nat \<Rightarrow> setup_result) \<Rightarrow> thread_state \<Rightarrow> (int \<times> thread_state \<times> host_tuple list) c_result" where
  "throughput_open_connections cfg epoll_ok setup s =
     (if \<not> epoll_ok then Inr (- 1, s, [])
      else
        c_bind (per_thread_conn cfg) (\<lambda>n.
        if 2 ^ 31 \<le> \<bar>n * int MAX_PENDING_REQS\<bar> then Inl Undefined
        else
          c_bind (c_assert (0 \<le> n)) (\<lambda>_.
          let s1 = s\<lparr>avail_reqs := n * int MAX_PENDING_REQS,
                     connections := replicate (nat n) zero_connection,
                     conn_tx := (if get_agent_type cfg = SYMMETRIC_NIC_TIMESTAMP_AGENT \<or> get_agent_type cfg = SYMMETRIC_AGENT
                                 then replicate (nat n) zero_pending else conn_tx s)\<rparr>
          in c_bind (open_loop cfg (nat n) 0 setup []) (\<lambda>(ret, dests). Inr (ret, s1, dests)))))"

subsection \<open>Picking a connection\<close>

text \<open>\<open>rs\<close>: the values of \<open>rand()\<close>; at most ten of them are used.\<close>

fun pick_loop :: "nat list \<Rightarrow> int \<Rightarrow> tcp_connection list \<Rightarrow> nat option c_result" where
  "pick_loop [] n conns = Inr None"
| "pick_loop (r # rs) n conns =
     (if n = 0 then Inl Undefined
      else
        let idx = r mod nat \<bar>n\<bar> in
        c_bind (c_read conns idx) (\<lambda>c.
        if unat (tc_pending c) < MAX_PENDING_REQS \<and> \<not> tc_closed c then Inr (Some idx)
        else pick_loop rs n conns))"

definition pick_conn :: "agent_config \<Rightarrow> nat list \<Rightarrow> tcp_connection list \<Rightarrow> nat option c_result" where
  "pick_conn cfg rs conns = c_bind (per_thread_conn cfg) (\<lambda>n. pick_loop (take 10 rs) n conns)"

subsection \<open>Sending\<close>

text \<open>
  One attempt to send: the clock before it, the random numbers, the result of the system call with
  whether \<open>errno\<close> is \<open>EWOULDBLOCK\<close>, the transmit time read before it, and \<open>should_measure()\<close>.
\<close>

record send_env =
  se_now :: int
  se_rands :: "nat list"
  se_req :: draws
  se_ret :: int
  se_block :: bool
  se_ia :: draws
  se_time :: timespec
  se_measuring :: bool

text \<open>What the main records about the request in the connection's ring of transmit times.\<close>

datatype stamping = No_stamp | Nic_stamp | User_stamp

fun stamp_sent :: "stamping \<Rightarrow> send_env \<Rightarrow> nat \<Rightarrow> nat \<Rightarrow> thread_state \<Rightarrow> thread_state c_result" where
  "stamp_sent No_stamp e i bytes s = Inr s"
| "stamp_sent Nic_stamp e i bytes s =
     c_bind (c_read (conn_tx s) i) (\<lambda>q.
     Inr (s\<lparr>conn_tx := (conn_tx s)[i := add_pending_tx_timestamp q (word_of_nat bytes)]\<rparr>))"
| "stamp_sent User_stamp e i bytes s =
     c_bind (c_read (conn_tx s) i) (\<lambda>q.
     let (q', txs) = push_complete_tx_timestamp (se_measuring e) (se_time e) (q, thr_tx s)
     in Inr (s\<lparr>conn_tx := (conn_tx s)[i := q'], thr_tx := txs\<rparr>))"

definition request_bytes :: "request \<Rightarrow> nat" where
  "request_bytes req = (\<Sum>v\<leftarrow>req. length v)"

definition send_on ::
  "stamping \<Rightarrow> agent_config \<Rightarrow> send_env \<Rightarrow> nat \<Rightarrow> thread_state \<Rightarrow> thread_state step c_result" where
  "send_on mode cfg e i s =
     c_bind (prepare_request cfg (se_req e) (thr_arg s)) (\<lambda>(to_send, arg).
     let bytes_to_send = request_bytes to_send; s1 = s\<lparr>thr_arg := arg\<rparr> in
     if se_ret e < 0 \<and> \<not> se_block e then Inr (Stop s1)
     else
       c_bind (c_assert (se_ret e = int bytes_to_send)) (\<lambda>_.
       c_bind (stamp_sent mode e i bytes_to_send s1) (\<lambda>s2.
       c_bind (c_read (connections s2) i) (\<lambda>c.
       let send_res = \<lparr>br_bytes = word_of_int (se_ret e), br_reqs = 1\<rparr>;
           s3 = s2\<lparr>connections := (connections s2)[i := c\<lparr>tc_pending := tc_pending c + 1\<rparr>],
                   avail_reqs := avail_reqs s2 - 1,
                   thr_stats := add_throughput_tx_sample (se_measuring e) send_res (thr_stats s2)\<rparr>
       in c_bind (get_ia cfg (se_ia e)) (\<lambda>ia. Inr (Go (s3\<lparr>next_tx := next_tx s3 + ia\<rparr>)))))))"

text \<open>One pass of the sending part: \<open>None\<close> when no connection was free.\<close>

definition try_send ::
  "stamping \<Rightarrow> agent_config \<Rightarrow> send_env \<Rightarrow> thread_state \<Rightarrow> (bool \<times> thread_state step) c_result" where
  "try_send mode cfg e s =
     c_bind (pick_conn cfg (se_rands e) (connections s)) (\<lambda>conn.
     case conn of
       None \<Rightarrow> Inr (False, Go s)
     | Some i \<Rightarrow> c_bind (send_on mode cfg e i s) (\<lambda>r. Inr (True, r)))"

subsection \<open>Receiving\<close>

text \<open>
  One event of \<open>epoll_wait\<close> with what the calls made for it return: \<open>recv\<close> (number of bytes,
  \<open>EWOULDBLOCK\<close>, the bytes), the control messages of the data, the error queue, the clock, the random
  number of \<open>add_latency_sample\<close>, \<open>should_measure()\<close>.
\<close>

record epoll_event =
  ev_idx :: nat
  ev_in :: bool
  ev_err :: bool
  ev_hup :: bool
  ev_ret :: int
  ev_block :: bool
  ev_data :: "byte list"
  ev_cmsgs :: "control_msg list"
  ev_errqueue :: "(nat \<times> control_msg list) option"
  ev_time :: timespec
  ev_rnd :: dbl
  ev_measuring :: bool

datatype recv_result =
    Recv_error
  | Recv_closed
  | Recv_reqs tcp_connection byte_req_pair

text \<open>\<open>recv\<close> writes behind the bytes already buffered; an index beyond the buffer would make it write elsewhere.\<close>

definition recv_into :: "epoll_event \<Rightarrow> tcp_connection \<Rightarrow> tcp_connection c_result" where
  "recv_into ev c =
     (if MAX_PAYLOAD < unat (tc_buffer_idx c) then Inl Undefined
      else c_bind (c_memcpy (tc_buffer c) (unat (tc_buffer_idx c)) (ev_data ev) (nat (ev_ret ev))) (\<lambda>b.
        Inr (c\<lparr>tc_buffer := b, tc_buffer_idx := tc_buffer_idx c + word_of_int (ev_ret ev)\<rparr>)))"

text \<open>\<open>memcpy\<close> of the unfinished message to the front; overlapping areas are undefined.\<close>

definition keep_rest :: "nat \<Rightarrow> tcp_connection \<Rightarrow> tcp_connection c_result" where
  "keep_rest bytes c =
     (let n = unat (tc_buffer_idx c) - bytes in
      if bytes < n then Inl Undefined
      else c_bind (c_memcpy (tc_buffer c) 0 (drop bytes (tc_buffer c)) n) (\<lambda>b.
        Inr (c\<lparr>tc_buffer := b, tc_buffer_idx := tc_buffer_idx c - word_of_nat bytes\<rparr>)))"

text \<open>\<open>whole\<close>: the symmetric mains assert that no unfinished message is left.\<close>

definition consume_buffer ::
  "bool \<Rightarrow> agent_config \<Rightarrow> tcp_connection \<Rightarrow> (tcp_connection \<times> byte_req_pair) c_result" where
  "consume_buffer whole cfg c =
     c_bind (process_response cfg (unat (tc_buffer_idx c))) (\<lambda>read_res.
     c_bind (if br_bytes read_res = ucast (tc_buffer_idx c) then Inr (c\<lparr>tc_buffer_idx := 0\<rparr>)
             else if br_bytes read_res < ucast (tc_buffer_idx c) then
               (if whole then Inl Assertion_Failed else keep_rest (unat (br_bytes read_res)) c)
             else Inl Assertion_Failed) (\<lambda>c1.
     c_bind (c_assert (0 < br_reqs read_res)) (\<lambda>_.
     Inr (c1\<lparr>tc_pending := tc_pending c1 - ucast (br_reqs read_res)\<rparr>, read_res))))"

definition receive :: "bool \<Rightarrow> agent_config \<Rightarrow> epoll_event \<Rightarrow> tcp_connection \<Rightarrow> recv_result c_result" where
  "receive whole cfg ev c =
     (if ev_ret ev < 0 \<and> \<not> ev_block ev then Inr Recv_error
      else if ev_ret ev = 0 then Inr Recv_closed
      else c_bind (recv_into ev c) (\<lambda>c1.
        c_bind (consume_buffer whole cfg c1) (\<lambda>(c2, r). Inr (Recv_reqs c2 r))))"

text \<open>Storing the outcome; \<open>after\<close> is what the main does between the accounting of the requests and of the bytes.\<close>

definition on_readable ::
  "bool \<Rightarrow> (epoll_event \<Rightarrow> u64 \<Rightarrow> thread_state \<Rightarrow> thread_state c_result) \<Rightarrow> agent_config \<Rightarrow> epoll_event
   \<Rightarrow> thread_state \<Rightarrow> thread_state step c_result" where
  "on_readable whole after cfg ev s =
     c_bind (c_read (connections s) (ev_idx ev)) (\<lambda>c.
     c_bind (receive whole cfg ev c) (\<lambda>res.
     case res of
       Recv_error \<Rightarrow> Inr (Stop s)
     | Recv_closed \<Rightarrow> Inr (Go (s\<lparr>connections := (connections s)[ev_idx ev := c\<lparr>tc_closed := True\<rparr>]\<rparr>))
     | Recv_reqs c' r \<Rightarrow>
         let s1 = s\<lparr>connections := (connections s)[ev_idx ev := c'],
                    avail_reqs := u64_to_c_int (word_of_int (avail_reqs s) + br_reqs r)\<rparr>
         in c_bind (after ev (br_reqs r) s1) (\<lambda>s2.
            Inr (Go (s2\<lparr>thr_stats := add_throughput_rx_sample (ev_measuring ev) r (thr_stats s2)\<rparr>)))))"

fun event_loop ::
  "(epoll_event \<Rightarrow> thread_state \<Rightarrow> thread_state step c_result) \<Rightarrow> epoll_event list \<Rightarrow> thread_state
   \<Rightarrow> thread_state step c_result" where
  "event_loop handle [] s = Inr (Go s)"
| "event_loop handle (ev # evs) s =
     c_bind (handle ev s) (\<lambda>r. case r of Stop s' \<Rightarrow> Inr (Stop s') | Go s' \<Rightarrow> event_loop handle evs s')"

subsection \<open>Matching a response with its request\<close>

text \<open>
  \<open>st\<close> is the configuration of the statistics. A missing transmit time is the NULL that
  \<open>pop_pending_tx_timestamps\<close> returns; \<open>&p->time\<close> of it is passed on to \<open>timespec_diff\<close>, which
  tests for NULL (the field is the first of its structure).
\<close>

definition skip_but_last :: "u64 \<Rightarrow> pending_tx \<Rightarrow> pending_tx" where
  "skip_but_last reqs q = (if 1 < reqs then blind_skip_tx_timestamps q (u64_to_c_int (reqs - 1)) else q)"

definition user_match :: "stats_state \<Rightarrow> epoll_event \<Rightarrow> u64 \<Rightarrow> thread_state \<Rightarrow> thread_state c_result" where
  "user_match st ev reqs s =
     c_bind (c_read (conn_tx s) (ev_idx ev)) (\<lambda>q.
     c_bind (pop_pending_tx_timestamps (skip_but_last reqs q)) (\<lambda>(t, q').
     let s1 = s\<lparr>conn_tx := (conn_tx s)[ev_idx ev := q']\<rparr> in
     case timespec_diff (Some (ev_time ev)) (map_option ti_time t) of
       (ret, Some latency) \<Rightarrow>
         c_bind (c_assert (tv_sec latency = 0)) (\<lambda>_.
         c_bind (add_latency_sample (ev_measuring ev) (ev_rnd ev) st (tv_nsec latency) (map_option ti_time t)
                   (thr_stats s1)) (\<lambda>ts.
         Inr (s1\<lparr>thr_stats := ts\<rparr>)))
     | (ret, None) \<Rightarrow> Inr s1))"

text \<open>With hardware timestamps a missing time is asked for once more; if it is still missing, the request is skipped.\<close>

definition nic_pop ::
  "epoll_event \<Rightarrow> pending_tx \<Rightarrow> thread_state \<Rightarrow> (timestamp_info option \<times> pending_tx \<times> thread_state) c_result" where
  "nic_pop ev q s =
     c_bind (pop_pending_tx_timestamps q) (\<lambda>(t, q1).
     case t of
       Some i \<Rightarrow> Inr (Some i, q1, s)
     | None \<Rightarrow>
         c_bind (get_tx_timestamp (ev_measuring ev) (ev_errqueue ev) (received_opid s) (q1, thr_tx s))
           (\<lambda>(ret, opid, q2, txs).
         c_bind (pop_pending_tx_timestamps q2) (\<lambda>(t', q3).
         Inr (t', (case t' of None \<Rightarrow> q3\<lparr>pq_consumed := pq_consumed q3 + 1\<rparr> | Some _ \<Rightarrow> q3),
              s\<lparr>thr_tx := txs, received_opid := opid\<rparr>))))"

text \<open>With hardware timestamps the data is read by \<open>timestamp_recv\<close>, which notes when the card received it.\<close>

definition receive_stamp :: "epoll_event \<Rightarrow> thread_state \<Rightarrow> thread_state c_result" where
  "receive_stamp ev s =
     c_bind (timestamp_recv (ev_ret ev) (ev_cmsgs ev) (thr_rx s) (received_opid s)) (\<lambda>(nbytes, rx, opid).
     Inr (s\<lparr>thr_rx := rx, received_opid := opid\<rparr>))"

definition nic_match :: "stats_state \<Rightarrow> epoll_event \<Rightarrow> u64 \<Rightarrow> thread_state \<Rightarrow> thread_state c_result" where
  "nic_match st ev reqs s =
     c_bind (c_read (conn_tx s) (ev_idx ev)) (\<lambda>q.
     c_bind (nic_pop ev (skip_but_last reqs q) s) (\<lambda>(t, q', s1).
     let s2 = s1\<lparr>conn_tx := (conn_tx s1)[ev_idx ev := q']\<rparr> in
     case timespec_diff (Some (ti_time (thr_rx s))) (map_option ti_time t) of
       (ret, Some latency) \<Rightarrow>
         c_bind (dbl_to_long (dbl_of_int (tv_nsec latency) + dbl_of_int (tv_sec latency) * Fin (10 ^ 9))) (\<lambda>ns.
         c_bind (add_latency_sample (ev_measuring ev) (ev_rnd ev) st ns (map_option ti_time t) (thr_stats s2)) (\<lambda>ts.
         Inr (s2\<lparr>thr_stats := ts\<rparr>)))
     | (ret, None) \<Rightarrow> Inr s2))"

definition read_error_queue :: "epoll_event \<Rightarrow> thread_state \<Rightarrow> thread_state step c_result" where
  "read_error_queue ev s =
     c_bind (c_read (conn_tx s) (ev_idx ev)) (\<lambda>q.
     c_bind (get_tx_timestamp (ev_measuring ev) (ev_errqueue ev) (received_opid s) (q, thr_tx s))
       (\<lambda>(ret, opid, q', txs).
     Inr (Go (s\<lparr>conn_tx := (conn_tx s)[ev_idx ev := q'], thr_tx := txs, received_opid := opid\<rparr>))))"

subsection \<open>The main loops\<close>

definition throughput_event :: "agent_config \<Rightarrow> epoll_event \<Rightarrow> thread_state \<Rightarrow> thread_state step c_result" where
  "throughput_event cfg ev s =
     (if ev_in ev then on_readable False (\<lambda>_ _ s. Inr s) cfg ev s else Inl Assertion_Failed)"

definition nic_event :: "agent_config \<Rightarrow> stats_state \<Rightarrow> epoll_event \<Rightarrow> thread_state \<Rightarrow> thread_state step c_result" where
  "nic_event cfg st ev s =
     (if ev_in ev then c_bind (receive_stamp ev s) (on_readable True (nic_match st) cfg ev)
      else if ev_err ev then read_error_queue ev s
      else if ev_hup ev then Inl Assertion_Failed
      else Inr (Go s))"

definition user_event :: "agent_config \<Rightarrow> stats_state \<Rightarrow> epoll_event \<Rightarrow> thread_state \<Rightarrow> thread_state step c_result" where
  "user_event cfg st ev s =
     (if ev_in ev then on_readable True (user_match st) cfg ev s
      else if ev_err ev then read_error_queue ev s
      else if ev_hup ev then Inl Assertion_Failed
      else Inr (Go s))"

record iter_env =
  ie_load :: bool
  ie_idle_now :: int
  ie_sends :: "send_env list"
  ie_events :: "epoll_event list"

text \<open>
  One iteration of \<open>throughput_tcp_main\<close> and of \<open>symmetric_tcp_main\<close>, which send at most one request
  (the head of \<open>ie_sends\<close>, whose clock reading decides), and handle the ready events.
\<close>

definition one_send :: "stamping \<Rightarrow> agent_config \<Rightarrow> send_env list \<Rightarrow> thread_state \<Rightarrow> thread_state step c_result" where
  "one_send mode cfg es s =
     (case es of
        [] \<Rightarrow> Inr (Go s)
      | e # _ \<Rightarrow>
          if 0 \<le> se_now e - next_tx s then c_bind (try_send mode cfg e s) (\<lambda>(_, r). Inr r) else Inr (Go s))"

definition then_events ::
  "(epoll_event \<Rightarrow> thread_state \<Rightarrow> thread_state step c_result) \<Rightarrow> epoll_event list \<Rightarrow> thread_state step
   \<Rightarrow> thread_state step c_result" where
  "then_events handle evs r = (case r of Stop s \<Rightarrow> Inr (Stop s) | Go s \<Rightarrow> event_loop handle evs s)"

definition throughput_iter :: "agent_config \<Rightarrow> iter_env \<Rightarrow> thread_state \<Rightarrow> thread_state step c_result" where
  "throughput_iter cfg e s =
     (if \<not> ie_load e then Inr (Go (s\<lparr>next_tx := ie_idle_now e\<rparr>))
      else c_bind (one_send No_stamp cfg (ie_sends e) s) (then_events (throughput_event cfg) (ie_events e)))"

definition user_iter :: "agent_config \<Rightarrow> stats_state \<Rightarrow> iter_env \<Rightarrow> thread_state \<Rightarrow> thread_state step c_result" where
  "user_iter cfg st e s =
     (if \<not> ie_load e then Inr (Go (s\<lparr>next_tx := ie_idle_now e\<rparr>))
      else c_bind (one_send User_stamp cfg (ie_sends e) s) (then_events (user_event cfg st) (ie_events e)))"

text \<open>
  \<open>symmetric_nic_tcp_main\<close> sends as long as it is behind its schedule: \<open>ie_sends\<close> are the attempts,
  each with the clock reading that precedes it. It then handles one event.
\<close>

fun nic_send_loop :: "agent_config \<Rightarrow> send_env list \<Rightarrow> thread_state \<Rightarrow> thread_state step c_result" where
  "nic_send_loop cfg [] s = Inr (Go s)"
| "nic_send_loop cfg (e # es) s =
     (if 0 \<le> se_now e - next_tx s then
        c_bind (try_send Nic_stamp cfg e s) (\<lambda>(sent, r).
        case r of
          Stop s' \<Rightarrow> Inr (Stop s')
        | Go s' \<Rightarrow> if sent then nic_send_loop cfg es s' else Inr (Go s'))
      else Inr (Go s))"

definition nic_iter :: "agent_config \<Rightarrow> stats_state \<Rightarrow> iter_env \<Rightarrow> thread_state \<Rightarrow> thread_state step c_result" where
  "nic_iter cfg st e s =
     (if \<not> ie_load e then Inr (Go (s\<lparr>next_tx := ie_idle_now e\<rparr>))
      else c_bind (if avail_reqs s = 0 then Inr (Go s) else nic_send_loop cfg (ie_sends e) s)
             (then_events (nic_event cfg st) (take 1 (ie_events e))))"

text \<open>
  \<open>latency_tcp_main\<close>: one request at a time, waiting for its response. \<open>le_start\<close> and \<open>le_end\<close> are the
  clock before sending and after receiving.
\<close>

record latency_env =
  le_load :: bool
  le_send :: send_env
  le_start :: int
  le_ret :: int
  le_end :: int
  le_rnd :: dbl
  le_measuring :: bool

definition latency_receive ::
  "agent_config \<Rightarrow> stats_state \<Rightarrow> latency_env \<Rightarrow> nat \<Rightarrow> thread_state \<Rightarrow> thread_state step c_result" where
  "latency_receive cfg st e i s =
     (if le_ret e < 0 then Inr (Stop s)
      else c_bind (c_read (connections s) i) (\<lambda>c.
        if le_ret e = 0 then Inr (Go (s\<lparr>connections := (connections s)[i := c\<lparr>tc_closed := True\<rparr>]\<rparr>))
        else
          c_bind (process_response cfg (nat (le_ret e))) (\<lambda>read_res.
          c_bind (c_assert (br_bytes read_res = word_of_int (le_ret e))) (\<lambda>_.
          c_bind (add_latency_sample (le_measuring e) (le_rnd e) st (le_end e - le_start e) None
                    (add_throughput_rx_sample (le_measuring e) read_res (thr_stats s))) (\<lambda>ts.
          c_bind (get_ia cfg (se_ia (le_send e))) (\<lambda>ia.
          Inr (Go (s\<lparr>thr_stats := ts, next_tx := next_tx s + ia\<rparr>))))))))"

definition latency_iter :: "agent_config \<Rightarrow> stats_state \<Rightarrow> latency_env \<Rightarrow> thread_state \<Rightarrow> thread_state step c_result" where
  "latency_iter cfg st e s =
     (let se = le_send e in
      if \<not> le_load e then Inr (Go (s\<lparr>next_tx := se_now se\<rparr>))
      else if se_now se < next_tx s then Inr (Go s)
      else
        c_bind (pick_conn cfg (se_rands se) (connections s)) (\<lambda>conn.
        case conn of
          None \<Rightarrow> Inr (Go s)
        | Some i \<Rightarrow>
            c_bind (prepare_request cfg (se_req se) (thr_arg s)) (\<lambda>(to_send, arg).
            let s1 = s\<lparr>thr_arg := arg\<rparr> in
            if se_ret se < 0 then Inr (Stop s1)
            else
              c_bind (c_assert (se_ret se = int (request_bytes to_send))) (\<lambda>_.
              latency_receive cfg st e i
                (s1\<lparr>thr_stats := add_throughput_tx_sample (se_measuring se)
                      \<lparr>br_bytes = word_of_int (se_ret se), br_reqs = 1\<rparr> (thr_stats s1)\<rparr>)))))"

end
