(* ===== verification/Transport_Invariant.thy ===== *)
theory Transport_Invariant
  imports Transport
begin

text \<open>
  What keeps a load generating thread consistent: every connection has at most 16 requests in flight
  and less than one message buffered, \<open>avail_reqs\<close> is the number of free slots, and with user-space
  timestamps every ring holds one unread time per request in flight. The steps of the main loops
  preserve this as long as the peer sends whole responses to requests it has received
  (\<open>serves\<close>); the lemmas are for one connection first, then for the thread.
\<close>

subsection \<open>Words of 16 and 64 bits\<close>

lemma unat_u16_lt: "unat (w :: u16) < 65536"
  by (rule order_less_le_trans [OF unsigned_less]) simp

lemma unat_of_nat_u16: "n < 65536 \<Longrightarrow> unat (word_of_nat n :: u16) = n"
  by (simp add: unat_of_nat)

lemma unat_add_int_u16:
  assumes "0 \<le> k" and "unat (w :: u16) + nat k < 65536"
  shows "unat (w + word_of_int k) = unat w + nat k"
proof -
  have "(word_of_int k :: u16) = word_of_nat (nat k)" using assms(1) by (simp add: of_nat_nat)
  moreover have "nat k < 65536" using assms(2) by linarith
  ultimately have k: "unat (word_of_int k :: u16) = nat k" by (simp only: unat_of_nat_u16)
  with assms(2) have "unat w + unat (word_of_int k :: u16) < 2 ^ LENGTH(16)" by simp
  then have "unat (w + word_of_int k) = unat w + unat (word_of_int k :: u16)" by (rule unat_add_lem [THEN iffD1])
  then show ?thesis by (simp only: k)
qed

lemma unat_ucast_u64_u16: "unat (w :: u64) < 65536 \<Longrightarrow> unat (ucast w :: u16) = unat w"
  by (simp add: unsigned_ucast_eq take_bit_nat_eq_self)

lemma unat_ucast_u16_u64: "unat (ucast (w :: u16) :: u64) = unat w"
  using unat_u16_lt [of w] by (simp add: unsigned_ucast_eq take_bit_nat_eq_self)

lemma unat_sub_u16: "unat b \<le> unat (a :: u16) \<Longrightarrow> unat (a - b) = unat a - unat b"
  by (simp add: unat_sub word_le_nat_alt)

subsection \<open>One connection\<close>

definition app_ready :: "agent_config \<Rightarrow> nat \<Rightarrow> bool" where
  "app_ready cfg m \<longleftrightarrow> (\<exists>p. cfg_app_proto cfg = Some p \<and> message_size p = m) \<and> 0 < m \<and> m \<le> MAX_PAYLOAD"

definition conn_ok :: "nat \<Rightarrow> tcp_connection \<Rightarrow> bool" where
  "conn_ok m c \<longleftrightarrow> unat (tc_pending c) \<le> MAX_PENDING_REQS \<and> unat (tc_buffer_idx c) < m
     \<and> length (tc_buffer c) = MAX_PAYLOAD"

text \<open>The bytes in the buffer that belong to an unfinished message.\<close>

definition buffered :: "tcp_connection \<Rightarrow> byte list" where
  "buffered c = take (unat (tc_buffer_idx c)) (tc_buffer c)"

definition arrived :: "tcp_connection \<Rightarrow> epoll_event \<Rightarrow> nat" where
  "arrived c ev = unat (tc_buffer_idx c) + nat (ev_ret ev)"

text \<open>
  The peer's side: the data completes at least one message, fits the buffer, and no response comes
  without a request.
\<close>

definition serves :: "nat \<Rightarrow> tcp_connection \<Rightarrow> epoll_event \<Rightarrow> bool" where
  "serves m c ev \<longleftrightarrow> ev_in ev \<and> 0 < ev_ret ev \<and> length (ev_data ev) = nat (ev_ret ev)
     \<and> m \<le> arrived c ev \<and> arrived c ev \<le> MAX_PAYLOAD \<and> arrived c ev \<le> unat (tc_pending c) * m"

lemma least_response_le: "least_response p \<le> message_size p"
  by (cases p) simp_all

lemma process_response_counts:
  assumes "app_ready cfg m" and "m \<le> n" and "n \<le> MAX_PAYLOAD"
  shows "\<exists>r. process_response cfg n = Inr r \<and> unat (br_reqs r) = n div m \<and> unat (br_bytes r) = n div m * m"
proof -
  from assms(1) obtain p where p: "cfg_app_proto cfg = Some p" "message_size p = m" "0 < m"
    by (auto simp: app_ready_def)
  have "n < 2 ^ 31" using assms(3) by (simp add: MAX_PAYLOAD_def)
  moreover have "least_response p \<le> n" using least_response_le [of p] p(2) assms(2) by simp
  ultimately show ?thesis
    using consume_response_counts [of p n] p by (auto simp: process_response_def)
qed

lemma recv_into_ok:
  assumes "conn_ok m c" and "serves m c ev" and "m \<le> MAX_PAYLOAD"
  shows "\<exists>b i. recv_into ev c = Inr (c\<lparr>tc_buffer := b, tc_buffer_idx := i\<rparr>) \<and> unat i = arrived c ev
    \<and> length b = MAX_PAYLOAD \<and> take (arrived c ev) b = buffered c @ ev_data ev"
proof -
  let ?i = "unat (tc_buffer_idx c)" and ?k = "nat (ev_ret ev)"
  have idx: "?i \<le> MAX_PAYLOAD" "?i + ?k \<le> MAX_PAYLOAD" and len: "length (tc_buffer c) = MAX_PAYLOAD"
    and data: "length (ev_data ev) = ?k" "0 \<le> ev_ret ev"
    using assms by (auto simp: conn_ok_def serves_def arrived_def)
  let ?b = "take ?i (tc_buffer c) @ ev_data ev @ drop (?i + ?k) (tc_buffer c)"
  have "recv_into ev c = Inr (c\<lparr>tc_buffer := ?b, tc_buffer_idx := tc_buffer_idx c + word_of_int (ev_ret ev)\<rparr>)"
    using idx len data by (simp add: recv_into_def c_memcpy_def)
  moreover have "unat (tc_buffer_idx c + word_of_int (ev_ret ev)) = arrived c ev"
    unfolding arrived_def using idx data(2) by (intro unat_add_int_u16) (simp_all add: MAX_PAYLOAD_def)
  moreover have "length ?b = MAX_PAYLOAD" "take (arrived c ev) ?b = buffered c @ ev_data ev"
    using idx len data(1) by (simp_all add: arrived_def buffered_def)
  ultimately show ?thesis by blast
qed

lemma keep_rest_ok:
  assumes "unat (tc_buffer_idx c) = n" and "m * k \<le> n" and "n < m * k + m" and "0 < k"
    and "length (tc_buffer c) = MAX_PAYLOAD" and "n \<le> MAX_PAYLOAD"
  shows "\<exists>b i. keep_rest (m * k) c = Inr (c\<lparr>tc_buffer := b, tc_buffer_idx := i\<rparr>) \<and> unat i = n - m * k
    \<and> length b = MAX_PAYLOAD \<and> take (n - m * k) b = drop (m * k) (take n (tc_buffer c))"
proof -
  let ?r = "n - m * k"
  have "m \<le> m * k" using assms(4) by simp
  then have r: "?r \<le> m * k" using assms(3) by linarith
  let ?b = "take ?r (drop (m * k) (tc_buffer c)) @ drop ?r (tc_buffer c)"
  have "keep_rest (m * k) c = Inr (c\<lparr>tc_buffer := ?b, tc_buffer_idx := tc_buffer_idx c - word_of_nat (m * k)\<rparr>)"
    using assms r by (simp add: keep_rest_def Let_def c_memcpy_def)
  moreover have "unat (word_of_nat (m * k) :: u16) = m * k"
    using assms(2,6) by (intro unat_of_nat_u16) (simp add: MAX_PAYLOAD_def)
  then have "unat (tc_buffer_idx c - word_of_nat (m * k)) = ?r"
    using assms(1,2) by (simp add: unat_sub_u16)
  moreover have "length ?b = MAX_PAYLOAD" "take ?r ?b = drop (m * k) (take n (tc_buffer c))"
    using assms r by (simp_all add: drop_take)
  ultimately show ?thesis by blast
qed

text \<open>What the thread has after a receive, from what it had before.\<close>

definition received_ok :: "nat \<Rightarrow> tcp_connection \<Rightarrow> epoll_event \<Rightarrow> tcp_connection \<Rightarrow> byte_req_pair \<Rightarrow> bool" where
  "received_ok m c ev c' r \<longleftrightarrow> unat (br_reqs r) = arrived c ev div m
     \<and> unat (br_bytes r) = arrived c ev div m * m
     \<and> unat (tc_pending c') = unat (tc_pending c) - arrived c ev div m
     \<and> buffered c' = drop (arrived c ev div m * m) (buffered c @ ev_data ev)
     \<and> unat (tc_buffer_idx c') = arrived c ev mod m
     \<and> tc_closed c' = tc_closed c \<and> conn_ok m c'"

lemma receive_ok:
  assumes ready: "app_ready cfg m" and ok: "conn_ok m c" and serve: "serves m c ev"
    and whole: "whole \<Longrightarrow> m dvd arrived c ev"
  shows "\<exists>c' r. receive whole cfg ev c = Inr (Recv_reqs c' r) \<and> received_ok m c ev c' r"
proof -
  define n where "n = arrived c ev"
  define k where "k = n div m"
  have m: "0 < m" "m \<le> MAX_PAYLOAD" using ready by (simp_all add: app_ready_def)
  have n: "m \<le> n" "n \<le> MAX_PAYLOAD" "n \<le> unat (tc_pending c) * m" and ret: "0 < ev_ret ev"
    using serve by (simp_all add: serves_def n_def)
  have "n div m \<le> unat (tc_pending c) * m div m" using n(3) by (rule div_le_mono)
  then have k: "0 < k" "k \<le> unat (tc_pending c)" "m * k \<le> n" "n < m * k + m"
    using n(1) m(1) dividend_less_times_div [of m n] by (simp_all add: k_def div_greater_zero_iff add.commute)
  obtain b i where recv: "recv_into ev c = Inr (c\<lparr>tc_buffer := b, tc_buffer_idx := i\<rparr>)"
    and i: "unat i = n" and b: "length b = MAX_PAYLOAD" "take n b = buffered c @ ev_data ev"
    using recv_into_ok [OF ok serve m(2)] unfolding n_def by blast
  let ?c1 = "c\<lparr>tc_buffer := b, tc_buffer_idx := i\<rparr>"
  obtain r where r: "process_response cfg n = Inr r" "unat (br_reqs r) = k" "unat (br_bytes r) = m * k"
    using process_response_counts [OF ready n(1,2)] by (auto simp: k_def mult.commute)
  have "unat (br_reqs r) < 65536" using order_le_less_trans [OF k(2) unat_u16_lt] r(2) by simp
  then have pend: "unat (tc_pending c - ucast (br_reqs r)) = unat (tc_pending c) - k"
    using k(2) r(2) by (simp add: unat_sub_u16 unat_ucast_u64_u16)
  have le16: "unat (tc_pending c) - k \<le> MAX_PENDING_REQS"
    using ok order_trans [OF diff_le_self] by (auto simp: conn_ok_def)
  have reqs: "0 < br_reqs r" using k(1) r(2) by (simp add: word_gt_0 unat_gt_0 [symmetric])
  have cmp: "br_bytes r = ucast i \<longleftrightarrow> m * k = n" "br_bytes r < ucast i \<longleftrightarrow> m * k < n"
    using r(3) i by (simp_all add: word_unat_eq_iff word_less_nat_alt unat_ucast_u16_u64)
  obtain c2 where c2: "(if br_bytes r = ucast i then Inr (?c1\<lparr>tc_buffer_idx := 0\<rparr>)
      else if br_bytes r < ucast i then (if whole then Inl Assertion_Failed else keep_rest (unat (br_bytes r)) ?c1)
      else Inl Assertion_Failed) = Inr c2"
    and c2_props: "unat (tc_buffer_idx c2) = n - m * k" "length (tc_buffer c2) = MAX_PAYLOAD"
      "buffered c2 = drop (m * k) (buffered c @ ev_data ev)" "tc_pending c2 = tc_pending c" "tc_closed c2 = tc_closed c"
  proof (cases "m * k = n")
    case True
    have "length (buffered c @ ev_data ev) \<le> n" unfolding b(2) [symmetric] by simp
    with True show ?thesis using that [of "?c1\<lparr>tc_buffer_idx := 0\<rparr>"] cmp b(1)
      by (simp add: buffered_def [of "c\<lparr>tc_buffer := b, tc_buffer_idx := 0\<rparr>"])
  next
    case False
    then have "\<not> whole" using whole by (auto simp: n_def [symmetric] k_def)
    obtain b' i' where "keep_rest (m * k) ?c1 = Inr (?c1\<lparr>tc_buffer := b', tc_buffer_idx := i'\<rparr>)"
      "unat i' = n - m * k" "length b' = MAX_PAYLOAD" "take (n - m * k) b' = drop (m * k) (take n b)"
      using keep_rest_ok [of ?c1 n m k] i k n(2) b(1) by auto
    then show ?thesis
      using that [of "?c1\<lparr>tc_buffer := b', tc_buffer_idx := i'\<rparr>"] False cmp k(3) r(3) b(2) \<open>\<not> whole\<close>
      by (simp add: buffered_def)
  qed
  have i1: "tc_buffer_idx ?c1 = i" by simp
  let ?c3 = "c2\<lparr>tc_pending := tc_pending c2 - ucast (br_reqs r)\<rparr>"
  have "consume_buffer whole cfg ?c1 = Inr (?c3, r)"
    by (simp only: consume_buffer_def i1 i r(1) c_bind_Inr c2 reqs c_assert_True)
  then have "receive whole cfg ev c = Inr (Recv_reqs ?c3 r)"
    using ret recv by (simp add: receive_def)
  moreover have "n - m * k = n mod m" "n mod m < m"
    using m(1) by (simp_all add: k_def minus_mult_div_eq_mod)
  then have "received_ok m c ev ?c3 r"
    using c2_props r pend le16
    by (simp add: received_ok_def conn_ok_def buffered_def n_def [symmetric] k_def [symmetric] mult.commute)
  ultimately show ?thesis by blast
qed

subsection \<open>The thread\<close>

definition in_flight_total :: "tcp_connection list \<Rightarrow> nat" where
  "in_flight_total cs = (\<Sum>c\<leftarrow>cs. unat (tc_pending c))"

definition thread_ok :: "nat \<Rightarrow> thread_state \<Rightarrow> bool" where
  "thread_ok m s \<longleftrightarrow> (\<forall>c \<in> set (connections s). conn_ok m c)
     \<and> avail_reqs s = int (MAX_PENDING_REQS * length (connections s)) - int (in_flight_total (connections s))
     \<and> length (connections s) < 2 ^ 26"

lemma in_flight_update:
  "i < length cs \<Longrightarrow> int (in_flight_total (cs[i := c])) = int (in_flight_total cs) - int (unat (tc_pending (cs ! i))) + int (unat (tc_pending c))"
proof (induction cs arbitrary: i)
  case (Cons d ds)
  then show ?case by (cases i) (simp_all add: in_flight_total_def del: of_nat_unat)
qed simp

lemma in_flight_le:
  assumes "\<forall>c \<in> set cs. conn_ok m c"
  shows "in_flight_total cs \<le> MAX_PENDING_REQS * length cs"
  using assms by (induction cs) (auto simp: in_flight_total_def conn_ok_def)

lemma thread_ok_avail:
  assumes "thread_ok m s"
  shows "0 \<le> avail_reqs s" and "avail_reqs s < 2 ^ 30"
proof -
  have "in_flight_total (connections s) \<le> MAX_PENDING_REQS * length (connections s)"
    using assms by (intro in_flight_le [of _ m]) (simp add: thread_ok_def)
  then show "0 \<le> avail_reqs s" "avail_reqs s < 2 ^ 30"
    using assms by (simp_all add: thread_ok_def MAX_PENDING_REQS_def)
qed

lemma thread_ok_update:
  assumes "thread_ok m s" and "i < length (connections s)" and "conn_ok m c"
    and "connections s' = (connections s)[i := c]"
    and "avail_reqs s' = avail_reqs s + int (unat (tc_pending (connections s ! i))) - int (unat (tc_pending c))"
  shows "thread_ok m s'"
proof -
  have "\<forall>c \<in> set (connections s'). conn_ok m c"
    using assms(1,3,4) set_update_subset_insert [of "connections s" i c] by (auto simp: thread_ok_def)
  moreover have "avail_reqs s' = int (MAX_PENDING_REQS * length (connections s')) - int (in_flight_total (connections s'))"
    using assms(1,5) in_flight_update [OF assms(2), of c] by (simp only: thread_ok_def assms(4) length_list_update)
  ultimately show ?thesis using assms(1,4) by (simp add: thread_ok_def)
qed

lemma thread_ok_cong:
  "thread_ok m s \<Longrightarrow> connections s' = connections s \<Longrightarrow> avail_reqs s' = avail_reqs s \<Longrightarrow> thread_ok m s'"
  by (simp add: thread_ok_def)

lemma avail_add:
  assumes "0 \<le> a" and "a < 2 ^ 30" and "unat (w :: u64) \<le> 16"
  shows "u64_to_c_int (word_of_int a + w) = a + int (unat w)"
proof -
  have "u64_to_c_int (word_of_int a + w) = signed_take_bit 31 (uint (word_of_int (a + int (unat w)) :: u64))"
    by (simp add: u64_to_c_int_eq)
  also have "uint (word_of_int (a + int (unat w)) :: u64) = a + int (unat w)"
    using assms by (subst uint_word_of_int) (simp del: of_nat_unat)
  also have "signed_take_bit 31 (a + int (unat w)) = a + int (unat w)"
    using assms by (intro signed_take_bit_32) (simp_all del: of_nat_unat)
  finally show ?thesis .
qed

text \<open>An event with data: the state in which the response is matched, and what follows.\<close>

definition after_receive :: "thread_state \<Rightarrow> nat \<Rightarrow> tcp_connection \<Rightarrow> byte_req_pair \<Rightarrow> thread_state" where
  "after_receive s i c' r =
     s\<lparr>connections := (connections s)[i := c'], avail_reqs := u64_to_c_int (word_of_int (avail_reqs s) + br_reqs r)\<rparr>"

lemma on_readable_serves:
  assumes "app_ready cfg m" and "thread_ok m s" and "ev_idx ev < length (connections s)"
    and "serves m (connections s ! ev_idx ev) ev" and "whole \<Longrightarrow> m dvd arrived (connections s ! ev_idx ev) ev"
  shows "\<exists>c' r. received_ok m (connections s ! ev_idx ev) ev c' r \<and>
    on_readable whole after cfg ev s =
      c_bind (after ev (br_reqs r) (after_receive s (ev_idx ev) c' r)) (\<lambda>s2.
        Inr (Go (s2\<lparr>thr_stats := add_throughput_rx_sample (ev_measuring ev) r (thr_stats s2)\<rparr>)))"
proof -
  have "conn_ok m (connections s ! ev_idx ev)" using assms(2,3) by (simp add: thread_ok_def)
  from receive_ok [OF assms(1) this assms(4,5)] obtain c' r where
    "receive whole cfg ev (connections s ! ev_idx ev) = Inr (Recv_reqs c' r)"
    and "received_ok m (connections s ! ev_idx ev) ev c' r" by blast
  then show ?thesis
    using assms(3) by (intro exI [of _ c'] exI [of _ r]) (simp add: on_readable_def after_receive_def)
qed

lemma received_pending:
  assumes "received_ok m c ev c' r" and "serves m c ev" and "conn_ok m c" and "0 < m"
  shows "unat (br_reqs r) \<le> unat (tc_pending c)" and "1 \<le> unat (br_reqs r)"
    and "unat (tc_pending c') = unat (tc_pending c) - unat (br_reqs r)" and "unat (br_reqs r) \<le> 16"
proof -
  have "arrived c ev div m \<le> unat (tc_pending c) * m div m"
    using assms(2) by (intro div_le_mono) (simp add: serves_def)
  then show le: "unat (br_reqs r) \<le> unat (tc_pending c)" using assms(1,4) by (simp add: received_ok_def)
  show "1 \<le> unat (br_reqs r)"
    using assms(1,2,4) div_le_mono [of m "arrived c ev" m] by (simp add: received_ok_def serves_def)
  show "unat (tc_pending c') = unat (tc_pending c) - unat (br_reqs r)" using assms(1) by (simp add: received_ok_def)
  have "unat (tc_pending c) \<le> 16" using assms(3) by (simp add: conn_ok_def MAX_PENDING_REQS_def)
  with le show "unat (br_reqs r) \<le> 16" by (rule order_trans)
qed

lemma thread_ok_receive:
  assumes "thread_ok m s" and "i < length (connections s)" and "0 < m"
    and "received_ok m (connections s ! i) ev c' r" and "serves m (connections s ! i) ev"
  shows "thread_ok m (after_receive s i c' r)"
proof -
  let ?c = "connections s ! i"
  have "conn_ok m ?c" using assms(1,2) by (simp add: thread_ok_def)
  note pend = received_pending [OF assms(4,5) this assms(3)]
  have "avail_reqs (after_receive s i c' r) = avail_reqs s + int (unat (br_reqs r))"
    using avail_add [OF thread_ok_avail [OF assms(1)] pend(4)] by (simp add: after_receive_def)
  moreover have "int (unat (br_reqs r)) = int (unat (tc_pending ?c)) - int (unat (tc_pending c'))"
    unfolding pend(3) using pend(1) by (simp only: of_nat_diff)
  moreover have "conn_ok m c'" using assms(4) by (simp add: received_ok_def)
  ultimately show ?thesis
    by (intro thread_ok_update [OF assms(1,2)]) (simp_all add: after_receive_def)
qed

text \<open>An event the peer or the network may cause: data as above, the end of the connection, or an error.\<close>

definition event_ok :: "nat \<Rightarrow> tcp_connection \<Rightarrow> epoll_event \<Rightarrow> bool" where
  "event_ok m c ev \<longleftrightarrow> ev_in ev \<and> (serves m c ev \<or> ev_ret ev = 0 \<or> ev_ret ev < 0 \<and> \<not> ev_block ev)"

fun step_state :: "'a step \<Rightarrow> 'a" where
  "step_state (Go s) = s"
| "step_state (Stop s) = s"

definition close_conn :: "thread_state \<Rightarrow> nat \<Rightarrow> thread_state" where
  "close_conn s i = s\<lparr>connections := (connections s)[i := (connections s ! i)\<lparr>tc_closed := True\<rparr>]\<rparr>"

lemma on_readable_no_data:
  assumes "ev_idx ev < length (connections s)" and "ev_ret ev = 0 \<or> ev_ret ev < 0 \<and> \<not> ev_block ev"
  shows "on_readable whole after cfg ev s = Inr (if ev_ret ev = 0 then Go (close_conn s (ev_idx ev)) else Stop s)"
  using assms by (auto simp: on_readable_def receive_def close_conn_def)

lemma thread_ok_close:
  assumes "thread_ok m s" and "i < length (connections s)"
  shows "thread_ok m (close_conn s i)"
proof (rule thread_ok_update [OF assms])
  show "conn_ok m ((connections s ! i)\<lparr>tc_closed := True\<rparr>)"
    using assms by (simp add: thread_ok_def conn_ok_def)
qed (simp_all add: close_conn_def)

subsection \<open>Picking and sending\<close>

lemma pick_loop_ok:
  assumes "cs \<noteq> []"
  shows "\<exists>r. pick_loop rs (int (length cs)) cs = Inr r \<and>
    (\<forall>i. r = Some i \<longrightarrow> i < length cs \<and> unat (tc_pending (cs ! i)) < MAX_PENDING_REQS \<and> \<not> tc_closed (cs ! i))"
proof (induction rs)
  case (Cons k rs)
  have "k mod length cs < length cs" using assms by simp
  then show ?case using Cons assms by (auto simp: Let_def)
qed simp

definition threads_conns :: "agent_config \<Rightarrow> thread_state \<Rightarrow> bool" where
  "threads_conns cfg s \<longleftrightarrow> per_thread_conn cfg = Inr (int (length (connections s))) \<and> connections s \<noteq> []"

lemma pick_conn_ok:
  assumes "threads_conns cfg s"
  shows "\<exists>r. pick_conn cfg rs (connections s) = Inr r \<and>
    (\<forall>i. r = Some i \<longrightarrow> i < length (connections s) \<and> unat (tc_pending (connections s ! i)) < MAX_PENDING_REQS
       \<and> \<not> tc_closed (connections s ! i))"
  using pick_loop_ok [of "connections s" "take 10 rs"] assms by (simp add: threads_conns_def pick_conn_def)

text \<open>A send the system accepts whole; the generators deliver a request and a waiting time.\<close>

definition send_ok :: "agent_config \<Rightarrow> thread_state \<Rightarrow> send_env \<Rightarrow> bool" where
  "send_ok cfg s e \<longleftrightarrow> (\<exists>req arg ia. prepare_request cfg (se_req e) (thr_arg s) = Inr (req, arg)
     \<and> (se_ret e = int (request_bytes req) \<or> se_ret e < 0 \<and> \<not> se_block e) \<and> get_ia cfg (se_ia e) = Inr ia)"

definition sent_on :: "thread_state \<Rightarrow> nat \<Rightarrow> send_env \<Rightarrow> thread_arg \<Rightarrow> int \<Rightarrow> thread_state" where
  "sent_on s i e arg ia =
     s\<lparr>thr_arg := arg,
       connections := (connections s)[i := (connections s ! i)\<lparr>tc_pending := tc_pending (connections s ! i) + 1\<rparr>],
       avail_reqs := avail_reqs s - 1,
       thr_stats := add_throughput_tx_sample (se_measuring e) \<lparr>br_bytes = word_of_int (se_ret e), br_reqs = 1\<rparr> (thr_stats s),
       next_tx := next_tx s + ia\<rparr>"

lemma unat_pending_Suc: "unat (w :: u16) < MAX_PENDING_REQS \<Longrightarrow> unat (w + 1) = unat w + 1"
proof -
  assume "unat w < MAX_PENDING_REQS"
  then have "unat (w + word_of_int 1) = unat w + nat 1" by (intro unat_add_int_u16) (simp_all add: MAX_PENDING_REQS_def)
  then show ?thesis by simp
qed

lemma thread_ok_sent:
  assumes "thread_ok m s" and "i < length (connections s)" and "unat (tc_pending (connections s ! i)) < MAX_PENDING_REQS"
  shows "thread_ok m (sent_on s i e arg ia)"
proof (rule thread_ok_update [OF assms(1,2)])
  let ?c = "(connections s ! i)\<lparr>tc_pending := tc_pending (connections s ! i) + 1\<rparr>"
  note Suc = unat_pending_Suc [OF assms(3)]
  show "conn_ok m ?c" using assms Suc by (simp add: thread_ok_def conn_ok_def)
  have "unat (tc_pending ?c) = unat (tc_pending (connections s ! i)) + 1" using Suc by simp
  then have "int (unat (tc_pending ?c)) = int (unat (tc_pending (connections s ! i))) + 1"
    by (simp only: of_nat_add of_nat_1)
  then show "avail_reqs (sent_on s i e arg ia) = avail_reqs s + int (unat (tc_pending (connections s ! i))) - int (unat (tc_pending ?c))"
    by (simp add: sent_on_def del: of_nat_unat)
qed (simp_all add: sent_on_def)

text \<open>Sending in each mode is the same step after the connection's ring has been written.\<close>

lemma send_on_eq:
  assumes "send_ok cfg s e" and "i < length (connections s)" and "mode \<noteq> No_stamp \<longrightarrow> i < length (conn_tx s)"
  shows "\<exists>arg. send_on mode cfg e i s = Inr (Stop (s\<lparr>thr_arg := arg\<rparr>)) \<or>
    (\<exists>ia n. send_on mode cfg e i s = Inr (Go (sent_on
       (case mode of No_stamp \<Rightarrow> s
        | Nic_stamp \<Rightarrow> s\<lparr>conn_tx := (conn_tx s)[i := add_pending_tx_timestamp (conn_tx s ! i) n]\<rparr>
        | User_stamp \<Rightarrow> s\<lparr>conn_tx := (conn_tx s)[i := fst (push_complete_tx_timestamp (se_measuring e) (se_time e) (conn_tx s ! i, thr_tx s))],
            thr_tx := snd (push_complete_tx_timestamp (se_measuring e) (se_time e) (conn_tx s ! i, thr_tx s))\<rparr>) i e arg ia)))"
proof -
  from assms(1) obtain req arg ia where req: "prepare_request cfg (se_req e) (thr_arg s) = Inr (req, arg)"
    and ret: "se_ret e = int (request_bytes req) \<or> se_ret e < 0 \<and> \<not> se_block e" and ia: "get_ia cfg (se_ia e) = Inr ia"
    by (auto simp: send_ok_def)
  show ?thesis
  proof (cases "se_ret e < 0 \<and> \<not> se_block e")
    case True
    then show ?thesis using req by (intro exI [of _ arg]) (simp add: send_on_def Let_def)
  next
    case False
    then have "se_ret e = int (request_bytes req)" using ret by blast
    then show ?thesis
      using False req ia assms(2,3)
      by (intro exI [of _ arg] disjI2 exI [of _ ia] exI [of _ "word_of_nat (request_bytes req)"], cases mode)
        (simp_all add: send_on_def Let_def sent_on_def case_prod_unfold)
  qed
qed

lemma thread_ok_arg: "thread_ok m (s\<lparr>thr_arg := a\<rparr>) = thread_ok m s"
  by (simp add: thread_ok_def)

lemma one_send_throughput:
  assumes "thread_ok m s" and "threads_conns cfg s" and "\<forall>e \<in> set es. send_ok cfg s e"
  shows "\<exists>r. one_send No_stamp cfg es s = Inr r \<and> thread_ok m (step_state r)"
proof (cases es)
  case Nil
  then show ?thesis using assms(1) by (simp add: one_send_def)
next
  case (Cons e es')
  obtain p where p: "pick_conn cfg (se_rands e) (connections s) = Inr p"
    and pick: "\<And>i. p = Some i \<Longrightarrow> i < length (connections s) \<and> unat (tc_pending (connections s ! i)) < MAX_PENDING_REQS"
    using pick_conn_ok [OF assms(2)] by blast
  show ?thesis
  proof (cases p)
    case None
    then show ?thesis using p assms(1) Cons by (simp add: one_send_def try_send_def)
  next
    case (Some i)
    have "send_ok cfg s e" using assms(3) Cons by simp
    from send_on_eq [OF this conjunct1 [OF pick [OF Some]], of No_stamp] obtain r where
      "send_on No_stamp cfg e i s = Inr r" and "thread_ok m (step_state r)"
      using thread_ok_sent [OF assms(1) conjunct1 [OF pick [OF Some]] conjunct2 [OF pick [OF Some]]] assms(1)
      by (auto simp: thread_ok_arg)
    then show ?thesis using p Some assms(1) Cons by (simp add: one_send_def try_send_def)
  qed
qed

text \<open>The events of an iteration, each in the state the previous ones have left.\<close>

fun events_ok ::
  "(epoll_event \<Rightarrow> thread_state \<Rightarrow> thread_state step c_result) \<Rightarrow> (tcp_connection \<Rightarrow> epoll_event \<Rightarrow> bool)
   \<Rightarrow> epoll_event list \<Rightarrow> thread_state \<Rightarrow> bool" where
  "events_ok handle okay [] s = True"
| "events_ok handle okay (ev # evs) s =
     (ev_idx ev < length (connections s) \<and> okay (connections s ! ev_idx ev) ev \<and>
      (case handle ev s of Inr (Go s') \<Rightarrow> events_ok handle okay evs s' | _ \<Rightarrow> True))"

lemma event_loop_invariant:
  assumes "I s" and "events_ok handle okay evs s"
    and "\<And>ev s. I s \<Longrightarrow> ev_idx ev < length (connections s) \<Longrightarrow> okay (connections s ! ev_idx ev) ev \<Longrightarrow>
      \<exists>r. handle ev s = Inr r \<and> I (step_state r)"
  shows "\<exists>r. event_loop handle evs s = Inr r \<and> I (step_state r)"
  using assms(1,2)
proof (induction evs arbitrary: s)
  case Nil
  then show ?case by simp
next
  case (Cons ev evs)
  obtain r where r: "handle ev s = Inr r" "I (step_state r)"
    using assms(3) [OF Cons.prems(1), of ev] Cons.prems(2) by auto
  show ?case
  proof (cases r)
    case (Go s')
    then show ?thesis using Cons.IH [of s'] Cons.prems(2) r by simp
  next
    case (Stop s')
    then show ?thesis using r by simp
  qed
qed

lemma throughput_event_ok:
  assumes "app_ready cfg m" and "thread_ok m s" and "ev_idx ev < length (connections s)"
    and "event_ok m (connections s ! ev_idx ev) ev"
  shows "\<exists>r. throughput_event cfg ev s = Inr r \<and> thread_ok m (step_state r)"
proof -
  have m: "0 < m" using assms(1) by (simp add: app_ready_def)
  have ev: "ev_in ev" using assms(4) by (simp add: event_ok_def)
  consider "serves m (connections s ! ev_idx ev) ev" | "ev_ret ev = 0 \<or> ev_ret ev < 0 \<and> \<not> ev_block ev"
    using assms(4) by (auto simp: event_ok_def)
  then show ?thesis
  proof cases
    case 1
    obtain c' r where
      got: "received_ok m (connections s ! ev_idx ev) ev c' r"
      and run: "on_readable False (\<lambda>_ _ s. Inr s) cfg ev s
        = c_bind (Inr (after_receive s (ev_idx ev) c' r)) (\<lambda>s2.
            Inr (Go (s2\<lparr>thr_stats := add_throughput_rx_sample (ev_measuring ev) r (thr_stats s2)\<rparr>)))"
      using on_readable_serves [OF assms(1-3) 1, where whole = False and after = "\<lambda>_ _ s. Inr s"] by blast
    have "thread_ok m (after_receive s (ev_idx ev) c' r)" by (rule thread_ok_receive [OF assms(2,3) m got 1])
    then show ?thesis using run ev by (simp add: throughput_event_def thread_ok_def)
  next
    case 2
    then show ?thesis
      using on_readable_no_data [OF assms(3) 2] thread_ok_close [OF assms(2,3)] assms(2) ev
      by (auto simp: throughput_event_def)
  qed
qed

end
