(* ===== verification/Transport_Properties.thy ===== *)
theory Transport_Properties
  imports Transport_Invariant Stats_Properties
begin

text \<open>
  The guarantees of the main loops: the throughput loop never fails on a well-behaved peer and keeps
  its bookkeeping exact; the symmetric loop records the response time of the right request; what
  happens when a response arrives in pieces; and how connections are spread over the targets.
\<close>

subsection \<open>The rings of user-space times\<close>

definition rings_ok :: "thread_state \<Rightarrow> bool" where
  "rings_ok s \<longleftrightarrow> length (conn_tx s) = length (connections s) \<and>
     (\<forall>i < length (connections s). complete_wf (conn_tx s ! i)
        \<and> in_flight (conn_tx s ! i) = unat (tc_pending (connections s ! i)))"

text \<open>The ring after the responses to its \<open>k\<close> oldest requests.\<close>

definition consumed_by :: "nat \<Rightarrow> pending_tx \<Rightarrow> pending_tx" where
  "consumed_by k q = q\<lparr>pq_consumed := pq_consumed q + word_of_nat k\<rparr>"

lemma unat_consumed_by:
  assumes "k \<le> in_flight q" and "pq_wf q"
  shows "unat (pq_consumed (consumed_by k q)) = unat (pq_consumed q) + k"
proof -
  have k: "unat (pq_consumed q) + k \<le> unat (pq_head q)"
    using assms by (auto simp: in_flight_def pq_wf_def word_le_nat_alt)
  also have "unat (pq_head q) < 2 ^ 32" by (rule unat_u32_pow)
  finally have sum: "unat (pq_consumed q) + k < 2 ^ 32" .
  then have "unat (word_of_nat k :: u32) = k" by (intro unat_of_nat_u32) linarith
  then show ?thesis
    using sum by (simp add: consumed_by_def unat_add_lem [THEN iffD1])
qed

lemma consumed_by_wf:
  assumes "k \<le> in_flight q" and "pq_wf q"
  shows "pq_wf (consumed_by k q)" and "in_flight (consumed_by k q) = in_flight q - k"
  using unat_consumed_by [OF assms] assms
  by (auto simp: pq_wf_def in_flight_def word_le_nat_alt consumed_by_def)

lemma consumed_by_fields [simp]:
  "pq_head (consumed_by k q) = pq_head q" "pq_tail (consumed_by k q) = pq_tail q"
  "pq_pending (consumed_by k q) = pq_pending q"
  by (simp_all add: consumed_by_def)

lemma consumed_by_Suc: "(consumed_by k q)\<lparr>pq_consumed := pq_consumed (consumed_by k q) + 1\<rparr> = consumed_by (Suc k) q"
  by (simp add: consumed_by_def)

lemma skip_but_last_consumed:
  assumes "unat reqs = Suc k" and "k \<le> 16"
  shows "skip_but_last reqs q = consumed_by k q"
proof (cases "k = 0")
  case True
  then have "\<not> 1 < reqs" using assms(1) by (simp add: word_less_nat_alt)
  with True show ?thesis by (simp add: skip_but_last_def consumed_by_def)
next
  case False
  have one: "1 < reqs" using False assms(1) by (simp add: word_less_nat_alt)
  have r: "unat (reqs - 1) = k" using one assms(1) by (simp add: unat_sub word_le_nat_alt)
  have "u64_to_c_int (reqs - 1) = int k"
    using u64_to_c_int_sub [of "reqs - 1" 0] r assms(2) by simp
  then show ?thesis
    using one False by (simp add: skip_but_last_def blind_skip_tx_timestamps_def consumed_by_def)
qed

text \<open>Skipping the times of all but the last of \<open>k\<close> requests.\<close>

lemma skip_ok:
  assumes "complete_wf q" and "unat reqs = Suc k" and "Suc k \<le> in_flight q" and "k \<le> 16"
  shows "complete_wf (skip_but_last reqs q) \<and> unread_times (skip_but_last reqs q) = drop k (unread_times q)
    \<and> pq_head (skip_but_last reqs q) = pq_head q \<and> unat (pq_consumed (skip_but_last reqs q)) = unat (pq_consumed q) + k"
proof -
  have q: "k \<le> in_flight q" "pq_wf q" "pq_tail q = pq_head q" using assms(1,3) by (simp_all add: complete_wf_def)
  note cons = unat_consumed_by [OF q(1,2)]
  have "[unat (pq_consumed q) + k ..< unat (pq_head q)] = drop k [unat (pq_consumed q) ..< unat (pq_head q)]"
    by simp
  then have "unread_times (consumed_by k q) = drop k (unread_times q)"
    using cons q(3) by (simp add: unread_times_def entry_def drop_map)
  then show ?thesis
    using cons consumed_by_wf(1) [OF q(1,2)] q(3)
    by (simp add: skip_but_last_consumed [OF assms(2,4)] complete_wf_def)
qed

lemma length_unread: "complete_wf q \<Longrightarrow> length (unread_times q) = in_flight q"
  by (simp add: unread_times_def in_flight_def complete_wf_def)

text \<open>Matching \<open>k\<close> responses: the time handed out is that of the \<open>k\<close>-th unread request.\<close>

lemma skip_pop_ok:
  assumes "complete_wf q" and "unat reqs = k" and "1 \<le> k" and "k \<le> in_flight q"
  shows "\<exists>info q'. pop_pending_tx_timestamps (skip_but_last reqs q) = Inr (Some info, q')
    \<and> ti_time info = unread_times q ! (k - 1) \<and> unread_times q' = drop k (unread_times q)
    \<and> complete_wf q' \<and> in_flight q' = in_flight q - k \<and> pq_head q' = pq_head q"
proof -
  obtain j where j: "k = Suc j" using assms(3) by (cases k) simp_all
  have "in_flight q \<le> 16" using assms(1) by (simp add: complete_wf_def pq_wf_def in_flight_def MAX_PENDING_REQS_def)
  then have "j \<le> 16" using assms(4) j by simp
  let ?q = "skip_but_last reqs q"
  from skip_ok [OF assms(1) _ _ \<open>j \<le> 16\<close>, of reqs] assms(2,4) j
  have wf: "complete_wf ?q" and unread: "unread_times ?q = drop j (unread_times q)"
    and head: "pq_head ?q = pq_head q" and cons: "unat (pq_consumed ?q) = unat (pq_consumed q) + j" by auto
  have "j < length (unread_times q)" using assms(1,4) j by (simp add: length_unread)
  then have first: "unread_times ?q = unread_times q ! j # drop (Suc j) (unread_times q)"
    unfolding unread by (simp add: Cons_nth_drop_Suc)
  let ?q' = "?q\<lparr>pq_consumed := pq_consumed ?q + 1\<rparr>"
  from unread_times_pop [OF wf first]
  have pop: "ti_time (entry ?q (unat (pq_consumed ?q))) = unread_times q ! j"
    "unread_times ?q' = drop (Suc j) (unread_times q)" "complete_wf ?q'" by auto
  have "pop_pending_tx_timestamps ?q = Inr (Some (entry ?q (unat (pq_consumed ?q))), ?q')"
    using pop_complete [OF wf] first by simp
  moreover have "in_flight ?q' = in_flight q - k"
    using length_unread [OF pop(3)] length_unread [OF assms(1)] pop(2) j by simp
  ultimately show ?thesis using pop j head by auto
qed

lemma rings_ok_update:
  assumes "rings_ok s" and "i < length (connections s)" and "complete_wf q" and "in_flight q = unat (tc_pending c)"
    and "connections s' = (connections s)[i := c]" and "conn_tx s' = (conn_tx s)[i := q]"
  shows "rings_ok s'"
  using assms by (simp add: rings_ok_def nth_list_update)

subsection \<open>The response times of the symmetric agent\<close>

text \<open>A response time below a second, as both clock readings are normalised and after 1970.\<close>

lemma timespec_diff_below_second:
  assumes "timespec_ok a" and "timespec_ok b" and "b \<le> a" and "0 < tv_sec b"
    and "timespec_ns a - timespec_ns b < 10 ^ 9"
  shows "timespec_diff (Some a) (Some b) = (0, Some (Timespec 0 (timespec_ns a - timespec_ns b)))"
proof -
  have "0 < tv_sec a" using assms(3,4) by (auto simp: less_eq_timespec_def)
  then obtain d where d: "timespec_diff (Some a) (Some b) = (0, Some d)" using assms(4) by fastforce
  note ns = timespec_diff_ns [OF d] and ok = timespec_diff_ok [OF d assms(1,2)]
  have "0 \<le> timespec_ns d" using ns assms timespec_ns_mono [of b a] by simp
  then have "tv_sec d = 0"
    using ok timespec_ok_sec_nonneg [OF ok] ns assms(5) by (auto simp: timespec_ns_def timespec_ok_def)
  then have "d = Timespec 0 (timespec_ns a - timespec_ns b)"
    using ns by (cases d) (simp add: timespec_ns_def)
  with d show ?thesis by simp
qed

text \<open>The request whose time is matched with the data of an event.\<close>

definition matched_time :: "nat \<Rightarrow> thread_state \<Rightarrow> epoll_event \<Rightarrow> timespec" where
  "matched_time m s ev = unread_times (conn_tx s ! ev_idx ev) ! (arrived (connections s ! ev_idx ev) ev div m - 1)"

definition timely :: "nat \<Rightarrow> thread_state \<Rightarrow> epoll_event \<Rightarrow> bool" where
  "timely m s ev \<longleftrightarrow> timespec_ok (ev_time ev) \<and> timespec_ok (matched_time m s ev) \<and> 0 < tv_sec (matched_time m s ev)
     \<and> matched_time m s ev \<le> ev_time ev \<and> timespec_ns (ev_time ev) - timespec_ns (matched_time m s ev) < 10 ^ 9"

definition after_user_match :: "nat \<Rightarrow> stats_state \<Rightarrow> thread_state \<Rightarrow> epoll_event \<Rightarrow> latency_stats" where
  "after_user_match m st s ev =
     (if \<not> ev_measuring ev \<or> sampling_rate st < ev_rnd ev then thr_stats s
      else lat_store (word_of_int (per_thread_samples st)) (thr_stats s)
        (timespec_ns (ev_time ev) - timespec_ns (matched_time m s ev), Some (matched_time m s ev)))"

lemma user_event_serves:
  assumes "app_ready cfg m" and "thread_ok m s" and "rings_ok s" and "ev_idx ev < length (connections s)"
    and "serves m (connections s ! ev_idx ev) ev" and "m dvd arrived (connections s ! ev_idx ev) ev"
    and "timely m s ev" and "ev_measuring ev \<longrightarrow> lat_wf (word_of_int (per_thread_samples st)) (thr_stats s)"
  shows "\<exists>s' c' q' r. user_event cfg st ev s = Inr (Go s') \<and> thread_ok m s' \<and> rings_ok s'
    \<and> connections s' = (connections s)[ev_idx ev := c'] \<and> received_ok m (connections s ! ev_idx ev) ev c' r
    \<and> conn_tx s' = (conn_tx s)[ev_idx ev := q']
    \<and> unread_times q' = drop (arrived (connections s ! ev_idx ev) ev div m) (unread_times (conn_tx s ! ev_idx ev))
    \<and> pq_head q' = pq_head (conn_tx s ! ev_idx ev) \<and> next_tx s' = next_tx s
    \<and> thr_tx s' = thr_tx s \<and> thr_stats s' = add_throughput_rx_sample (ev_measuring ev) r (after_user_match m st s ev)"
proof -
  let ?i = "ev_idx ev" and ?c = "connections s ! ev_idx ev" and ?q = "conn_tx s ! ev_idx ev"
  have m: "0 < m" using assms(1) by (simp add: app_ready_def)
  have ok: "conn_ok m ?c" using assms(2,4) by (simp add: thread_ok_def)
  obtain c' r where got: "received_ok m ?c ev c' r"
    and run: "on_readable True (user_match st) cfg ev s
      = c_bind (user_match st ev (br_reqs r) (after_receive s ?i c' r)) (\<lambda>s2.
          Inr (Go (s2\<lparr>thr_stats := add_throughput_rx_sample (ev_measuring ev) r (thr_stats s2)\<rparr>)))"
    using on_readable_serves [OF assms(1,2,4,5), where whole = True and after = "user_match st"] assms(6) by blast
  note pend = received_pending [OF got assms(5) ok m]
  have k: "unat (br_reqs r) = arrived ?c ev div m" using got by (simp add: received_ok_def)
  have q: "complete_wf ?q" "in_flight ?q = unat (tc_pending ?c)" "length (conn_tx s) = length (connections s)"
    using assms(3,4) by (simp_all add: rings_ok_def)
  obtain info q' where pop: "pop_pending_tx_timestamps (skip_but_last (br_reqs r) ?q) = Inr (Some info, q')"
    and info: "ti_time info = matched_time m s ev" and unread: "unread_times q' = drop (arrived ?c ev div m) (unread_times ?q)"
    and q': "complete_wf q'" "in_flight q' = unat (tc_pending c')" and head: "pq_head q' = pq_head ?q"
    using skip_pop_ok [OF q(1) refl pend(2)] pend(1,3) q(2) k by (auto simp: matched_time_def)
  let ?s1 = "after_receive s ?i c' r"
  have s1: "conn_tx ?s1 = conn_tx s" "thr_stats ?s1 = thr_stats s" "connections ?s1 = (connections s)[?i := c']"
    by (simp_all add: after_receive_def)
  have diff: "timespec_diff (Some (ev_time ev)) (Some (ti_time info))
      = (0, Some (Timespec 0 (timespec_ns (ev_time ev) - timespec_ns (matched_time m s ev))))"
    unfolding info using assms(7) by (intro timespec_diff_below_second) (simp_all add: timely_def)
  let ?s2 = "?s1\<lparr>conn_tx := (conn_tx s)[?i := q'], thr_stats := after_user_match m st s ev\<rparr>"
  have add_latency_if: "add_latency_sample (ev_measuring ev) (ev_rnd ev) st d tx (thr_stats s) =
      Inr (if \<not> ev_measuring ev \<or> sampling_rate st < ev_rnd ev then thr_stats s
           else lat_store (word_of_int (per_thread_samples st)) (thr_stats s) (d, tx))" for d tx
  proof (cases "ev_measuring ev")
    case True
    then show ?thesis using assms(8) by (intro add_latency_sample_wf) simp
  qed (simp add: add_latency_sample_def)
  have "user_match st ev (br_reqs r) ?s1 = Inr ?s2"
    using assms(4) q(3) pop diff
    by (simp add: user_match_def s1 info add_latency_if after_user_match_def del: timespec_diff.simps)
  then have "user_event cfg st ev s
      = Inr (Go (?s2\<lparr>thr_stats := add_throughput_rx_sample (ev_measuring ev) r (after_user_match m st s ev)\<rparr>))"
    using run assms(5) by (simp add: user_event_def serves_def)
  moreover have "thread_ok m ?s1" by (rule thread_ok_receive [OF assms(2,4) m got assms(5)])
  moreover have "rings_ok (?s2\<lparr>thr_stats := add_throughput_rx_sample (ev_measuring ev) r (after_user_match m st s ev)\<rparr>)"
    by (rule rings_ok_update [OF assms(3,4) q']) (simp_all add: s1)
  ultimately show ?thesis
    using unread got head
    by (intro exI [of _ "?s2\<lparr>thr_stats := add_throughput_rx_sample (ev_measuring ev) r (after_user_match m st s ev)\<rparr>"]
        exI [of _ c'] exI [of _ q'] exI [of _ r])
      (simp add: thread_ok_def after_receive_def)
qed

subsection \<open>Sending with user-space times\<close>

definition rings_young :: "thread_state \<Rightarrow> bool" where
  "rings_young s \<longleftrightarrow> (\<forall>q \<in> set (conn_tx s). unat (pq_head q) + 1 < 2 ^ 32)"

lemma user_sent_rings:
  assumes "rings_ok s" and "rings_young s" and "i < length (connections s)"
    and "unat (tc_pending (connections s ! i)) < MAX_PENDING_REQS"
    and "connections s' = (connections s)[i := (connections s ! i)\<lparr>tc_pending := tc_pending (connections s ! i) + 1\<rparr>]"
    and "conn_tx s' = (conn_tx s)[i := fst (push_complete_tx_timestamp measuring t (conn_tx s ! i, txs))]"
  shows "rings_ok s'"
proof (rule rings_ok_update [OF assms(1,3) _ _ assms(5,6)])
  let ?q = "conn_tx s ! i" and ?q' = "fst (push_complete_tx_timestamp measuring t (conn_tx s ! i, txs))"
  have q: "complete_wf ?q" "in_flight ?q = unat (tc_pending (connections s ! i))" "i < length (conn_tx s)"
    using assms(1,3) by (simp_all add: rings_ok_def)
  have "unat (pq_head ?q) + 1 < 2 ^ 32" using assms(2) q(3) by (simp only: rings_young_def nth_mem)
  then have room: "has_room ?q" using q(2) assms(4) by (simp add: has_room_def)
  show wf: "complete_wf ?q'" by (rule complete_wf_push [OF q(1) room])
  have "length (unread_times ?q') = Suc (length (unread_times ?q))"
    unfolding unread_times_push [OF q(1) room] by simp
  then show "in_flight ?q' = unat (tc_pending ((connections s ! i)\<lparr>tc_pending := tc_pending (connections s ! i) + 1\<rparr>))"
    using length_unread [OF wf] length_unread [OF q(1)] q(2) unat_pending_Suc [OF assms(4)] by simp
qed

lemma one_send_user:
  assumes "thread_ok m s" and "rings_ok s" and "rings_young s" and "threads_conns cfg s" and "\<forall>e \<in> set es. send_ok cfg s e"
  shows "\<exists>r. one_send User_stamp cfg es s = Inr r \<and> thread_ok m (step_state r) \<and> rings_ok (step_state r)
    \<and> thr_stats (step_state r) \<in> insert (thr_stats s) ((\<lambda>p. thr_stats s\<lparr>lt_th := p\<rparr>) ` UNIV)"
proof (cases es)
  case Nil
  then show ?thesis using assms(1,2) by (simp add: one_send_def)
next
  case (Cons e es')
  obtain p where p: "pick_conn cfg (se_rands e) (connections s) = Inr p"
    and pick: "\<And>i. p = Some i \<Longrightarrow> i < length (connections s) \<and> unat (tc_pending (connections s ! i)) < MAX_PENDING_REQS"
    using pick_conn_ok [OF assms(4)] by blast
  show ?thesis
  proof (cases p)
    case None
    then show ?thesis using p assms(1,2) Cons by (simp add: one_send_def try_send_def)
  next
    case (Some i)
    have i: "i < length (connections s)" "unat (tc_pending (connections s ! i)) < MAX_PENDING_REQS"
      using pick [OF Some] by auto
    have e: "send_ok cfg s e" "i < length (conn_tx s)" using assms(2,5) Cons i by (simp_all add: rings_ok_def)
    let ?push = "push_complete_tx_timestamp (se_measuring e) (se_time e) (conn_tx s ! i, thr_tx s)"
    let ?s1 = "s\<lparr>conn_tx := (conn_tx s)[i := fst ?push], thr_tx := snd ?push\<rparr>"
    have s1: "thread_ok m ?s1" using assms(1) by (simp add: thread_ok_def)
    from send_on_eq [OF e(1) i(1), of User_stamp] e(2) obtain arg ia where
      "send_on User_stamp cfg e i s = Inr (Stop (s\<lparr>thr_arg := arg\<rparr>)) \<or>
       send_on User_stamp cfg e i s = Inr (Go (sent_on ?s1 i e arg ia))" by auto
    then consider "send_on User_stamp cfg e i s = Inr (Stop (s\<lparr>thr_arg := arg\<rparr>))"
      | "send_on User_stamp cfg e i s = Inr (Go (sent_on ?s1 i e arg ia))" by blast
    then show ?thesis
    proof cases
      case 1
      then show ?thesis using p Some assms(1,2) Cons by (simp add: one_send_def try_send_def thread_ok_arg rings_ok_def)
    next
      case 2
      have "thread_ok m (sent_on ?s1 i e arg ia)" by (rule thread_ok_sent [OF s1]) (use i in simp_all)
      moreover have "rings_ok (sent_on ?s1 i e arg ia)"
        by (rule user_sent_rings [OF assms(2,3) i]) (simp_all add: sent_on_def)
      ultimately show ?thesis
        using 2 p Some assms(1,2) Cons
        by (auto simp: one_send_def try_send_def sent_on_def add_throughput_tx_sample_def image_iff)
    qed
  qed
qed

subsection \<open>Properties\<close>

lemma throughput_iter_ok:
  assumes "app_ready cfg m" and "thread_ok m s" and "threads_conns cfg s"
    and "\<forall>e \<in> set (ie_sends env). send_ok cfg s e"
    and "\<forall>s1. one_send No_stamp cfg (ie_sends env) s = Inr (Go s1) \<longrightarrow>
      events_ok (throughput_event cfg) (event_ok m) (ie_events env) s1"
  shows "\<exists>r. throughput_iter cfg env s = Inr r \<and> thread_ok m (step_state r)"
proof (cases "ie_load env")
  case False
  then show ?thesis using assms(2) by (simp add: throughput_iter_def thread_ok_def)
next
  case True
  obtain r where r: "one_send No_stamp cfg (ie_sends env) s = Inr r" "thread_ok m (step_state r)"
    using one_send_throughput [OF assms(2-4)] by blast
  show ?thesis
  proof (cases r)
    case (Stop s1)
    then show ?thesis using r True by (simp add: throughput_iter_def then_events_def)
  next
    case (Go s1)
    have "events_ok (throughput_event cfg) (event_ok m) (ie_events env) s1" using assms(5) r(1) Go by blast
    from event_loop_invariant [of "thread_ok m", OF _ this throughput_event_ok [OF assms(1)]] r(2) Go
    show ?thesis using r(1) True by (simp add: throughput_iter_def then_events_def)
  qed
qed

text \<open>
  The throughput loop is safe and its bookkeeping exact: as long as the peer answers requests with
  whole responses, or closes or resets connections, no iteration fails, and afterwards every
  connection still has at most 16 requests in flight and less than a message buffered, and
  \<open>avail_reqs\<close> is 16 per connection minus the requests in flight.
\<close>

theorem throughput_iter_safe:
  assumes "app_ready cfg m" and "thread_ok m s" and "threads_conns cfg s"
    and "\<forall>e \<in> set (ie_sends env). send_ok cfg s e"
    and "\<forall>s1. one_send No_stamp cfg (ie_sends env) s = Inr (Go s1) \<longrightarrow>
      events_ok (throughput_event cfg) (event_ok m) (ie_events env) s1"
  shows "\<exists>r. throughput_iter cfg env s = Inr r \<and> thread_ok m (step_state r)"
  by (rule throughput_iter_ok [OF assms])

text \<open>
  The symmetric agent measures the right response: for data that completes \<open>k\<close> responses on a
  connection, the recorded latency is the time from the transmission of the \<open>k\<close>-th unanswered
  request of that connection to the receipt, tagged with that transmission; the \<open>k\<close> times are
  consumed, and ring, connection and thread stay consistent.
\<close>

theorem user_latency_is_response_time:
  assumes "app_ready cfg m" and "thread_ok m s" and "rings_ok s" and "ev_idx ev < length (connections s)"
    and "serves m (connections s ! ev_idx ev) ev" and "arrived (connections s ! ev_idx ev) ev = k * m"
    and "timely m s ev" and "lat_wf (word_of_int (per_thread_samples st)) (thr_stats s)"
    and "ev_measuring ev" and "\<not> sampling_rate st < ev_rnd ev"
  shows "\<exists>s' th. user_event cfg st ev s = Inr (Go s') \<and> thread_ok m s' \<and> rings_ok s'
    \<and> unread_times (conn_tx s' ! ev_idx ev) = drop k (unread_times (conn_tx s ! ev_idx ev))
    \<and> thr_stats s' = (lat_store (word_of_int (per_thread_samples st)) (thr_stats s)
        (timespec_ns (ev_time ev) - timespec_ns (unread_times (conn_tx s ! ev_idx ev) ! (k - 1)),
         Some (unread_times (conn_tx s ! ev_idx ev) ! (k - 1))))\<lparr>lt_th := th\<rparr>"
proof -
  have m: "0 < m" using assms(1) by (simp add: app_ready_def)
  have k: "arrived (connections s ! ev_idx ev) ev div m = k" using assms(6) m by simp
  have "m dvd arrived (connections s ! ev_idx ev) ev" using assms(6) by simp
  moreover have "ev_idx ev < length (conn_tx s)" using assms(3,4) by (simp add: rings_ok_def)
  ultimately show ?thesis
    using user_event_serves [OF assms(1-5) _ assms(7), of st] assms(8-10)
    by (fastforce simp: k after_user_match_def matched_time_def add_throughput_rx_sample_def)
qed

definition user_event_okay :: "nat \<Rightarrow> stats_state \<Rightarrow> thread_state \<Rightarrow> epoll_event \<Rightarrow> bool" where
  "user_event_okay m st s ev \<longleftrightarrow> ev_in ev \<and> (ev_ret ev = 0 \<or> ev_ret ev < 0 \<and> \<not> ev_block ev \<or>
     serves m (connections s ! ev_idx ev) ev \<and> m dvd arrived (connections s ! ev_idx ev) ev \<and> timely m s ev
     \<and> (ev_measuring ev \<longrightarrow> lat_wf (word_of_int (per_thread_samples st)) (thr_stats s)))"

fun user_events_okay :: "nat \<Rightarrow> agent_config \<Rightarrow> stats_state \<Rightarrow> epoll_event list \<Rightarrow> thread_state \<Rightarrow> bool" where
  "user_events_okay m cfg st [] s = True"
| "user_events_okay m cfg st (ev # evs) s =
     (ev_idx ev < length (connections s) \<and> user_event_okay m st s ev \<and>
      (case user_event cfg st ev s of Inr (Go s') \<Rightarrow> user_events_okay m cfg st evs s' | _ \<Rightarrow> True))"

lemma user_event_ok:
  assumes "app_ready cfg m" and "thread_ok m s" and "rings_ok s" and "ev_idx ev < length (connections s)"
    and "user_event_okay m st s ev"
  shows "\<exists>r. user_event cfg st ev s = Inr r \<and> thread_ok m (step_state r) \<and> rings_ok (step_state r)"
proof (cases "ev_ret ev = 0 \<or> ev_ret ev < 0 \<and> \<not> ev_block ev")
  case True
  have ev: "ev_in ev" using assms(5) by (simp add: user_event_okay_def)
  have "rings_ok (close_conn s (ev_idx ev))"
    using assms(3,4) by (simp add: rings_ok_def close_conn_def nth_list_update)
  then show ?thesis
    using on_readable_no_data [OF assms(4) True] thread_ok_close [OF assms(2,4)] assms(2,3) ev
    by (auto simp: user_event_def)
next
  case False
  then show ?thesis
    using user_event_serves [OF assms(1-4), of st] assms(5) unfolding user_event_okay_def by fastforce
qed

lemma user_event_loop_ok:
  assumes "app_ready cfg m" and "thread_ok m s" and "rings_ok s" and "user_events_okay m cfg st evs s"
  shows "\<exists>r. event_loop (user_event cfg st) evs s = Inr r \<and> thread_ok m (step_state r) \<and> rings_ok (step_state r)"
  using assms(2-4)
proof (induction evs arbitrary: s)
  case Nil
  then show ?case by simp
next
  case (Cons ev evs)
  obtain r where r: "user_event cfg st ev s = Inr r" "thread_ok m (step_state r)" "rings_ok (step_state r)"
    using user_event_ok [OF assms(1) Cons.prems(1,2), of ev st] Cons.prems(3) by auto
  show ?case using r Cons.IH [of "step_state r"] Cons.prems(3) by (cases r) auto
qed

text \<open>
  The symmetric loop is safe: an iteration never fails as long as requests are answered by whole
  responses within a second, and it preserves the bookkeeping, including that every ring holds one
  unread transmit time per request in flight; in particular no ring ever overflows.
\<close>

theorem user_iter_safe:
  assumes "app_ready cfg m" and "thread_ok m s" and "rings_ok s" and "rings_young s" and "threads_conns cfg s"
    and "\<forall>e \<in> set (ie_sends env). send_ok cfg s e"
    and "\<forall>s1. one_send User_stamp cfg (ie_sends env) s = Inr (Go s1) \<longrightarrow> user_events_okay m cfg st (ie_events env) s1"
  shows "\<exists>r. user_iter cfg st env s = Inr r \<and> thread_ok m (step_state r) \<and> rings_ok (step_state r)"
proof (cases "ie_load env")
  case False
  then show ?thesis using assms(2,3) by (simp add: user_iter_def thread_ok_def rings_ok_def)
next
  case True
  obtain r where r: "one_send User_stamp cfg (ie_sends env) s = Inr r" "thread_ok m (step_state r)" "rings_ok (step_state r)"
    using one_send_user [OF assms(2-6)] by blast
  show ?thesis
  proof (cases r)
    case (Stop s1)
    then show ?thesis using r True by (simp add: user_iter_def then_events_def)
  next
    case (Go s1)
    then have "user_events_okay m cfg st (ie_events env) s1" using assms(7) r(1) by blast
    from user_event_loop_ok [OF assms(1) _ _ this] r Go show ?thesis
      using True by (simp add: user_iter_def then_events_def)
  qed
qed

subsection \<open>A thread with one request in flight\<close>

definition ex_cfg :: agent_config where
  "ex_cfg = zero_config\<lparr>cfg_thread_count := 1, cfg_conn_count := 1, cfg_atype := SYMMETRIC_AGENT,
     cfg_targets := [\<lparr>ht_ip = 16777343, ht_port = 80\<rparr>],
     cfg_idist := Some (Fixed_gen (Fin 10)), cfg_app_proto := Some (Proto_synthetic (Fixed_gen (Fin 1)))\<rparr>"

definition ex_thread :: thread_state where
  "ex_thread = \<lparr>connections = [zero_connection\<lparr>tc_pending := 1\<rparr>], avail_reqs = 15, next_tx = 0,
     conn_tx = [fst (push_complete_tx_timestamp False (Timespec 5 10) (zero_pending, zero_tx))],
     thr_stats = (zero_lat (replicate 4 zero_sample)), thr_tx = zero_tx, thr_arg = Arg_NULL,
     received_opid = 0, thr_rx = zero_info\<rparr>"

definition ex_event :: epoll_event where
  "ex_event = \<lparr>ev_idx = 0, ev_in = True, ev_err = False, ev_hup = False, ev_ret = 8, ev_block = False,
     ev_data = replicate 8 0, ev_cmsgs = [], ev_errqueue = None, ev_time = Timespec 5 40, ev_rnd = Fin 0,
     ev_measuring = True\<rparr>"

definition ex_st :: stats_state where
  "ex_st = \<lparr>all_stats = [], all_tx = [], per_thread_samples = 2, sampling_rate = Fin 1, reference_ia = []\<rparr>"

definition ex_env :: iter_env where
  "ex_env = \<lparr>ie_load = True, ie_idle_now = 0, ie_sends = [], ie_events = [ex_event]\<rparr>"

lemma ex_conn:
  "connections ex_thread = [zero_connection\<lparr>tc_pending := 1\<rparr>]" "ev_idx ex_event = 0" "ev_in ex_event"
  "ev_ret ex_event = 8" "arrived (zero_connection\<lparr>tc_pending := 1\<rparr>) ex_event = 8"
  by (simp_all add: ex_thread_def ex_event_def arrived_def zero_connection_def)

lemma ex_ready: "app_ready ex_cfg 8" "thread_ok 8 ex_thread" "threads_conns ex_cfg ex_thread"
  "serves 8 (connections ex_thread ! ev_idx ex_event) ex_event"
  by (simp_all add: app_ready_def ex_cfg_def MAX_PAYLOAD_def thread_ok_def conn_ok_def in_flight_total_def ex_conn
      zero_connection_def MAX_PENDING_REQS_def threads_conns_def per_thread_conn_def c_div_def zero_config_def
      serves_def arrived_def)
    (simp_all add: ex_thread_def ex_event_def MAX_PENDING_REQS_def)

lemma ex_rings: "rings_ok ex_thread" "rings_young ex_thread" "unread_times (conn_tx ex_thread ! 0) = [Timespec 5 10]"
proof -
  have zero: "complete_wf zero_pending" "has_room zero_pending" "unread_times zero_pending = []"
    using pq_wf_zero
    by (simp_all add: complete_wf_def has_room_def in_flight_def unread_times_def zero_pending_def MAX_PENDING_REQS_def)
  let ?q = "fst (push_complete_tx_timestamp False (Timespec 5 10) (zero_pending, zero_tx))"
  have q: "complete_wf ?q" "unread_times ?q = [Timespec 5 10]"
    using complete_wf_push [OF zero(1,2)] unread_times_push [OF zero(1,2)] zero(3) by simp_all
  then have "in_flight ?q = 1" using length_unread [OF q(1)] by simp
  with q show "rings_ok ex_thread" "unread_times (conn_tx ex_thread ! 0) = [Timespec 5 10]"
    by (simp_all add: rings_ok_def ex_conn) (simp_all add: ex_thread_def)
  show "rings_young ex_thread"
    by (simp add: rings_young_def ex_thread_def push_complete_tx_timestamp_def Let_def zero_pending_def)
qed

lemma ex_timely: "timely 8 ex_thread ex_event" "lat_wf (word_of_int (per_thread_samples ex_st)) (thr_stats ex_thread)"
  by (simp_all add: timely_def matched_time_def ex_conn ex_rings(3))
    (simp_all add: ex_event_def timespec_ok_def less_eq_timespec_def timespec_ns_def lat_wf_def ex_st_def ex_thread_def zero_lat_def)

theorem throughput_iter_safe_witness:
  "\<exists>r. throughput_iter ex_cfg ex_env ex_thread = Inr r \<and> thread_ok 8 (step_state r)"
proof (rule throughput_iter_safe [OF ex_ready(1-3)])
  show "\<forall>e \<in> set (ie_sends ex_env). send_ok ex_cfg ex_thread e" by (simp add: ex_env_def)
  show "\<forall>s1. one_send No_stamp ex_cfg (ie_sends ex_env) ex_thread = Inr (Go s1) \<longrightarrow>
      events_ok (throughput_event ex_cfg) (event_ok 8) (ie_events ex_env) s1"
    using ex_ready(4) by (auto simp: ex_env_def one_send_def event_ok_def ex_conn split: sum.splits step.splits)
qed

theorem user_latency_is_response_time_witness:
  "\<exists>s'. user_event ex_cfg ex_st ex_event ex_thread = Inr (Go s') \<and> unread_times (conn_tx s' ! 0) = []
     \<and> ls_nsec (lt_samples (thr_stats s') ! 0) = 30"
proof -
  have "arrived (connections ex_thread ! ev_idx ex_event) ex_event = 1 * 8" by (simp add: ex_conn)
  moreover have "ev_idx ex_event < length (connections ex_thread)" by (simp add: ex_conn)
  moreover have "ev_measuring ex_event" "\<not> sampling_rate ex_st < ev_rnd ex_event" "ev_time ex_event = Timespec 5 40"
    by (simp_all add: ex_event_def ex_st_def)
  ultimately show ?thesis
    using user_latency_is_response_time [OF ex_ready(1,2) ex_rings(1) _ ex_ready(4) _ ex_timely, of 1]
    by (auto simp: ex_conn ex_rings(3) lat_store_def Let_def timespec_ns_def)
      (auto simp: ex_thread_def zero_lat_def ex_st_def)
qed

theorem user_iter_safe_witness:
  "\<exists>r. user_iter ex_cfg ex_st ex_env ex_thread = Inr r \<and> thread_ok 8 (step_state r) \<and> rings_ok (step_state r)"
proof (rule user_iter_safe [OF ex_ready(1,2) ex_rings(1,2) ex_ready(3)])
  show "\<forall>e \<in> set (ie_sends ex_env). send_ok ex_cfg ex_thread e" by (simp add: ex_env_def)
  show "\<forall>s1. one_send User_stamp ex_cfg (ie_sends ex_env) ex_thread = Inr (Go s1) \<longrightarrow>
      user_events_okay 8 ex_cfg ex_st (ie_events ex_env) s1"
    using ex_ready(4) ex_timely
    by (auto simp: ex_env_def one_send_def user_event_okay_def ex_conn split: sum.splits step.splits)
qed

lemma receive_partial:
  assumes "app_ready cfg m" and "conn_ok m c" and "0 < ev_ret ev" and "length (ev_data ev) = nat (ev_ret ev)"
    and "arrived c ev \<le> MAX_PAYLOAD" and "\<not> m dvd arrived c ev" and "whole \<or> arrived c ev < m"
  shows "\<exists>e. receive whole cfg ev c = Inl e"
proof -
  define n where "n = arrived c ev"
  obtain p where p: "cfg_app_proto cfg = Some p" "message_size p = m" "0 < m" and m: "m \<le> MAX_PAYLOAD"
    using assms(1) by (auto simp: app_ready_def)
  have c: "unat (tc_buffer_idx c) \<le> MAX_PAYLOAD" "length (tc_buffer c) = MAX_PAYLOAD"
    using assms(2) m by (auto simp: conn_ok_def)
  let ?b = "take (unat (tc_buffer_idx c)) (tc_buffer c) @ ev_data ev @ drop (n) (tc_buffer c)"
  let ?c1 = "c\<lparr>tc_buffer := ?b, tc_buffer_idx := tc_buffer_idx c + word_of_int (ev_ret ev)\<rparr>"
  have recv: "recv_into ev c = Inr ?c1"
    using assms(3-5) c by (simp add: recv_into_def c_memcpy_def n_def arrived_def)
  have i: "unat (tc_buffer_idx ?c1) = n"
    using assms(3,5) unat_add_int_u16 [of "ev_ret ev" "tc_buffer_idx c"] by (simp add: n_def arrived_def MAX_PAYLOAD_def)
  have n31: "n < 2 ^ 31" using assms(5) by (simp add: n_def MAX_PAYLOAD_def)
  have "\<exists>e. consume_buffer whole cfg ?c1 = Inl e"
  proof (cases "least_response p \<le> n")
    case False
    then have "consume_response p n = Inl Assertion_Failed"
      by (cases p) (simp_all add: ascii_mem_consume_response_def)
    then show ?thesis using p(1) i by (simp add: consume_buffer_def process_response_def)
  next
    case True
    from consume_response_counts [OF _ True n31] p obtain r where
      r: "consume_response p n = Inr r" "unat (br_bytes r) = n div m * m" by auto
    have "n div m * m \<noteq> n" using assms(6) by (metis n_def dvd_triv_right)
    moreover have "n div m * m \<le> n" by simp
    ultimately have less: "n div m * m < n" by linarith
    then have cmp: "\<not> br_bytes r = ucast (tc_buffer_idx ?c1)" "br_bytes r < ucast (tc_buffer_idx ?c1)"
      using r(2) i by (simp_all add: word_unat_eq_iff word_less_nat_alt unat_ucast_u16_u64)
    have "whole \<or> n div m = 0" using assms(7) p(3) by (auto simp: n_def)
    then have "whole \<or> keep_rest (unat (br_bytes r)) ?c1 = Inl Undefined"
      using less r(2) i by (auto simp: keep_rest_def Let_def)
    then show ?thesis
      using cmp r(1) p(1) i by (auto simp: consume_buffer_def process_response_def)
  qed
  then show ?thesis using assms(3) recv by (auto simp: receive_def)
qed

text \<open>
  C34. Responses that arrive in pieces: the two symmetric loops abort whenever data ends in the middle
  of a response; the throughput loop copes with that, but also aborts when not even one whole response
  has arrived.
\<close>

theorem partial_response_aborts:
  assumes "app_ready cfg m" and "thread_ok m s" and "ev_idx ev < length (connections s)"
    and "ev_in ev" and "0 < ev_ret ev" and "length (ev_data ev) = nat (ev_ret ev)"
    and "arrived (connections s ! ev_idx ev) ev \<le> MAX_PAYLOAD" and "\<not> m dvd arrived (connections s ! ev_idx ev) ev"
    and "arrived (connections s ! ev_idx ev) ev \<le> unat (tc_pending (connections s ! ev_idx ev)) * m"
  shows "(\<exists>e. user_event cfg st ev s = Inl e) \<and> (\<exists>e. nic_event cfg st ev s = Inl e)
    \<and> ((\<exists>e. throughput_event cfg ev s = Inl e) \<longleftrightarrow> arrived (connections s ! ev_idx ev) ev < m)"
proof (intro conjI iffI)
  have ok: "conn_ok m (connections s ! ev_idx ev)" using assms(2,3) by (simp add: thread_ok_def)
  obtain e where e: "receive True cfg ev (connections s ! ev_idx ev) = Inl e"
    using receive_partial [OF assms(1) ok assms(5-8), of True] by auto
  show "\<exists>e. user_event cfg st ev s = Inl e" using e assms(3,4) by (simp add: user_event_def on_readable_def)
  show "\<exists>e. nic_event cfg st ev s = Inl e"
    using e assms(3,4) by (cases "receive_stamp ev s")
      (auto simp: nic_event_def on_readable_def receive_stamp_def c_result_simps)
  {
    assume fails: "\<exists>e. throughput_event cfg ev s = Inl e"
    show "arrived (connections s ! ev_idx ev) ev < m"
    proof (rule ccontr)
      assume "\<not> arrived (connections s ! ev_idx ev) ev < m"
      then have "event_ok m (connections s ! ev_idx ev) ev"
        using assms(4-7,9) by (simp add: event_ok_def serves_def)
      from throughput_event_ok [OF assms(1-3) this] fails show False by auto
    qed
  next
    assume "arrived (connections s ! ev_idx ev) ev < m"
    then obtain e where "receive False cfg ev (connections s ! ev_idx ev) = Inl e"
      using receive_partial [OF assms(1) ok assms(5-8), of False] by auto
    then show "\<exists>e. throughput_event cfg ev s = Inl e"
      using assms(3,4) by (simp add: throughput_event_def on_readable_def)
  }
qed

theorem partial_response_aborts_witness:
  "\<exists>e. user_event ex_cfg ex_st (ex_event\<lparr>ev_ret := 3, ev_data := [0, 0, 0]\<rparr>) ex_thread = Inl e"
proof -
  let ?ev = "ex_event\<lparr>ev_ret := 3, ev_data := [0, 0, 0]\<rparr>"
  have "arrived (connections ex_thread ! ev_idx ?ev) ?ev = 3"
    by (simp add: ex_conn arrived_def zero_connection_def)
  then show ?thesis
    using partial_response_aborts [OF ex_ready(1,2), of ?ev] by (simp add: ex_conn MAX_PAYLOAD_def)
qed

lemma open_loop_ok:
  assumes "cfg_targets cfg \<noteq> []"
  shows "open_loop cfg k i (\<lambda>_. Setup_ok) dests
    = Inr (0, dests @ map (\<lambda>j. cfg_targets cfg ! (j mod length (cfg_targets cfg))) [i ..< i + k])"
proof (induction k arbitrary: i dests)
  case (Suc k)
  have "[i ..< i + Suc k] = i # [i + 1 ..< i + 1 + k]" by (simp add: upt_conv_Cons)
  then show ?case using Suc assms by (simp add: dest_of_def del: upt_Suc)
qed simp

lemma open_connections_ok:
  assumes "cfg_targets cfg \<noteq> []" and "0 < cfg_thread_count cfg" and "0 \<le> cfg_conn_count cfg"
    and "app_ready cfg m" and "nat (cfg_conn_count cfg div cfg_thread_count cfg) = n" and "n < 2 ^ 26"
  shows "\<exists>s' dests. throughput_open_connections cfg True (\<lambda>_. Setup_ok) s = Inr (0, s', dests)
    \<and> length dests = n \<and> (\<forall>i < n. dests ! i = cfg_targets cfg ! (i mod length (cfg_targets cfg)))
    \<and> length (connections s') = n \<and> thread_ok m s' \<and> avail_reqs s' = 16 * int n
    \<and> (cfg_atype cfg \<in> {SYMMETRIC_NIC_TIMESTAMP_AGENT, SYMMETRIC_AGENT} \<longrightarrow> rings_ok s' \<and> rings_young s')"
proof -
  have per: "per_thread_conn cfg = Inr (int n)"
    using assms(2,3,5) pos_imp_zdiv_nonneg_iff [of "cfg_thread_count cfg" "cfg_conn_count cfg"]
    by (auto simp: per_thread_conn_def c_div_def sgn_if)
  let ?dests = "map (\<lambda>j. cfg_targets cfg ! (j mod length (cfg_targets cfg))) [0 ..< n]"
  let ?s' = "s\<lparr>avail_reqs := int n * int MAX_PENDING_REQS, connections := replicate n zero_connection,
    conn_tx := (if cfg_atype cfg = SYMMETRIC_NIC_TIMESTAMP_AGENT \<or> cfg_atype cfg = SYMMETRIC_AGENT
                then replicate n zero_pending else conn_tx s)\<rparr>"
  have "throughput_open_connections cfg True (\<lambda>_. Setup_ok) s = Inr (0, ?s', ?dests)"
    using assms(6) open_loop_ok [OF assms(1), of n 0 "[]"]
    by (simp add: throughput_open_connections_def per MAX_PENDING_REQS_def)
  moreover have "thread_ok m ?s'"
    using assms(4,6)
    by (simp add: thread_ok_def conn_ok_def zero_connection_def app_ready_def in_flight_total_def map_replicate
        sum_list_replicate)
  moreover have "rings_ok ?s' \<and> rings_young ?s'"
    if "cfg_atype cfg \<in> {SYMMETRIC_NIC_TIMESTAMP_AGENT, SYMMETRIC_AGENT}"
    using that pq_wf_zero
    by (auto simp: rings_ok_def rings_young_def complete_wf_def in_flight_def zero_connection_def)
      (simp_all add: zero_pending_def)
  ultimately show ?thesis
    by (intro exI [of _ ?s'] exI [of _ ?dests]) (simp add: MAX_PENDING_REQS_def)
qed

text \<open>
  Opening the connections establishes what the loops rely on: with \<open>n = conn_count / thread_count\<close>
  connections, all calls succeeding, connection \<open>i\<close> goes to target \<open>i mod target_count\<close>, no request is
  in flight, all 16 slots of every connection are free, and the symmetric agents' rings are empty.
\<close>

theorem open_connections_establishes:
  assumes "cfg_targets cfg \<noteq> []" and "0 < cfg_thread_count cfg" and "0 \<le> cfg_conn_count cfg"
    and "app_ready cfg m" and "nat (cfg_conn_count cfg div cfg_thread_count cfg) = n" and "n < 2 ^ 26"
  shows "\<exists>s' dests. throughput_open_connections cfg True (\<lambda>_. Setup_ok) s = Inr (0, s', dests)
    \<and> length dests = n \<and> (\<forall>i < n. dests ! i = cfg_targets cfg ! (i mod length (cfg_targets cfg)))
    \<and> length (connections s') = n \<and> thread_ok m s' \<and> avail_reqs s' = 16 * int n
    \<and> (cfg_atype cfg \<in> {SYMMETRIC_NIC_TIMESTAMP_AGENT, SYMMETRIC_AGENT} \<longrightarrow> rings_ok s' \<and> rings_young s')"
  by (rule open_connections_ok [OF assms])

theorem open_connections_establishes_witness:
  "\<exists>s' dests. throughput_open_connections ex_cfg True (\<lambda>_. Setup_ok) ex_thread = Inr (0, s', dests)
     \<and> length dests = 1 \<and> thread_ok 8 s'"
  using open_connections_establishes [OF _ _ _ ex_ready(1), of 1 ex_thread]
  by (auto simp: ex_cfg_def)

end
