(* ===== verification/Transport_Latency.thy ===== *)
theory Transport_Latency
  imports Transport_Properties
begin

text \<open>
  What the other two measuring loops record: \<open>latency_tcp_main\<close>, which waits for each response, and
  \<open>symmetric_nic_tcp_main\<close>, which takes both times from the network card.
\<close>

subsection \<open>One request at a time\<close>

text \<open>A send the system accepts whole.\<close>

definition whole_send :: "agent_config \<Rightarrow> latency_env \<Rightarrow> thread_state \<Rightarrow> thread_arg \<Rightarrow> bool" where
  "whole_send cfg e s arg \<longleftrightarrow>
     (\<exists>req. prepare_request cfg (se_req (le_send e)) (thr_arg s) = Inr (req, arg) \<and> se_ret (le_send e) = int (request_bytes req))"

text \<open>The statistics of the thread after the two byte counts.\<close>

definition counted :: "latency_env \<Rightarrow> byte_req_pair \<Rightarrow> latency_stats \<Rightarrow> latency_stats" where
  "counted e r ts = add_throughput_rx_sample (le_measuring e) r
     (add_throughput_tx_sample (se_measuring (le_send e)) \<lparr>br_bytes = word_of_int (se_ret (le_send e)), br_reqs = 1\<rparr> ts)"

lemma counted_wf: "lat_wf n (counted e r ts) = lat_wf n ts"
  by (simp add: counted_def add_throughput_rx_sample_def add_throughput_tx_sample_def lat_wf_def)

lemma add_latency_if_wf:
  assumes "b \<longrightarrow> lat_wf (word_of_int (per_thread_samples st)) ts"
  shows "add_latency_sample b rnd st d tx ts =
    Inr (if \<not> b \<or> sampling_rate st < rnd then ts else lat_store (word_of_int (per_thread_samples st)) ts (d, tx))"
  using assms add_latency_sample_wf [of st ts True] by (cases b) (simp_all add: add_latency_sample_def)

text \<open>Less than one response: no request is counted.\<close>

lemma short_response:
  assumes "app_ready cfg m" and "0 < n" and "n < m" and "n \<le> MAX_PAYLOAD"
  shows "process_response cfg n = Inl Assertion_Failed \<or> (\<exists>r. process_response cfg n = Inr r \<and> unat (br_bytes r) = 0)"
proof -
  obtain p where p: "cfg_app_proto cfg = Some p" "message_size p = m" "0 < m" using assms(1) by (auto simp: app_ready_def)
  have n31: "n < 2 ^ 31" using assms(4) by (simp add: MAX_PAYLOAD_def)
  show ?thesis
  proof (cases "least_response p \<le> n")
    case True
    then show ?thesis using consume_response_counts [OF _ True n31] p assms(3) by (auto simp: process_response_def)
  next
    case False
    then have "consume_response p n = Inl Assertion_Failed"
      by (cases p) (simp_all add: ascii_mem_consume_response_def)
    then show ?thesis using p(1) by (simp add: process_response_def)
  qed
qed

text \<open>
  The latency agent measures what it says: when its turn has come and a connection is open, one
  iteration sends one request, and if the answer consists of whole responses it counts them, records
  the time from before the send to after the receipt (if the sampling accepts it), and waits the
  generator's interval, counted from the previous schedule; an answer that is cut short ends the agent.
\<close>

theorem latency_iter_measures:
  assumes "app_ready cfg m" and "le_load e" and "next_tx s \<le> se_now (le_send e)"
    and "pick_conn cfg (se_rands (le_send e)) (connections s) = Inr (Some i)" and "i < length (connections s)"
    and "whole_send cfg e s arg" and "0 < le_ret e" and "le_ret e \<le> int MAX_PAYLOAD"
    and "get_ia cfg (se_ia (le_send e)) = Inr ia" and "le_measuring e \<longrightarrow> lat_wf (word_of_int (per_thread_samples st)) (thr_stats s)"
  shows "if m dvd nat (le_ret e) then
      \<exists>r. unat (br_reqs r) = nat (le_ret e) div m \<and> unat (br_bytes r) = nat (le_ret e)
       \<and> latency_iter cfg st e s = Inr (Go (s\<lparr>thr_arg := arg, next_tx := next_tx s + ia,
           thr_stats := (if \<not> le_measuring e \<or> sampling_rate st < le_rnd e then counted e r (thr_stats s)
             else lat_store (word_of_int (per_thread_samples st)) (counted e r (thr_stats s)) (le_end e - le_start e, None))\<rparr>))
    else latency_iter cfg st e s = Inl Assertion_Failed"
proof -
  obtain req where req: "prepare_request cfg (se_req (le_send e)) (thr_arg s) = Inr (req, arg)"
    "se_ret (le_send e) = int (request_bytes req)"
    using assms(6) by (auto simp: whole_send_def)
  let ?n = "nat (le_ret e)"
  let ?s1 = "s\<lparr>thr_arg := arg, thr_stats := add_throughput_tx_sample (se_measuring (le_send e))
      \<lparr>br_bytes = word_of_int (se_ret (le_send e)), br_reqs = 1\<rparr> (thr_stats s)\<rparr>"
  have iter: "latency_iter cfg st e s = latency_receive cfg st e i ?s1"
    using assms(2-4) req by (simp add: latency_iter_def Let_def)
  have n: "?n \<le> MAX_PAYLOAD" "(word_of_int (le_ret e) :: u64) = word_of_nat ?n" using assms(7,8) by simp_all
  then have small: "?n < 2 ^ 64" by (simp add: MAX_PAYLOAD_def)
  show ?thesis
  proof (cases "m \<le> ?n")
    case True
    obtain r where r: "process_response cfg ?n = Inr r" "unat (br_reqs r) = ?n div m" "unat (br_bytes r) = ?n div m * m"
      using process_response_counts [OF assms(1) True n(1)] by blast
    have whole: "br_bytes r = word_of_int (le_ret e) \<longleftrightarrow> m dvd ?n"
      using r(3) n(2) unat_of_nat_u64 [OF small] by (metis word_unat_eq_iff dvd_div_mult_self dvd_triv_right)
    have "le_measuring e \<longrightarrow> lat_wf (word_of_int (per_thread_samples st)) (counted e r (thr_stats s))"
      using assms(10) by (simp add: counted_wf)
    from add_latency_if_wf [OF this, unfolded counted_def] show ?thesis
      using assms(5,7,9) r whole
      by (auto simp: iter latency_receive_def Let_def counted_def)
  next
    case False
    then have "\<not> m dvd ?n" using assms(7) by (auto dest: dvd_imp_le)
    have short: "process_response cfg ?n = Inl Assertion_Failed
        \<or> (\<exists>r. process_response cfg ?n = Inr r \<and> unat (br_bytes r) = 0)"
      by (rule short_response [OF assms(1)]) (use False assms(7) n in simp_all)
    have "br_bytes r \<noteq> word_of_int (le_ret e)" if "unat (br_bytes r) = 0" for r :: byte_req_pair
      using that n(2) unat_of_nat_u64 [OF small] assms(7) by auto
    then show ?thesis using short \<open>\<not> m dvd ?n\<close> assms(5,7) by (auto simp: iter latency_receive_def)
  qed
qed

definition ex_draws :: draws where
  "ex_draws = \<lparr>uniform_draw = Fin 0, normal_draw = Fin 0\<rparr>"

definition ex_latency_env :: latency_env where
  "ex_latency_env = \<lparr>le_load = True,
     le_send = \<lparr>se_now = 5, se_rands = [0], se_req = ex_draws, se_ret = 8, se_block = False, se_ia = ex_draws,
       se_time = zero_timespec, se_measuring = True\<rparr>,
     le_start = 100, le_ret = 8, le_end = 350, le_rnd = Fin 0, le_measuring = True\<rparr>"

theorem latency_iter_measures_witness:
  "\<exists>s'. latency_iter ex_cfg ex_st ex_latency_env ex_thread = Inr (Go s')
     \<and> ls_nsec (lt_samples (thr_stats s') ! 0) = 250 \<and> next_tx s' = 10000"
proof -
  have "pick_conn ex_cfg (se_rands (le_send ex_latency_env)) (connections ex_thread) = Inr (Some 0)"
    by (simp add: pick_conn_def per_thread_conn_def c_div_def ex_cfg_def ex_latency_env_def ex_conn zero_connection_def
        MAX_PENDING_REQS_def zero_config_def)
  moreover have "whole_send ex_cfg ex_latency_env ex_thread (Arg_long 1)"
    using round_half_away_of_int [of 1]
    by (simp add: whole_send_def ex_latency_env_def prepare_request_def ex_cfg_def zero_config_def
        synthetic_create_request_def ex_draws_def long_bytes_def request_bytes_def)
  moreover have "get_ia ex_cfg (se_ia (le_send ex_latency_env)) = Inr 10000"
    using round_half_away_of_int [of 10000]
    by (simp add: get_ia_def gen_ptr_def ex_cfg_def zero_config_def ex_latency_env_def ex_draws_def)
  ultimately have "\<exists>r. unat (br_reqs r) = 1 \<and> latency_iter ex_cfg ex_st ex_latency_env ex_thread = Inr (Go (ex_thread\<lparr>
       thr_arg := Arg_long 1, next_tx := next_tx ex_thread + 10000,
       thr_stats := lat_store (word_of_int (per_thread_samples ex_st)) (counted ex_latency_env r (thr_stats ex_thread)) (250, None)\<rparr>))"
    using latency_iter_measures [OF ex_ready(1), of ex_latency_env ex_thread 0 "Arg_long 1" 10000 ex_st] ex_timely(2)
    by (auto simp: ex_conn) (auto simp: ex_latency_env_def ex_thread_def ex_st_def MAX_PAYLOAD_def)
  then show ?thesis
    by (auto simp: lat_store_def Let_def ex_thread_def zero_lat_def ex_st_def counted_def add_throughput_rx_sample_def
        add_throughput_tx_sample_def)
qed

subsection \<open>Times taken by the network card\<close>

text \<open>
  With hardware timestamps a ring may hold requests whose transmit time has not been reported yet;
  every request in flight has its slot all the same.
\<close>

definition nic_rings_ok :: "thread_state \<Rightarrow> bool" where
  "nic_rings_ok s \<longleftrightarrow> length (conn_tx s) = length (connections s) \<and>
     (\<forall>i < length (connections s). pq_wf (conn_tx s ! i) \<and> in_flight (conn_tx s ! i) = unat (tc_pending (connections s ! i)))"

lemma nic_pop_skip:
  assumes "pq_wf q" and "unat reqs = Suc k" and "Suc k \<le> in_flight q" and "ev_errqueue ev = None"
  shows "nic_pop ev (skip_but_last reqs q) s =
    Inr (if unat (pq_consumed q) + k < unat (pq_tail q) then Some (entry q (unat (pq_consumed q) + k)) else None,
         consumed_by (Suc k) q, s)"
proof -
  have "in_flight q \<le> 16" using assms(1) by (simp add: pq_wf_def in_flight_def MAX_PENDING_REQS_def)
  then have k: "k \<le> 16" "k \<le> in_flight q" using assms(3) by simp_all
  note skip = skip_but_last_consumed [OF assms(2) k(1), of q] and cons = unat_consumed_by [OF k(2) assms(1)]
  have le: "pq_consumed (consumed_by k q) \<le> pq_head q"
    using consumed_by_wf(1) [OF k(2) assms(1)] by (simp add: pq_wf_def)
  have pop: "pop_pending_tx_timestamps (consumed_by k q) =
    (if unat (pq_consumed q) + k < unat (pq_tail q) then Inr (Some (entry q (unat (pq_consumed q) + k)), consumed_by (Suc k) q)
     else Inr (None, consumed_by k q))"
    using le cons consumed_by_Suc [of k q]
    by (simp add: pop_pending_tx_timestamps_def word_less_nat_alt entry_def slot_def)
  show ?thesis
    using assms(4) by (simp add: nic_pop_def skip pop get_tx_timestamp_def consumed_by_Suc)
qed

text \<open>The request answered last by the data of an event, and its entry in the ring.\<close>

definition last_answered :: "nat \<Rightarrow> pending_tx \<Rightarrow> nat" where
  "last_answered k q = unat (pq_consumed q) + k - 1"

definition wire_time :: "timespec \<Rightarrow> timespec \<Rightarrow> int" where
  "wire_time rx tx = timespec_ns rx - timespec_ns tx"

lemma wire_time_sample:
  assumes "tv_sec rx \<noteq> 0" and "tv_sec tx \<noteq> 0" and "\<bar>wire_time rx tx\<bar> < 2 ^ 53"
  shows "\<exists>d. timespec_diff (Some rx) (Some tx) = (0, Some d)
    \<and> dbl_to_long (dbl_of_int (tv_nsec d) + dbl_of_int (tv_sec d) * Fin (10 ^ 9)) = Inr (wire_time rx tx)"
proof -
  obtain d where d: "timespec_diff (Some rx) (Some tx) = (0, Some d)" using assms(1,2) by fastforce
  have "tv_sec d * 10 ^ 9 + tv_nsec d = wire_time rx tx"
    using timespec_diff_ns [OF d] by (simp add: timespec_ns_def wire_time_def)
  then have "real_of_int (tv_nsec d) + real_of_int (tv_sec d) * 10 ^ 9 = real_of_int (wire_time rx tx)"
    by (metis add.commute of_int_add of_int_mult of_int_numeral of_int_power)
  moreover have "- (2 ^ 63) \<le> wire_time rx tx" "wire_time rx tx < 2 ^ 63" using assms(3) by simp_all
  ultimately show ?thesis using d by (intro exI [of _ d]) (simp del: timespec_diff.simps)
qed

text \<open>
  The NIC-timestamping agent records the time on the wire: for data that completes \<open>k\<close> responses
  on a connection, received by the card at \<open>rx\<close>, the recorded latency is the time from the card's
  transmission of the \<open>k\<close>-th unanswered request of that connection to \<open>rx\<close>, tagged with that
  transmission. If the card has not reported that transmission yet, no latency is recorded. Either way
  exactly \<open>k\<close> requests are consumed and the thread stays consistent, so that a missing report never
  shifts the matching of later responses.
\<close>

theorem nic_latency_is_wire_time:
  assumes "app_ready cfg m" and "thread_ok m s" and "nic_rings_ok s" and "ev_idx ev < length (connections s)"
    and "serves m (connections s ! ev_idx ev) ev" and "arrived (connections s ! ev_idx ev) ev = k * m"
    and "ev_cmsgs ev = [Scm_timestamping [sw, legacy, rx]]" and "tv_sec rx \<noteq> 0" and "ev_errqueue ev = None"
    and "lat_wf (word_of_int (per_thread_samples st)) (thr_stats s)"
    and "q = conn_tx s ! ev_idx ev" and "tx = ti_time (entry q (last_answered k q))"
    and "last_answered k q < unat (pq_tail q) \<longrightarrow> tv_sec tx \<noteq> 0 \<and> \<bar>wire_time rx tx\<bar> < 2 ^ 53"
  shows "\<exists>s' th. nic_event cfg st ev s = Inr (Go s') \<and> thread_ok m s' \<and> nic_rings_ok s'
    \<and> conn_tx s' = (conn_tx s)[ev_idx ev := consumed_by k q]
    \<and> thr_stats s' = (if last_answered k q < unat (pq_tail q) \<and> ev_measuring ev \<and> \<not> sampling_rate st < ev_rnd ev
         then lat_store (word_of_int (per_thread_samples st)) (thr_stats s) (wire_time rx tx, Some tx)
         else thr_stats s)\<lparr>lt_th := th\<rparr>"
proof -
  let ?i = "ev_idx ev" and ?c = "connections s ! ev_idx ev"
  have m: "0 < m" using assms(1) by (simp add: app_ready_def)
  have ok: "conn_ok m ?c" using assms(2,4) by (simp add: thread_ok_def)
  let ?s0 = "s\<lparr>thr_rx := zero_info\<lparr>ti_time := rx\<rparr>\<rparr>"
  have recv: "receive_stamp ev s = Inr ?s0"
    using assms(5,7,8) by (simp add: receive_stamp_def timestamp_recv_def extract_timestamps_def serves_def)
  have whole: "m dvd arrived (connections ?s0 ! ?i) ev" using assms(6) by simp
  have "thread_ok m ?s0" "?i < length (connections ?s0)" "serves m (connections ?s0 ! ?i) ev"
    using assms(2,4,5) by (simp_all add: thread_ok_def)
  from on_readable_serves [OF assms(1) this whole, where after = "nic_match st" and whole = True]
  obtain c' r where got: "received_ok m ?c ev c' r"
    and run: "on_readable True (nic_match st) cfg ev ?s0
      = c_bind (nic_match st ev (br_reqs r) (after_receive ?s0 ?i c' r)) (\<lambda>s2.
          Inr (Go (s2\<lparr>thr_stats := add_throughput_rx_sample (ev_measuring ev) r (thr_stats s2)\<rparr>)))"
    by auto
  note pend = received_pending [OF got assms(5) ok m]
  have k: "unat (br_reqs r) = k" using got assms(6) m by (simp add: received_ok_def)
  have q: "pq_wf q" "in_flight q = unat (tc_pending ?c)" "?i < length (conn_tx s)"
    using assms(3,4,11) by (simp_all add: nic_rings_ok_def)
  obtain j where j: "k = Suc j" using pend(2) k by (cases k) simp_all
  let ?s1 = "after_receive ?s0 ?i c' r"
  have s1: "conn_tx ?s1 = conn_tx s" "thr_stats ?s1 = thr_stats s" "connections ?s1 = (connections s)[?i := c']"
    "ti_time (thr_rx ?s1) = rx"
    by (simp_all add: after_receive_def)
  have pop: "nic_pop ev (skip_but_last (br_reqs r) q) ?s1 =
      Inr (if last_answered k q < unat (pq_tail q) then Some (entry q (last_answered k q)) else None, consumed_by k q, ?s1)"
    using nic_pop_skip [OF q(1) _ _ assms(9), of "br_reqs r" j ?s1] k j pend(1) q(2) by (simp add: last_answered_def)
  define ts where "ts = (if last_answered k q < unat (pq_tail q) \<and> ev_measuring ev \<and> \<not> sampling_rate st < ev_rnd ev
         then lat_store (word_of_int (per_thread_samples st)) (thr_stats s) (wire_time rx tx, Some tx) else thr_stats s)"
  let ?s2 = "?s1\<lparr>conn_tx := (conn_tx s)[?i := consumed_by k q], thr_stats := ts\<rparr>"
  have match: "nic_match st ev (br_reqs r) ?s1 = Inr ?s2"
  proof (cases "last_answered k q < unat (pq_tail q)")
    case True
    obtain d where "timespec_diff (Some rx) (Some tx) = (0, Some d)"
      "dbl_to_long (dbl_of_int (tv_nsec d) + dbl_of_int (tv_sec d) * Fin (10 ^ 9)) = Inr (wire_time rx tx)"
      using wire_time_sample [OF assms(8)] True assms(13) by blast
    then show ?thesis
      using True q(3) assms(11,12) pop
      by (simp add: nic_match_def s1 add_latency_sample_wf [OF assms(10)] ts_def del: timespec_diff.simps dbl_to_long.simps)
  next
    case False
    then show ?thesis using q(3) assms(11) pop by (simp add: nic_match_def s1 ts_def)
  qed
  let ?s3 = "?s2\<lparr>thr_stats := add_throughput_rx_sample (ev_measuring ev) r ts\<rparr>"
  have "nic_event cfg st ev s = Inr (Go ?s3)"
    using run match recv assms(5) by (simp add: nic_event_def serves_def)
  moreover have "thread_ok m ?s3"
    by (rule thread_ok_cong [OF thread_ok_receive [OF assms(2,4) m got assms(5)]]) (simp_all add: after_receive_def)
  moreover have "nic_rings_ok ?s3"
    using assms(3,4) consumed_by_wf [OF _ q(1), of k] pend(1,3) k q(2)
    by (simp add: nic_rings_ok_def s1 nth_list_update)
  ultimately show ?thesis
    by (intro exI [of _ ?s3] exI [of _ "lt_th (thr_stats ?s3)"]) (simp add: ts_def [symmetric] add_throughput_rx_sample_def)
qed

text \<open>One request sent at 5 s 10 ns, its time reported; the response arrives at 6 s 5 ns.\<close>

definition ex_nic_ring :: pending_tx where
  "ex_nic_ring = zero_pending\<lparr>tx_byte_counter := 8, pq_head := 1, pq_tail := 1,
     pq_pending := \<lparr>ti_time = Timespec 5 10, ti_optid = 8\<rparr> # replicate 15 zero_info\<rparr>"

definition ex_nic_thread :: thread_state where
  "ex_nic_thread = ex_thread\<lparr>conn_tx := [ex_nic_ring]\<rparr>"

definition ex_nic_event :: epoll_event where
  "ex_nic_event = ex_event\<lparr>ev_cmsgs := [Scm_timestamping [zero_timespec, zero_timespec, Timespec 6 5]]\<rparr>"

lemma ex_nic:
  "thread_ok 8 ex_nic_thread" "nic_rings_ok ex_nic_thread" "serves 8 (connections ex_nic_thread ! ev_idx ex_nic_event) ex_nic_event"
  "arrived (connections ex_nic_thread ! ev_idx ex_nic_event) ex_nic_event = 1 * 8"
  "lat_wf (word_of_int (per_thread_samples ex_st)) (thr_stats ex_nic_thread)"
  "ev_idx ex_nic_event = 0" "connections ex_nic_thread = connections ex_thread" "conn_tx ex_nic_thread = [ex_nic_ring]"
  "last_answered (Suc 0) ex_nic_ring = 0" "entry ex_nic_ring 0 = \<lparr>ti_time = Timespec 5 10, ti_optid = 8\<rparr>"
  "pq_tail ex_nic_ring = 1" "ev_errqueue ex_nic_event = None"
proof -
  have conns: "connections ex_nic_thread = connections ex_thread" "avail_reqs ex_nic_thread = avail_reqs ex_thread"
    "thr_stats ex_nic_thread = thr_stats ex_thread" by (simp_all add: ex_nic_thread_def)
  have event: "ev_idx ex_nic_event = ev_idx ex_event" "ev_in ex_nic_event = ev_in ex_event"
    "ev_ret ex_nic_event = ev_ret ex_event" "ev_data ex_nic_event = ev_data ex_event" by (simp_all add: ex_nic_event_def)
  show "thread_ok 8 ex_nic_thread" using ex_ready(2) conns by (simp add: thread_ok_def)
  show "nic_rings_ok ex_nic_thread"
    by (simp add: nic_rings_ok_def conns ex_conn)
      (simp add: ex_nic_thread_def ex_nic_ring_def zero_pending_def pq_wf_def in_flight_def MAX_PENDING_REQS_def
        zero_connection_def)
  show "serves 8 (connections ex_nic_thread ! ev_idx ex_nic_event) ex_nic_event"
    using ex_ready(4) by (simp add: serves_def arrived_def conns event)
  show "arrived (connections ex_nic_thread ! ev_idx ex_nic_event) ex_nic_event = 1 * 8"
    using ex_conn(5) by (simp add: arrived_def conns event ex_conn(1,2))
  show "lat_wf (word_of_int (per_thread_samples ex_st)) (thr_stats ex_nic_thread)" using ex_timely(2) conns by simp
  show "ev_idx ex_nic_event = 0" "connections ex_nic_thread = connections ex_thread" "conn_tx ex_nic_thread = [ex_nic_ring]"
    "ev_errqueue ex_nic_event = None"
    by (simp_all add: event ex_conn conns) (simp_all add: ex_nic_thread_def ex_nic_event_def ex_event_def)
  show "last_answered (Suc 0) ex_nic_ring = 0" "entry ex_nic_ring 0 = \<lparr>ti_time = Timespec 5 10, ti_optid = 8\<rparr>"
    "pq_tail ex_nic_ring = 1"
    by (simp_all add: last_answered_def ex_nic_ring_def zero_pending_def entry_def)
qed

theorem nic_latency_is_wire_time_witness:
  "\<exists>s'. nic_event ex_cfg ex_st ex_nic_event ex_nic_thread = Inr (Go s')
     \<and> ls_nsec (lt_samples (thr_stats s') ! 0) = 999999995"
proof -
  have "ev_idx ex_nic_event < length (connections ex_nic_thread)" by (simp add: ex_nic ex_conn)
  moreover have "ev_cmsgs ex_nic_event = [Scm_timestamping [zero_timespec, zero_timespec, Timespec 6 5]]"
    by (simp add: ex_nic_event_def)
  moreover have "ev_measuring ex_nic_event" "\<not> sampling_rate ex_st < ev_rnd ex_nic_event"
    by (simp_all add: ex_nic_event_def ex_event_def ex_st_def)
  moreover have "wire_time (Timespec 6 5) (Timespec 5 10) = 999999995" by (simp add: wire_time_def timespec_ns_def)
  ultimately show ?thesis
    using nic_latency_is_wire_time [OF ex_ready(1) ex_nic(1,2) _ ex_nic(3,4) _ _ ex_nic(12,5) refl refl]
    by (auto simp: ex_nic lat_store_def Let_def) (auto simp: ex_nic_thread_def ex_thread_def zero_lat_def ex_st_def)
qed

end
