(* ===== verification/Transport_Main.thy ===== *)
theory Transport_Main
  imports Transport_Latency
begin

text \<open>
  The main functions of \<open>tp_tcp.c\<close> as a whole: they open the connections, set the schedule to the
  current time and loop. The loops do not end by themselves; the definitions run them over the
  environments of the iterations made so far.
\<close>

subsection \<open>The four main functions\<close>

fun main_loop :: "('e \<Rightarrow> thread_state \<Rightarrow> thread_state step c_result) \<Rightarrow> 'e list \<Rightarrow> thread_state \<Rightarrow> thread_state step c_result" where
  "main_loop iter [] s = Inr (Go s)"
| "main_loop iter (e # es) s =
     c_bind (iter e s) (\<lambda>r. case r of Stop s' \<Rightarrow> Inr (Stop s') | Go s' \<Rightarrow> main_loop iter es s')"

text \<open>What the open-loop mains do before their loop, with the clock reading \<open>now\<close>; a failure returns.\<close>

definition open_and_loop ::
  "('e \<Rightarrow> thread_state \<Rightarrow> thread_state step c_result) \<Rightarrow> agent_config \<Rightarrow> bool \<Rightarrow> (nat \<Rightarrow> setup_result) \<Rightarrow> int
   \<Rightarrow> 'e list \<Rightarrow> thread_state \<Rightarrow> thread_state step c_result" where
  "open_and_loop iter cfg epoll_ok setup now es s =
     c_bind (throughput_open_connections cfg epoll_ok setup s) (\<lambda>(ret, s1, dests).
     if ret \<noteq> 0 then Inr (Stop s1) else main_loop iter es (s1\<lparr>next_tx := now\<rparr>))"

definition throughput_tcp_main ::
  "agent_config \<Rightarrow> bool \<Rightarrow> (nat \<Rightarrow> setup_result) \<Rightarrow> int \<Rightarrow> iter_env list \<Rightarrow> thread_state \<Rightarrow> thread_state step c_result" where
  "throughput_tcp_main cfg = open_and_loop (throughput_iter cfg) cfg"

definition symmetric_nic_tcp_main ::
  "agent_config \<Rightarrow> stats_state \<Rightarrow> bool \<Rightarrow> (nat \<Rightarrow> setup_result) \<Rightarrow> int \<Rightarrow> iter_env list \<Rightarrow> thread_state \<Rightarrow> thread_state step c_result" where
  "symmetric_nic_tcp_main cfg st = open_and_loop (nic_iter cfg st) cfg"

definition symmetric_tcp_main ::
  "agent_config \<Rightarrow> stats_state \<Rightarrow> bool \<Rightarrow> (nat \<Rightarrow> setup_result) \<Rightarrow> int \<Rightarrow> iter_env list \<Rightarrow> thread_state \<Rightarrow> thread_state step c_result" where
  "symmetric_tcp_main cfg st = open_and_loop (user_iter cfg st) cfg"

text \<open>The latency main ends the process when its connections cannot be opened.\<close>

definition latency_tcp_main ::
  "agent_config \<Rightarrow> stats_state \<Rightarrow> (nat \<Rightarrow> setup_result) \<Rightarrow> int \<Rightarrow> latency_env list \<Rightarrow> thread_state
   \<Rightarrow> thread_state step c_result" where
  "latency_tcp_main cfg st setup now es s =
     c_bind (latency_open_connections cfg setup s) (\<lambda>(ret, s1, dests).
     if ret \<noteq> 0 then Inl (Process_Exit (- 1)) else main_loop (latency_iter cfg st) es (s1\<lparr>next_tx := now\<rparr>))"

subsection \<open>The number of connections never changes\<close>

lemma throughput_event_length:
  "throughput_event cfg ev s = Inr r \<Longrightarrow> length (connections (step_state r)) = length (connections s)"
proof -
  assume "throughput_event cfg ev s = Inr r"
  then obtain c res where "on_readable False (\<lambda>_ _ s. Inr s) cfg ev s = Inr r" and "c_read (connections s) (ev_idx ev) = Inr c"
    and "receive False cfg ev c = Inr res"
    by (auto simp: throughput_event_def on_readable_def c_result_simps split: if_splits)
  then show ?thesis by (cases res) (auto simp: on_readable_def Let_def)
qed

lemma throughput_events_length:
  "event_loop (throughput_event cfg) evs s = Inr r \<Longrightarrow> length (connections (step_state r)) = length (connections s)"
proof (induction evs arbitrary: s)
  case (Cons ev evs)
  then obtain r1 where r1: "throughput_event cfg ev s = Inr r1" by (auto simp: c_result_simps)
  with Cons throughput_event_length [OF r1] show ?case by (cases r1; cases r) auto
qed auto

lemma one_send_length:
  "one_send No_stamp cfg es s = Inr r \<Longrightarrow> length (connections (step_state r)) = length (connections s)"
  by (cases r) (auto simp: one_send_def try_send_def send_on_def c_result_simps Let_def split: list.splits if_splits option.splits prod.splits)

lemma throughput_iter_length:
  assumes "throughput_iter cfg env s = Inr r"
  shows "length (connections (step_state r)) = length (connections s)"
proof (cases "ie_load env")
  case True
  with assms obtain r1 where r1: "one_send No_stamp cfg (ie_sends env) s = Inr r1"
    and r: "then_events (throughput_event cfg) (ie_events env) r1 = Inr r" by (auto simp: throughput_iter_def c_result_simps)
  from r one_send_length [OF r1] throughput_events_length show ?thesis
    by (cases r1) (fastforce simp: then_events_def)+
qed (use assms in \<open>auto simp: throughput_iter_def\<close>)

subsection \<open>A whole run\<close>

text \<open>The iterations so far, each in the state the previous ones have left: the peer and the system behave.\<close>

fun throughput_run_ok :: "nat \<Rightarrow> agent_config \<Rightarrow> iter_env list \<Rightarrow> thread_state \<Rightarrow> bool" where
  "throughput_run_ok m cfg [] s = True"
| "throughput_run_ok m cfg (env # envs) s =
     ((\<forall>e \<in> set (ie_sends env). send_ok cfg s e)
      \<and> (case one_send No_stamp cfg (ie_sends env) s of
           Inr (Go s1) \<Rightarrow> events_ok (throughput_event cfg) (event_ok m) (ie_events env) s1 | _ \<Rightarrow> True)
      \<and> (case throughput_iter cfg env s of Inr (Go s') \<Rightarrow> throughput_run_ok m cfg envs s' | _ \<Rightarrow> True))"

lemma throughput_loop_ok:
  assumes "app_ready cfg m" and "thread_ok m s" and "threads_conns cfg s" and "throughput_run_ok m cfg envs s"
  shows "\<exists>r. main_loop (throughput_iter cfg) envs s = Inr r \<and> thread_ok m (step_state r)"
  using assms(2-4)
proof (induction envs arbitrary: s)
  case (Cons env envs)
  obtain r where r: "throughput_iter cfg env s = Inr r" "thread_ok m (step_state r)"
    using throughput_iter_ok [OF assms(1) Cons.prems(1,2), of env] Cons.prems(3) by (force split: sum.splits step.splits)
  have "threads_conns cfg (step_state r)"
    using Cons.prems(2) throughput_iter_length [OF r(1)] by (auto simp: threads_conns_def)
  with r Cons show ?case by (cases r) auto
qed simp

lemma throughput_loop_length:
  "main_loop (throughput_iter cfg) envs s = Inr r \<Longrightarrow> length (connections (step_state r)) = length (connections s)"
proof (induction envs arbitrary: s)
  case (Cons env envs)
  then obtain r1 where r1: "throughput_iter cfg env s = Inr r1" by (auto simp: c_result_simps)
  with Cons throughput_iter_length [OF r1] show ?case by (cases r1; cases r) auto
qed auto



subsection \<open>Progress\<close>

text \<open>A connection that can take a request, and a send the system accepts whole.\<close>

definition free_conn :: "tcp_connection \<Rightarrow> bool" where
  "free_conn c \<longleftrightarrow> unat (tc_pending c) < MAX_PENDING_REQS \<and> \<not> tc_closed c"

definition sends_whole :: "agent_config \<Rightarrow> send_env \<Rightarrow> thread_state \<Rightarrow> int \<Rightarrow> bool" where
  "sends_whole cfg e s ia \<longleftrightarrow> (\<exists>req arg. prepare_request cfg (se_req e) (thr_arg s) = Inr (req, arg)
     \<and> se_ret e = int (request_bytes req)) \<and> get_ia cfg (se_ia e) = Inr ia"

lemma pick_loop_free:
  assumes "cs \<noteq> []" and "\<exists>r \<in> set rs. free_conn (cs ! (r mod length cs))"
  shows "\<exists>i. pick_loop rs (int (length cs)) cs = Inr (Some i) \<and> i < length cs \<and> free_conn (cs ! i)"
  using assms(2)
proof (induction rs)
  case (Cons r rs)
  have "r mod length cs < length cs" using assms(1) by simp
  then show ?case using Cons assms(1) by (cases "free_conn (cs ! (r mod length cs))") (auto simp: Let_def free_conn_def)
qed simp

lemma send_on_whole:
  assumes "sends_whole cfg e s ia" and "i < length (connections s)" and "mode = No_stamp \<or> i < length (conn_tx s)"
  shows "\<exists>s'. send_on mode cfg e i s = Inr (Go s') \<and> next_tx s' = next_tx s + ia \<and> avail_reqs s' = avail_reqs s - 1
    \<and> connections s' = (connections s)[i := (connections s ! i)\<lparr>tc_pending := tc_pending (connections s ! i) + 1\<rparr>]"
  using assms by (cases mode) (auto simp: sends_whole_def send_on_def Let_def case_prod_unfold)

lemma try_send_progress:
  assumes "threads_conns cfg s" and "mode = No_stamp \<or> length (conn_tx s) = length (connections s)"
    and "\<exists>r \<in> set (take 10 (se_rands e)). free_conn (connections s ! (r mod length (connections s)))" and "sends_whole cfg e s ia"
  shows "\<exists>i s'. try_send mode cfg e s = Inr (True, Go s') \<and> i < length (connections s) \<and> free_conn (connections s ! i)
    \<and> next_tx s' = next_tx s + ia \<and> avail_reqs s' = avail_reqs s - 1
    \<and> connections s' = (connections s)[i := (connections s ! i)\<lparr>tc_pending := tc_pending (connections s ! i) + 1\<rparr>]"
proof -
  obtain i where i: "pick_conn cfg (se_rands e) (connections s) = Inr (Some i)" "i < length (connections s)"
    "free_conn (connections s ! i)"
    using pick_loop_free [OF _ assms(3)] assms(1) by (auto simp: threads_conns_def pick_conn_def)
  obtain s' where "send_on mode cfg e i s = Inr (Go s')" and s': "next_tx s' = next_tx s + ia" "avail_reqs s' = avail_reqs s - 1"
    "connections s' = (connections s)[i := (connections s ! i)\<lparr>tc_pending := tc_pending (connections s ! i) + 1\<rparr>]"
    using send_on_whole [OF assms(4) i(2), of mode] assms(2) i(2) by auto
  then have "try_send mode cfg e s = Inr (True, Go s')" using i(1) by (simp add: try_send_def)
  with i(2,3) s' show ?thesis by blast
qed

text \<open>
  C15. The load is open-loop: when a request is due and one of the at most ten connections drawn at
  random has room, the iteration sends, whatever answers are outstanding. Exactly one connection with
  room gets one more request in flight, one slot is used up, and the schedule advances by the
  generator's interval from the previous due time (not from the present), so that lateness is made up
  for by the following requests.
\<close>

theorem due_request_is_sent:
  assumes "threads_conns cfg s" and "mode = No_stamp \<or> length (conn_tx s) = length (connections s)"
    and "next_tx s \<le> se_now e" and "sends_whole cfg e s ia"
    and "\<exists>r \<in> set (take 10 (se_rands e)). free_conn (connections s ! (r mod length (connections s)))"
  shows "\<exists>i s'. one_send mode cfg (e # es) s = Inr (Go s') \<and> i < length (connections s)
    \<and> unat (tc_pending (connections s' ! i)) = unat (tc_pending (connections s ! i)) + 1
    \<and> unat (tc_pending (connections s' ! i)) \<le> MAX_PENDING_REQS
    \<and> (\<forall>j < length (connections s). j \<noteq> i \<longrightarrow> connections s' ! j = connections s ! j)
    \<and> avail_reqs s' = avail_reqs s - 1 \<and> next_tx s' = next_tx s + ia"
proof -
  obtain i s' where send: "try_send mode cfg e s = Inr (True, Go s')" and i: "i < length (connections s)" "free_conn (connections s ! i)"
    and s': "next_tx s' = next_tx s + ia" "avail_reqs s' = avail_reqs s - 1"
      "connections s' = (connections s)[i := (connections s ! i)\<lparr>tc_pending := tc_pending (connections s ! i) + 1\<rparr>]"
    using try_send_progress [OF assms(1,2,5,4)] by blast
  have "unat (tc_pending (connections s ! i) + 1) = unat (tc_pending (connections s ! i)) + 1"
    using i(2) by (intro unat_pending_Suc) (simp add: free_conn_def)
  then show ?thesis
    using send i s' assms(3) by (intro exI [of _ i] exI [of _ s']) (auto simp: one_send_def free_conn_def)
qed

definition ex_send :: send_env where
  "ex_send = le_send ex_latency_env"

theorem due_request_is_sent_witness:
  "\<exists>s'. one_send User_stamp ex_cfg [ex_send] ex_thread = Inr (Go s') \<and> avail_reqs s' = 14 \<and> next_tx s' = 10000
     \<and> unat (tc_pending (connections s' ! 0)) = 2"
proof -
  have "sends_whole ex_cfg ex_send ex_thread 10000"
    using round_half_away_of_int [of 1] round_half_away_of_int [of 10000]
    by (simp add: sends_whole_def ex_send_def ex_latency_env_def prepare_request_def ex_cfg_def zero_config_def
        synthetic_create_request_def ex_draws_def long_bytes_def request_bytes_def get_ia_def gen_ptr_def)
  moreover have "\<exists>r \<in> set (take 10 (se_rands ex_send)). free_conn (connections ex_thread ! (r mod length (connections ex_thread)))"
    by (simp add: ex_send_def ex_latency_env_def ex_conn free_conn_def zero_connection_def MAX_PENDING_REQS_def)
  moreover have "next_tx ex_thread \<le> se_now ex_send" "length (conn_tx ex_thread) = length (connections ex_thread)"
    "avail_reqs ex_thread = 15" "next_tx ex_thread = 0"
    by (simp_all add: ex_send_def ex_latency_env_def ex_thread_def)
  ultimately show ?thesis
    using due_request_is_sent [OF ex_ready(3), of User_stamp ex_send 10000 "[]"]
    by (auto simp: ex_conn zero_connection_def)
qed

end
