(* ===== verification/Framing.thy ===== *)
theory Framing
  imports Transport_Main
begin

text \<open>
  The throughput agent's reading of one connection over any number of events: the responses are taken from
  the stream of bytes, and the segments the stream arrives in matter only in so far as the loop insists that
  every read completes a response.
\<close>

subsection \<open>Segments\<close>

text \<open>An event that delivers data on connection \<open>i\<close>.\<close>

definition segment :: "nat \<Rightarrow> epoll_event \<Rightarrow> bool" where
  "segment i ev \<longleftrightarrow> ev_idx ev = i \<and> ev_in ev \<and> 0 < ev_ret ev \<and> length (ev_data ev) = nat (ev_ret ev)"

text \<open>
  \<open>left\<close> bytes of an unfinished response of \<open>m\<close> bytes are buffered and segments of the given sizes follow: the
  reads stay within the buffer, as \<open>recv\<close> is told its room; every read completes a response.
\<close>

fun reads_within :: "nat \<Rightarrow> nat \<Rightarrow> nat list \<Rightarrow> bool" where
  "reads_within m left [] = True"
| "reads_within m left (n # ns) \<longleftrightarrow> left + n \<le> MAX_PAYLOAD \<and> reads_within m ((left + n) mod m) ns"

fun reads_complete :: "nat \<Rightarrow> nat \<Rightarrow> nat list \<Rightarrow> bool" where
  "reads_complete m left [] = True"
| "reads_complete m left (n # ns) \<longleftrightarrow> m \<le> left + n \<and> reads_complete m ((left + n) mod m) ns"

definition sizes :: "epoll_event list \<Rightarrow> nat list" where
  "sizes evs = map (\<lambda>ev. nat (ev_ret ev)) evs"

definition stream_bytes :: "tcp_connection \<Rightarrow> epoll_event list \<Rightarrow> byte list" where
  "stream_bytes c evs = buffered c @ concat (map ev_data evs)"

text \<open>The state after the whole stream: whole responses are gone and counted, the bytes behind them are buffered.\<close>

definition stream_taken :: "nat \<Rightarrow> nat \<Rightarrow> byte list \<Rightarrow> bool \<Rightarrow> thread_state \<Rightarrow> thread_state \<Rightarrow> bool" where
  "stream_taken m i bs measuring s s' \<longleftrightarrow> thread_ok m s'
     \<and> length (connections s') = length (connections s) \<and> (\<forall>j. j \<noteq> i \<longrightarrow> connections s' ! j = connections s ! j)
     \<and> buffered (connections s' ! i) = drop (length bs div m * m) bs
     \<and> unat (tc_pending (connections s' ! i)) = unat (tc_pending (connections s ! i)) - length bs div m
     \<and> (measuring \<longrightarrow> th_rx (lt_th (thr_stats s')) = add_pair (th_rx (lt_th (thr_stats s)))
          \<lparr>br_bytes = word_of_nat (length bs div m * m), br_reqs = word_of_nat (length bs div m)\<rparr>)"

lemma length_buffered: "conn_ok m c \<Longrightarrow> m \<le> MAX_PAYLOAD \<Longrightarrow> length (buffered c) = unat (tc_buffer_idx c)"
  by (simp add: conn_ok_def buffered_def)

lemma unat_u64_inverse: "word_of_nat (unat w) = (w :: u64)"
  by simp

lemma length_unfinished: "length (drop (length bs div m * m) bs) = length bs mod m"
  by (simp add: minus_div_mult_eq_mod)

text \<open>One segment that completes a response, then the rest of the stream.\<close>

lemma stream_taken_step:
  assumes "0 < m" and "i < length (connections s)"
    and "stream_taken m i (drop (length bs div m * m) bs @ cs) b s1 s2" and "stream_taken m i bs b s s1"
  shows "stream_taken m i (bs @ cs) b s s2"
proof -
  let ?k = "length bs div m" and ?d = "drop (length bs div m * m) bs @ cs"
  have le: "?k * m \<le> length bs" by simp
  then have bytes: "?d = drop (?k * m) (bs @ cs)" by simp
  have len: "length (bs @ cs) = ?k * m + length ?d"
    unfolding length_append length_unfinished by (simp add: div_mult_mod_eq)
  then have k: "length (bs @ cs) div m = ?k + length ?d div m" using assms(1) by (simp only: div_mult_self3)
  have "drop (length ?d div m * m) ?d = drop (length (bs @ cs) div m * m) (bs @ cs)"
    unfolding k bytes by (simp add: add_mult_distrib add.commute)
  then show ?thesis
    using assms(2-4) unfolding stream_taken_def k by (auto simp: add_mult_distrib add_pair_def)
qed

lemma segment_taken:
  assumes "app_ready cfg m" and "thread_ok m s" and "i < length (connections s)" and "segment i ev"
    and "serves m (connections s ! i) ev"
  shows "\<exists>s'. throughput_event cfg ev s = Inr (Go s')
    \<and> stream_taken m i (buffered (connections s ! i) @ ev_data ev) (ev_measuring ev) s s'"
proof -
  let ?c = "connections s ! i"
  have m: "0 < m" "m \<le> MAX_PAYLOAD" using assms(1) by (simp_all add: app_ready_def)
  have ev: "ev_idx ev = i" "ev_in ev" using assms(4) by (simp_all add: segment_def)
  obtain c' r where got: "received_ok m ?c ev c' r"
    and run: "on_readable False (\<lambda>_ _ s. Inr s) cfg ev s = Inr (Go ((after_receive s i c' r)
      \<lparr>thr_stats := add_throughput_rx_sample (ev_measuring ev) r (thr_stats (after_receive s i c' r))\<rparr>))"
    using on_readable_serves [OF assms(1,2), of ev False "\<lambda>_ _ s. Inr s"] assms(3,5) ev by auto
  define bs where "bs = buffered ?c @ ev_data ev"
  have "conn_ok m ?c" using assms(2,3) by (simp add: thread_ok_def)
  from length_buffered [OF this m(2)] have len: "length bs = arrived ?c ev"
    using assms(4) by (simp add: arrived_def segment_def bs_def)
  have "br_bytes r = word_of_nat (length bs div m * m)" "br_reqs r = word_of_nat (length bs div m)"
    using got unat_u64_inverse unfolding received_ok_def len by metis+
  then have r: "r = \<lparr>br_bytes = word_of_nat (length bs div m * m), br_reqs = word_of_nat (length bs div m)\<rparr>" by simp
  let ?s' = "(after_receive s i c' r)\<lparr>thr_stats := add_throughput_rx_sample (ev_measuring ev) r (thr_stats s)\<rparr>"
  have "thread_ok m ?s'"
    by (rule thread_ok_cong [OF thread_ok_receive [OF assms(2,3) m(1) got assms(5)]]) (simp_all add: after_receive_def)
  moreover have "connections ?s' = (connections s)[i := c']" by (simp add: after_receive_def)
  moreover have "buffered c' = drop (length bs div m * m) bs" "unat (tc_pending c') = unat (tc_pending ?c) - length bs div m"
    using got by (simp_all only: received_ok_def len bs_def [symmetric])
  moreover have "ev_measuring ev \<longrightarrow> th_rx (lt_th (thr_stats ?s')) = add_pair (th_rx (lt_th (thr_stats s))) r"
    by (simp add: add_throughput_rx_sample_def)
  ultimately have "stream_taken m i bs (ev_measuring ev) s ?s'"
    using assms(3) unfolding r by (simp add: stream_taken_def)
  moreover have "throughput_event cfg ev s = Inr (Go ?s')" using run ev by (simp add: throughput_event_def after_receive_def)
  ultimately show ?thesis unfolding bs_def by blast
qed

lemma events_taken:
  assumes "app_ready cfg m"
  shows "thread_ok m s \<Longrightarrow> i < length (connections s) \<Longrightarrow> \<forall>ev \<in> set evs. segment i ev \<and> ev_measuring ev = b \<Longrightarrow>
    length (stream_bytes (connections s ! i) evs) \<le> unat (tc_pending (connections s ! i)) * m \<Longrightarrow>
    reads_within m (unat (tc_buffer_idx (connections s ! i))) (sizes evs) \<Longrightarrow>
    if reads_complete m (unat (tc_buffer_idx (connections s ! i))) (sizes evs)
    then \<exists>s'. event_loop (throughput_event cfg) evs s = Inr (Go s') \<and> stream_taken m i (stream_bytes (connections s ! i) evs) b s s'
    else \<exists>e. event_loop (throughput_event cfg) evs s = Inl e"
proof (induction evs arbitrary: s)
  case Nil
  have m: "0 < m" "m \<le> MAX_PAYLOAD" using assms by (simp_all add: app_ready_def)
  have ok: "conn_ok m (connections s ! i)" using Nil.prems(1,2) by (simp add: thread_ok_def)
  then have "length (buffered (connections s ! i)) div m = 0"
    using length_buffered [OF ok m(2)] m(1) by (simp add: conn_ok_def)
  then show ?case using Nil.prems(1) by (simp add: sizes_def stream_taken_def stream_bytes_def add_pair_def)
next
  case (Cons ev evs)
  let ?c = "connections s ! i" and ?rest = "concat (map ev_data evs)"
  let ?left = "unat (tc_buffer_idx ?c)" and ?n = "nat (ev_ret ev)"
  define bs where "bs = buffered ?c @ ev_data ev"
  have m: "0 < m" "m \<le> MAX_PAYLOAD" using assms by (simp_all add: app_ready_def)
  have ok: "conn_ok m ?c" using Cons.prems(1,2) by (simp add: thread_ok_def)
  note left = length_buffered [OF ok m(2)]
  have ev: "segment i ev" "ev_measuring ev = b" using Cons.prems(3) by simp_all
  then have n: "length (ev_data ev) = ?n" "0 < ?n" "ev_idx ev = i" "ev_in ev" "0 < ev_ret ev" by (simp_all add: segment_def)
  have len: "length bs = ?left + ?n" by (simp add: bs_def left n(1))
  have arr: "arrived ?c ev = ?left + ?n" by (simp add: arrived_def)
  have max: "?left + ?n \<le> MAX_PAYLOAD" using Cons.prems(5) by (simp add: sizes_def)
  have pend: "?left + ?n + length ?rest \<le> unat (tc_pending ?c) * m" using Cons.prems(4) left n(1) by (simp add: stream_bytes_def)
  show ?case
  proof (cases "m \<le> ?left + ?n")
    case False
    then have "\<not> m dvd arrived ?c ev" using n(2) arr by (auto dest: dvd_imp_le)
    with receive_partial [OF assms ok n(5,1), of False] False max arr obtain e where "receive False cfg ev ?c = Inl e" by auto
    then have "throughput_event cfg ev s = Inl e"
      using Cons.prems(2) n(3,4) by (simp add: throughput_event_def on_readable_def)
    then show ?thesis using False by (simp add: sizes_def)
  next
    case True
    have serve: "serves m ?c ev" using True n max pend arr by (simp add: serves_def)
    from segment_taken [OF assms Cons.prems(1,2) ev(1) this] ev(2) obtain s1 where
      s1: "throughput_event cfg ev s = Inr (Go s1)" "stream_taken m i bs b s s1" unfolding bs_def by auto
    have c1: "thread_ok m s1" "i < length (connections s1)" "buffered (connections s1 ! i) = drop (length bs div m * m) bs"
      "unat (tc_pending (connections s1 ! i)) = unat (tc_pending ?c) - length bs div m"
      using s1(2) Cons.prems(2) by (simp_all add: stream_taken_def)
    have "conn_ok m (connections s1 ! i)" using c1(1,2) by (simp add: thread_ok_def)
    from length_buffered [OF this m(2)] have idx: "unat (tc_buffer_idx (connections s1 ! i)) = (?left + ?n) mod m"
      using c1(3) length_unfinished [of bs m] len by simp
    have bytes: "stream_bytes (connections s1 ! i) evs = drop (length bs div m * m) bs @ ?rest"
      by (simp only: stream_bytes_def c1(3))
    have "length (stream_bytes (connections s1 ! i) evs) = (?left + ?n) mod m + length ?rest"
      using length_unfinished [of bs m] unfolding bytes by (simp only: length_append len)
    moreover have "(?left + ?n) div m * m + ((?left + ?n) mod m + length ?rest) \<le> unat (tc_pending ?c) * m"
      using pend by (simp add: div_mult_mod_eq add.assoc [symmetric])
    ultimately have "length (stream_bytes (connections s1 ! i) evs) \<le> unat (tc_pending (connections s1 ! i)) * m"
      unfolding c1(4) len diff_mult_distrib by linarith
    from Cons.IH [OF c1(1,2) _ this] Cons.prems(3,5) have IH:
      "if reads_complete m ((?left + ?n) mod m) (sizes evs)
       then \<exists>s'. event_loop (throughput_event cfg) evs s1 = Inr (Go s')
         \<and> stream_taken m i (drop (length bs div m * m) bs @ ?rest) b s1 s'
       else \<exists>e. event_loop (throughput_event cfg) evs s1 = Inl e"
      unfolding idx bytes by (simp add: sizes_def)
    then show ?thesis
      using True s1(1) stream_taken_step [OF m(1) Cons.prems(2) _ s1(2)] by (auto simp: sizes_def stream_bytes_def bs_def)
  qed
qed

subsection \<open>Properties\<close>

text \<open>
  C20. Responses are framed correctly whatever the segmentation. A throughput thread reads any number of
  segments of one connection, which carry no more than responses to its requests and fit its buffer. If every read completes
  at least one response, then afterwards exactly the whole responses of the stream have been taken off the
  connection's pending requests and counted, and the buffer holds exactly the bytes behind the last of them;
  no other connection has changed. If some read does not, the agent fails: \<open>memcpy\<close>
  of the buffer onto itself is undefined, and the assertion behind it would end the agent.
\<close>

theorem stream_framing:
  assumes "app_ready cfg m" and "thread_ok m s" and "i < length (connections s)"
    and "\<forall>ev \<in> set evs. segment i ev \<and> ev_measuring ev = measuring"
    and "length (stream_bytes (connections s ! i) evs) \<le> unat (tc_pending (connections s ! i)) * m"
    and "reads_within m (unat (tc_buffer_idx (connections s ! i))) (sizes evs)"
  shows "if reads_complete m (unat (tc_buffer_idx (connections s ! i))) (sizes evs)
    then \<exists>s'. event_loop (throughput_event cfg) evs s = Inr (Go s')
      \<and> stream_taken m i (stream_bytes (connections s ! i) evs) measuring s s'
    else \<exists>e. event_loop (throughput_event cfg) evs s = Inl e"
  by (rule events_taken [OF assms(1-4)]) (use assms(5,6) in simp_all)

text \<open>Three requests are unanswered; their responses arrive as 10 and 12 bytes with 2 missing, or as 3 bytes first.\<close>

definition ex_segment :: "nat \<Rightarrow> epoll_event" where
  "ex_segment n = ex_event\<lparr>ev_ret := int n, ev_data := replicate n 7\<rparr>"

definition ex_waiting :: thread_state where
  "ex_waiting = ex_thread\<lparr>connections := [zero_connection\<lparr>tc_pending := 3\<rparr>], avail_reqs := 13\<rparr>"

theorem stream_framing_witness:
  "(\<exists>s'. event_loop (throughput_event ex_cfg) [ex_segment 10, ex_segment 12] ex_waiting = Inr (Go s')
      \<and> tc_pending (connections s' ! 0) = 1 \<and> buffered (connections s' ! 0) = replicate 6 7)
   \<and> (\<exists>e. event_loop (throughput_event ex_cfg) [ex_segment 3, ex_segment 19] ex_waiting = Inl e)"
proof -
  have c: "connections ex_waiting = [zero_connection\<lparr>tc_pending := 3\<rparr>]" by (simp add: ex_waiting_def)
  have ok: "thread_ok 8 ex_waiting"
    by (simp add: thread_ok_def c conn_ok_def zero_connection_def in_flight_total_def MAX_PENDING_REQS_def)
      (simp add: ex_waiting_def)
  have seg: "segment 0 (ex_segment n)" "ev_measuring (ex_segment n)" "ev_ret (ex_segment n) = int n"
    "ev_data (ex_segment n) = replicate n 7" if "0 < n" for n
    using that by (simp_all add: segment_def ex_segment_def ex_event_def)
  have bytes: "stream_bytes (zero_connection\<lparr>tc_pending := 3\<rparr>) evs = concat (map ev_data evs)" for evs
    by (simp add: stream_bytes_def buffered_def zero_connection_def)
  note run = stream_framing [OF ex_ready(1) ok, of 0 _ True, unfolded c nth_Cons_0]
  have "unat (tc_buffer_idx (zero_connection\<lparr>tc_pending := 3\<rparr>)) = 0" by (simp add: zero_connection_def)
  note run = run [unfolded this bytes sizes_def]
  from run [of "[ex_segment 10, ex_segment 12]"] obtain s' where
    s': "event_loop (throughput_event ex_cfg) [ex_segment 10, ex_segment 12] ex_waiting = Inr (Go s')"
    "stream_taken 8 0 (replicate 10 7 @ replicate 12 7) True ex_waiting s'"
    by (auto simp: seg MAX_PAYLOAD_def)
  have "unat (tc_pending (connections s' ! 0)) = 1" "buffered (connections s' ! 0) = replicate 6 7"
    using s'(2) by (simp_all add: stream_taken_def c)
  moreover have "\<exists>e. event_loop (throughput_event ex_cfg) [ex_segment 3, ex_segment 19] ex_waiting = Inl e"
    using run [of "[ex_segment 3, ex_segment 19]"] by (simp add: seg MAX_PAYLOAD_def)
  moreover have "tc_pending (connections s' ! 0) = 1" using calculation(1) by (simp add: word_unat_eq_iff)
  ultimately show ?thesis using s'(1) by blast
qed

end
