(* ===== verification/Coord_Proto.thy ===== *)
theory Coord_Proto
  imports C_Bytes C_Double
begin

text \<open>
  \<open>coord_proto.h\<close>: the messages between the coordinator and the agent, as the bytes of the packed
  structures on a little-endian machine, and how a receiver takes them apart.
\<close>

subsection \<open>Constants\<close>

datatype msg_type = START_LOAD | START_MEASURE | REPORT_REQ | REPLY | TERMINATE

fun msg_type_code :: "msg_type \<Rightarrow> u32" where
  "msg_type_code START_LOAD = 0"
| "msg_type_code START_MEASURE = 1"
| "msg_type_code REPORT_REQ = 2"
| "msg_type_code REPLY = 3"
| "msg_type_code TERMINATE = 4"

definition REPORT_THROUGHPUT :: u32 where "REPORT_THROUGHPUT = 0"
definition REPORT_LATENCY :: u32 where "REPORT_LATENCY = 1"

datatype reply_type =
  REPLY_ACK | REPLY_STATS_THROUGHPUT | REPLY_STATS_LATENCY | REPLY_CONVERGENCE | REPLY_IA_COMP | REPLY_IID

fun reply_code :: "reply_type \<Rightarrow> u32" where
  "reply_code REPLY_ACK = 0"
| "reply_code REPLY_STATS_THROUGHPUT = 1"
| "reply_code REPLY_STATS_LATENCY = 2"
| "reply_code REPLY_CONVERGENCE = 3"
| "reply_code REPLY_IA_COMP = 4"
| "reply_code REPLY_IID = 5"

subsection \<open>Structures\<close>

record msg_hdr =
  MessageType :: u32
  MessageLength :: u32

record throughput_reply =
  Rx_bytes :: u64
  Tx_bytes :: u64
  Req_count :: u64
  Duration :: u64

record latency_reply =
  Th_data :: throughput_reply
  Avg_lat :: u64
  P50_i :: u64
  P50 :: u64
  P50_k :: u64
  P90_i :: u64
  P90 :: u64
  P90_k :: u64
  P95_i :: u64
  P95 :: u64
  P95_k :: u64
  P99_i :: u64
  P99 :: u64
  P99_k :: u64

definition hdr_bytes :: "msg_hdr \<Rightarrow> byte list" where
  "hdr_bytes h = u32_bytes (MessageType h) @ u32_bytes (MessageLength h)"

definition msg1_bytes :: "msg_hdr \<Rightarrow> u32 \<Rightarrow> byte list" where
  "msg1_bytes h info = hdr_bytes h @ u32_bytes info"

definition msg2_bytes :: "msg_hdr \<Rightarrow> u32 \<Rightarrow> u32 \<Rightarrow> byte list" where
  "msg2_bytes h info1 info2 = hdr_bytes h @ u32_bytes info1 @ u32_bytes info2"

definition throughput_bytes :: "throughput_reply \<Rightarrow> byte list" where
  "throughput_bytes r = u64_bytes (Rx_bytes r) @ u64_bytes (Tx_bytes r) @ u64_bytes (Req_count r) @ u64_bytes (Duration r)"

definition latency_fields :: "latency_reply \<Rightarrow> u64 list" where
  "latency_fields r = [Avg_lat r, P50_i r, P50 r, P50_k r, P90_i r, P90 r, P90_k r,
     P95_i r, P95 r, P95_k r, P99_i r, P99 r, P99_k r]"

definition latency_bytes :: "latency_reply \<Rightarrow> byte list" where
  "latency_bytes r = throughput_bytes (Th_data r) @ concat (map u64_bytes (latency_fields r))"

lemma length_msgs [simp]:
  "length (hdr_bytes h) = 8" "length (msg1_bytes h i) = 12" "length (msg2_bytes h i j) = 16"
  "length (throughput_bytes t) = 32" "length (latency_bytes l) = 136"
  by (simp_all add: hdr_bytes_def msg1_bytes_def msg2_bytes_def throughput_bytes_def latency_bytes_def
      latency_fields_def)

subsection \<open>Taking messages apart\<close>

definition parse_hdr :: "byte list \<Rightarrow> msg_hdr" where
  "parse_hdr bs = \<lparr>MessageType = bytes_u32 bs, MessageLength = bytes_u32 (drop 4 bs)\<rparr>"

fun parse_u64s :: "nat \<Rightarrow> byte list \<Rightarrow> u64 list" where
  "parse_u64s 0 bs = []"
| "parse_u64s (Suc k) bs = bytes_u64 bs # parse_u64s k (drop 8 bs)"

lemma parse_hdr_bytes [simp]: "parse_hdr (hdr_bytes h @ bs) = h"
  by (simp add: parse_hdr_def hdr_bytes_def)

lemma parse_u64s_bytes: "parse_u64s (length ws) (concat (map u64_bytes ws) @ bs) = ws"
  by (induction ws) simp_all

lemma throughput_bytes_concat:
  "throughput_bytes r = concat (map u64_bytes [Rx_bytes r, Tx_bytes r, Req_count r, Duration r])"
  by (simp add: throughput_bytes_def)

lemma latency_bytes_concat:
  "latency_bytes r = concat (map u64_bytes
     ([Rx_bytes (Th_data r), Tx_bytes (Th_data r), Req_count (Th_data r), Duration (Th_data r)] @ latency_fields r))"
  by (simp add: latency_bytes_def throughput_bytes_def)

text \<open>The value of the 8 bytes of an IEEE 754 double.\<close>

definition double_of_bytes :: "byte list \<Rightarrow> dbl" where
  "double_of_bytes bs =
     (let w = le_value (take 8 bs);
          neg = (2 ^ 63 \<le> w);
          e = w div 2 ^ 52 mod 2048;
          f = w mod 2 ^ 52;
          s = (if neg then - 1 else 1 :: real)
      in if e = 2047 then (if f = 0 then (if neg then MInf else PInf) else NaN)
         else if e = 0 then Fin (s * real f / 2 ^ 1074)
         else Fin (s * (1 + real f / 2 ^ 52) * (if 1023 \<le> e then 2 ^ (e - 1023) else 1 / 2 ^ (1023 - e))))"

lemma double_examples:
  "double_of_bytes [0, 0, 0, 0, 0, 0, 240, 63] = Fin 1" "double_of_bytes [0, 0, 0, 0, 0, 0, 89, 64] = Fin 100"
  by (simp_all add: double_of_bytes_def Let_def)

end
