(* ===== verification/Manager.thy ===== *)
theory Manager
  imports Coord_Proto Percentiles IA_Check Agent
begin

text \<open>
  \<open>manager.c\<close>: the control loop that takes the coordinator's messages. Its state is the module's
  static variables together with the statistics and the configuration it operates on. Reading and
  writing the socket are inputs: the results of the \<open>read\<close> calls in order, and whether \<open>writev\<close>
  accepted everything. What is written is the result.
\<close>

subsection \<open>State and environment\<close>

record manager_state =
  agents_should_load :: bool
  agents_should_measure :: bool
  start_measure_time :: int
  stop_measure_time :: int
  agg_stats :: latency_stats
  mg_stats :: stats_state
  mg_cfg :: agent_config

record message_env =
  me_hdr :: "int \<times> byte list"
  me_payload :: "int \<times> byte list"
  me_sampling :: "int \<times> byte list"
  me_time :: int
  me_draws :: "nat \<Rightarrow> draws"
  me_written :: bool

text \<open>The numbers drawn for the reference samples.\<close>

definition reference_draws :: "message_env \<Rightarrow> draws list" where
  "reference_draws env = map (me_draws env) [0 ..< REFERENCE_IA_SIZE]"

datatype outcome = Continue | Return int

definition should_load :: "manager_state \<Rightarrow> bool" where
  [simp]: "should_load s = agents_should_load s"

definition should_measure :: "manager_state \<Rightarrow> bool" where
  [simp]: "should_measure s = agents_should_measure s"

text \<open>An \<open>assert\<close> that \<open>read\<close> returned the wanted number of bytes.\<close>

definition read_exactly :: "nat \<Rightarrow> int \<times> byte list \<Rightarrow> byte list c_result" where
  "read_exactly k r = c_bind (c_assert (fst r = int k)) (\<lambda>_. Inr (take k (snd r)))"

definition reply_hdr :: "u32 \<Rightarrow> msg_hdr" where
  "reply_hdr len = \<lparr>MessageType = msg_type_code REPLY, MessageLength = len\<rparr>"

text \<open>\<open>writev\<close> with the assertion that follows it.\<close>

definition write_all :: "message_env \<Rightarrow> byte list \<Rightarrow> byte list c_result" where
  "write_all env out = c_bind (c_assert (me_written env)) (\<lambda>_. Inr out)"

subsection \<open>Replies\<close>

definition reply_ack :: "message_env \<Rightarrow> byte list c_result" where
  "reply_ack env = write_all env (msg1_bytes (reply_hdr 4) (reply_code REPLY_ACK))"

definition collect_latency_stats :: "manager_state \<Rightarrow> latency_stats c_result" where
  "collect_latency_stats s =
     c_bind (aggregate_latency_samples (cfg_atype (mg_cfg s)) (mg_stats s) (agg_stats s))
       compute_latency_percentiles_ci"

definition throughput_data :: "manager_state \<Rightarrow> throughput_stats \<Rightarrow> throughput_reply" where
  "throughput_data s th =
     \<lparr>Rx_bytes = br_bytes (th_rx th), Tx_bytes = br_bytes (th_tx th), Req_count = br_reqs (th_rx th),
      Duration = word_of_int (stop_measure_time s - start_measure_time s)\<rparr>"

text \<open>\<open>sizeof(struct throughput_reply) + sizeof(uint32_t)\<close> is 36.\<close>

definition reply_throughput_stats :: "message_env \<Rightarrow> manager_state \<Rightarrow> (byte list \<times> manager_state) c_result" where
  "reply_throughput_stats env s =
     (let agg = aggregate_throughput_stats (cfg_atype (mg_cfg s)) (mg_stats s) (agg_stats s);
          s1 = s\<lparr>agg_stats := agg\<rparr>;
          data = throughput_data s (lt_th agg);
          out = msg1_bytes (reply_hdr 36) (reply_code REPLY_STATS_THROUGHPUT) @ throughput_bytes data
      in if get_agent_type (mg_cfg s) = SYMMETRIC_NIC_TIMESTAMP_AGENT then
           c_bind (check_ia (mg_stats s)) (\<lambda>(ok, st).
           c_bind (write_all env (out @ msg2_bytes (reply_hdr 8) (reply_code REPLY_IA_COMP) (word_of_int ok))) (\<lambda>b.
           Inr (b, s1\<lparr>mg_stats := st\<rparr>)))
         else c_bind (write_all env out) (\<lambda>b. Inr (b, s1)))"

definition latency_data :: "manager_state \<Rightarrow> latency_stats \<Rightarrow> latency_reply" where
  "latency_data s lt =
     \<lparr>Th_data = throughput_data s (lt_th lt), Avg_lat = lt_avg_lat lt,
      P50_i = lt_p50_i lt, P50 = lt_p50 lt, P50_k = lt_p50_k lt,
      P90_i = lt_p90_i lt, P90 = lt_p90 lt, P90_k = lt_p90_k lt,
      P95_i = lt_p95_i lt, P95 = lt_p95 lt, P95_k = lt_p95_k lt,
      P99_i = lt_p99_i lt, P99 = lt_p99 lt, P99_k = lt_p99_k lt\<rparr>"

text \<open>
  \<open>sizeof(struct throughput_reply)\<close> is 32, and \<open>sizeof(2*sizeof(uint32_t))\<close> is the size of a \<open>size_t\<close>.
  \<open>enc\<close> is the representation of the double \<open>pearson_corr\<close>.
\<close>

definition reply_latency_stats ::
  "(dbl \<Rightarrow> byte list) \<Rightarrow> message_env \<Rightarrow> manager_state \<Rightarrow> (byte list \<times> manager_state) c_result" where
  "reply_latency_stats enc env s =
     c_bind (collect_latency_stats s) (\<lambda>lt.
     let out = msg1_bytes (reply_hdr 32) (reply_code REPLY_STATS_LATENCY) @ latency_bytes (latency_data s lt) in
     c_bind (compute_convergence (lt_samples lt) (unat (lt_size lt))) (\<lambda>(conv, smp).
     let lt1 = lt\<lparr>lt_samples := smp\<rparr> in
     if get_agent_type (mg_cfg s) = SYMMETRIC_NIC_TIMESTAMP_AGENT then
       c_bind (check_iid lt1) (\<lambda>(pearson_corr, lt2).
       c_bind (check_ia (mg_stats s)) (\<lambda>(ok, st).
       c_bind (write_all env (out
           @ msg1_bytes (reply_hdr 8) (reply_code REPLY_CONVERGENCE) @ u32_bytes conv
           @ msg1_bytes (reply_hdr 8) (reply_code REPLY_IID) @ enc pearson_corr
           @ msg2_bytes (reply_hdr 8) (reply_code REPLY_IA_COMP) (word_of_int ok))) (\<lambda>b.
       Inr (b, s\<lparr>agg_stats := lt2, mg_stats := st\<rparr>))))
     else c_bind (write_all env out) (\<lambda>b. Inr (b, s\<lparr>agg_stats := lt1\<rparr>))))"

subsection \<open>Messages\<close>

definition on_start_load :: "message_env \<Rightarrow> manager_state \<Rightarrow> (outcome \<times> byte list \<times> manager_state) c_result" where
  "on_start_load env s =
     c_bind (read_exactly 4 (me_payload env)) (\<lambda>p.
     c_bind (set_load (bytes_u32 p) (mg_cfg s)) (\<lambda>cfg.
     let s1 = s\<lparr>mg_cfg := cfg, agents_should_measure := False,
                mg_stats := clear_all_stats (cfg_atype cfg) (mg_stats s), agents_should_load := True\<rparr>
     in c_bind (reply_ack env) (\<lambda>b. Inr (Continue, b, s1))))"

text \<open>The number of samples per thread: 1.01 times the requested number, over the threads, rounded.\<close>

definition samples_per_thread :: "u32 \<Rightarrow> agent_config \<Rightarrow> int c_result" where
  "samples_per_thread n cfg =
     c_bind (c_lround (Fin (101 / 100) * dbl_of_int (sint n) / dbl_of_int (get_thread_count cfg))) (\<lambda>v.
     Inr (long_to_c_int v))"

definition on_start_measure :: "message_env \<Rightarrow> manager_state \<Rightarrow> (outcome \<times> byte list \<times> manager_state) c_result" where
  "on_start_measure env s =
     c_bind (read_exactly 4 (me_payload env)) (\<lambda>p.
     c_bind (read_exactly 8 (me_sampling env)) (\<lambda>d.
     let st = clear_all_stats (cfg_atype (mg_cfg s)) (mg_stats s) in
     c_bind (samples_per_thread (bytes_u32 p) (mg_cfg s)) (\<lambda>n.
     c_bind (set_per_thread_samples n (double_of_bytes d) st) (\<lambda>st1.
     c_bind (reply_ack env) (\<lambda>b.
     c_bind (gen_ptr (cfg_reference_ia_gen (mg_cfg s))) (\<lambda>reference_ia_gen.
     c_bind (collect_reference_ia (get_ia_gen (mg_cfg s)) reference_ia_gen (reference_draws env) st1) (\<lambda>st2.
     Inr (Continue, b,
          s\<lparr>mg_stats := st2, start_measure_time := me_time env, agents_should_measure := True\<rparr>))))))))"

definition on_report_req ::
  "(dbl \<Rightarrow> byte list) \<Rightarrow> message_env \<Rightarrow> manager_state \<Rightarrow> (outcome \<times> byte list \<times> manager_state) c_result" where
  "on_report_req enc env s =
     c_bind (read_exactly 4 (me_payload env)) (\<lambda>p.
     let s1 = (if agents_should_measure s
               then s\<lparr>agents_should_measure := False, stop_measure_time := me_time env\<rparr> else s)
     in if bytes_u32 p = REPORT_THROUGHPUT then
          c_bind (reply_throughput_stats env s1) (\<lambda>(b, s2). Inr (Continue, b, s2\<lparr>agents_should_measure := True\<rparr>))
        else if bytes_u32 p = REPORT_LATENCY then
          c_bind (reply_latency_stats enc env s1) (\<lambda>(b, s2). Inr (Continue, b, s2\<lparr>agents_should_measure := True\<rparr>))
        else Inr (Return (- 1), [], s1))"

text \<open>One iteration of the loop in \<open>manager_run\<close>.\<close>

definition manager_message ::
  "(dbl \<Rightarrow> byte list) \<Rightarrow> message_env \<Rightarrow> manager_state \<Rightarrow> (outcome \<times> byte list \<times> manager_state) c_result" where
  "manager_message enc env s =
     (if fst (me_hdr env) < 0 then Inr (Return (- 1), [], s)
      else if fst (me_hdr env) = 0 then Inr (Return 0, [], s)
      else c_bind (read_exactly 8 (me_hdr env)) (\<lambda>h.
        let t = MessageType (parse_hdr h) in
        if t = msg_type_code START_LOAD then on_start_load env s
        else if t = msg_type_code START_MEASURE then on_start_measure env s
        else if t = msg_type_code REPORT_REQ then on_report_req enc env s
        else Inr (Return (- 1), [], s)))"

text \<open>\<open>manager_run\<close> over the messages that arrive: the return value, if the loop ended, and all replies.\<close>

fun manager_run ::
  "(dbl \<Rightarrow> byte list) \<Rightarrow> message_env list \<Rightarrow> manager_state \<Rightarrow> (int option \<times> byte list \<times> manager_state) c_result" where
  "manager_run enc [] s = Inr (None, [], s)"
| "manager_run enc (env # envs) s =
     c_bind (manager_message enc env s) (\<lambda>(o', b, s1).
     case o' of
       Return r \<Rightarrow> Inr (Some r, b, s1)
     | Continue \<Rightarrow> c_bind (manager_run enc envs s1) (\<lambda>(r, bs, s2). Inr (r, b @ bs, s2)))"

end
