(* ===== verification/Manager_Properties.thy ===== *)
theory Manager_Properties
  imports Manager
begin

text \<open>
  What the manager promises the coordinator: \<open>START_MEASURE\<close> configures exactly the requested number
  of samples or ends the agent, and the reports carry the totals and the order statistics of what all
  threads recorded, in the bytes the coordinator takes apart.
\<close>

subsection \<open>Messages on the wire\<close>

text \<open>A message with a 32-bit argument arrives completely and its reply is accepted.\<close>

definition delivers :: "message_env \<Rightarrow> msg_type \<Rightarrow> u32 \<Rightarrow> bool" where
  "delivers env t arg \<longleftrightarrow> (\<exists>len. me_hdr env = (8, hdr_bytes \<lparr>MessageType = msg_type_code t, MessageLength = len\<rparr>))
     \<and> me_payload env = (4, u32_bytes arg) \<and> me_written env"

lemma read_exactly_all: "length bs = k \<Longrightarrow> read_exactly k (int k, bs) = Inr bs"
  by (simp add: read_exactly_def)

lemma read_hdr [simp]: "read_exactly 8 (8, hdr_bytes h) = Inr (hdr_bytes h)"
  using read_exactly_all [of "hdr_bytes h" 8] by simp

lemma read_u32 [simp]: "read_exactly 4 (4, u32_bytes w) = Inr (u32_bytes w)"
  using read_exactly_all [of "u32_bytes w" 4] by simp

lemma parse_hdr_exact [simp]: "parse_hdr (hdr_bytes h) = h"
  using parse_hdr_bytes [of h "[]"] by simp

lemma manager_message_delivers:
  assumes "delivers env t arg"
  shows "manager_message enc env s =
    (case t of
       START_LOAD \<Rightarrow> on_start_load env s
     | START_MEASURE \<Rightarrow> on_start_measure env s
     | REPORT_REQ \<Rightarrow> on_report_req enc env s
     | _ \<Rightarrow> Inr (Return (- 1), [], s))"
  using assms by (cases t) (auto simp: delivers_def manager_message_def Let_def)

subsection \<open>The number of samples per thread\<close>

definition requested_per_thread :: "u32 \<Rightarrow> agent_config \<Rightarrow> int" where
  "requested_per_thread n cfg = round_half_away (101 / 100 * real_of_int (sint n) / real_of_int (cfg_thread_count cfg))"

lemma round_half_away_bounds:
  assumes "\<bar>a\<bar> \<le> real_of_int b"
  shows "\<bar>round_half_away a\<bar> \<le> b"
proof (cases "0 \<le> a")
  case True
  then have "0 \<le> \<lfloor>a + 1 / 2\<rfloor>" by simp
  moreover have "\<lfloor>a + 1 / 2\<rfloor> \<le> b" using assms by (simp add: floor_le_iff)
  ultimately show ?thesis using True by (simp add: round_half_away_def)
next
  case False
  then have "\<lceil>a - 1 / 2\<rceil> \<le> 0" by (simp add: ceiling_le_iff)
  moreover have "- b \<le> \<lceil>a - 1 / 2\<rceil>" using assms by (simp add: le_ceiling_iff)
  ultimately show ?thesis using False by (simp add: round_half_away_def)
qed

lemma requested_bounds:
  assumes "0 < cfg_thread_count cfg"
  shows "\<bar>requested_per_thread n cfg\<bar> \<le> 2168958485"
  unfolding requested_per_thread_def
proof (rule round_half_away_bounds)
  have s: "- (2 ^ 31) \<le> sint n" "sint n < 2 ^ 31"
    using sint_ge [of n] sint_lt [of n] by simp_all
  then have "real_of_int \<bar>sint n\<bar> \<le> real_of_int (2 ^ 31)" unfolding of_int_le_iff by linarith
  then have "\<bar>real_of_int (sint n)\<bar> \<le> 2 ^ 31" by (simp only: of_int_abs of_int_power of_int_numeral)
  moreover have "1 \<le> real_of_int (cfg_thread_count cfg)" using assms by simp
  ultimately have "\<bar>real_of_int (sint n)\<bar> \<le> 2 ^ 31 * real_of_int (cfg_thread_count cfg)"
    by (smt (verit) mult_le_cancel_left1 zero_less_power)
  then show "\<bar>101 / 100 * real_of_int (sint n) / real_of_int (cfg_thread_count cfg)\<bar> \<le> real_of_int 2168958485"
    using assms by (simp add: abs_mult abs_div divide_le_eq)
qed

lemma long_to_c_int_period: "long_to_c_int (k - 2 ^ 32) = long_to_c_int k"
proof -
  have "(word_of_int (k - 2 ^ 32) :: u32) = word_of_int k"
    by (simp add: word_of_int_eq_iff take_bit_eq_mod)
  then show ?thesis by (simp only: long_to_c_int_def)
qed

lemma long_to_c_int_wrap:
  assumes "\<bar>k\<bar> \<le> 2168958485"
  shows "0 < long_to_c_int k \<and> long_to_c_int k \<le> int MAX_PER_THREAD_SAMPLES \<longleftrightarrow> 0 < k \<and> k \<le> int MAX_PER_THREAD_SAMPLES"
    and "0 < k \<Longrightarrow> k \<le> int MAX_PER_THREAD_SAMPLES \<Longrightarrow> long_to_c_int k = k"
proof -
  have wrap: "long_to_c_int k = k \<or> long_to_c_int k = k - 2 ^ 32 \<and> 2 ^ 31 \<le> k \<or> long_to_c_int k = k + 2 ^ 32 \<and> k < - (2 ^ 31)"
  proof -
    consider "- (2 ^ 31) \<le> k" "k < 2 ^ 31" | "2 ^ 31 \<le> k" | "k < - (2 ^ 31)" by linarith
    then show ?thesis
    proof cases
      case 1
      then show ?thesis by (simp only: long_to_c_int_id simp_thms)
    next
      case 2
      then have "long_to_c_int (k - 2 ^ 32) = k - 2 ^ 32" using assms by (intro long_to_c_int_id) simp_all
      then show ?thesis using 2 by (simp only: long_to_c_int_period) simp
    next
      case 3
      then have "long_to_c_int (k + 2 ^ 32) = k + 2 ^ 32" using assms by (intro long_to_c_int_id) simp_all
      then show ?thesis using 3 long_to_c_int_period [of "k + 2 ^ 32"] by simp
    qed
  qed
  then show "0 < long_to_c_int k \<and> long_to_c_int k \<le> int MAX_PER_THREAD_SAMPLES \<longleftrightarrow> 0 < k \<and> k \<le> int MAX_PER_THREAD_SAMPLES"
    using assms by (auto simp: MAX_PER_THREAD_SAMPLES_def)
  show "0 < k \<Longrightarrow> k \<le> int MAX_PER_THREAD_SAMPLES \<Longrightarrow> long_to_c_int k = k"
    using wrap by (auto simp: MAX_PER_THREAD_SAMPLES_def)
qed

lemma samples_per_thread_eq:
  assumes "0 < cfg_thread_count cfg"
  shows "samples_per_thread n cfg = Inr (long_to_c_int (requested_per_thread n cfg))"
  using requested_bounds [OF assms, of n] assms
  by (simp add: samples_per_thread_def requested_per_thread_def abs_le_iff)

lemma set_requested:
  assumes "0 < cfg_thread_count cfg"
  shows "c_bind (samples_per_thread n cfg) (\<lambda>k. set_per_thread_samples k r st) =
    (if 0 < requested_per_thread n cfg \<and> requested_per_thread n cfg \<le> int MAX_PER_THREAD_SAMPLES
     then Inr (st\<lparr>per_thread_samples := requested_per_thread n cfg, sampling_rate := r / Fin 100\<rparr>)
     else Inl Assertion_Failed)"
proof -
  note wrap = long_to_c_int_wrap [OF requested_bounds [OF assms, of n]]
  have "set_per_thread_samples (long_to_c_int (requested_per_thread n cfg)) r st = Inl Assertion_Failed"
    if "\<not> (0 < requested_per_thread n cfg \<and> requested_per_thread n cfg \<le> int MAX_PER_THREAD_SAMPLES)"
    using that wrap(1) by (cases "long_to_c_int (requested_per_thread n cfg) \<le> int MAX_PER_THREAD_SAMPLES")
      (auto simp: set_per_thread_samples_def)
  then show ?thesis
    using wrap(2) by (auto simp: samples_per_thread_eq [OF assms] set_per_thread_samples_def)
qed

subsection \<open>Reference samples\<close>

text \<open>The draws from which the generator makes a number that fits a \<open>long\<close> after scaling.\<close>

definition draws_ok :: "rand_gen \<Rightarrow> draws list \<Rightarrow> bool" where
  "draws_ok g ds \<longleftrightarrow> (\<forall>d \<in> set ds. \<exists>v. c_bind (generate g d) (\<lambda>x. c_lround (x * Fin 1000)) = Inr v)"

lemma collect_reference_ok:
  "draws_ok g ds \<Longrightarrow> \<exists>ref. collect_reference_loop g ds = Inr ref \<and> length ref = length ds"
proof (induction ds)
  case (Cons d ds)
  then obtain v ref where "c_bind (generate g d) (\<lambda>x. c_lround (x * Fin 1000)) = Inr v"
    "collect_reference_loop g ds = Inr ref" "length ref = length ds"
    by (auto simp: draws_ok_def)
  then show ?case by (auto simp: c_bind_eq_Inr)
qed simp

lemma fixed_draws_ok: "\<bar>a\<bar> \<le> 10 ^ 9 \<Longrightarrow> draws_ok (Fixed_gen (Fin a)) ds"
  using round_half_away_bounds [of "a * 1000" "10 ^ 12"] by (auto simp: draws_ok_def abs_mult abs_le_iff)

subsection \<open>Properties\<close>

lemma start_measure_ok:
  assumes "delivers env START_MEASURE n" and "me_sampling env = (8, d)" and "length d = 8"
    and "0 < cfg_thread_count (mg_cfg s)" and "cfg_reference_ia_gen (mg_cfg s) = Some g"
    and "draws_ok g (reference_draws env)"
  defines "k \<equiv> requested_per_thread n (mg_cfg s)"
  shows "if 0 < k \<and> k \<le> int MAX_PER_THREAD_SAMPLES
    then \<exists>ref. manager_message enc env s =
      Inr (Continue, msg1_bytes \<lparr>MessageType = msg_type_code REPLY, MessageLength = 4\<rparr> (reply_code REPLY_ACK),
        s\<lparr>mg_stats := (clear_all_stats (cfg_atype (mg_cfg s)) (mg_stats s))\<lparr>per_thread_samples := k,
             sampling_rate := double_of_bytes d / Fin 100, reference_ia := ref\<rparr>,
          start_measure_time := me_time env, agents_should_measure := True\<rparr>)
    else manager_message enc env s = Inl Assertion_Failed"
proof -
  obtain ref where ref: "collect_reference_loop g (reference_draws env) = Inr ref"
    using collect_reference_ok [OF assms(6)] by blast
  let ?st = "clear_all_stats (cfg_atype (mg_cfg s)) (mg_stats s)"
  have read: "read_exactly 4 (me_payload env) = Inr (u32_bytes n)" "read_exactly 8 (me_sampling env) = Inr d"
    "bytes_u32 (u32_bytes n) = n" "me_written env"
    using assms(1-3) read_exactly_all [of d 8] by (simp_all add: delivers_def bytes_roundtrip)
  have run: "manager_message enc env s =
      c_bind (c_bind (samples_per_thread n (mg_cfg s)) (\<lambda>k. set_per_thread_samples k (double_of_bytes d) ?st)) (\<lambda>st1.
        Inr (Continue, msg1_bytes (reply_hdr 4) (reply_code REPLY_ACK),
          s\<lparr>mg_stats := st1\<lparr>reference_ia := ref\<rparr>, start_measure_time := me_time env, agents_should_measure := True\<rparr>))"
    using read ref assms(5)
    by (simp add: manager_message_delivers [OF assms(1)] on_start_measure_def Let_def c_bind_def reply_ack_def
        write_all_def gen_ptr_def collect_reference_ia_def split: sum.splits)
  show ?thesis
    unfolding run set_requested [OF assms(4)] k_def by (auto simp: reply_hdr_def)
qed

text \<open>
  C18. \<open>START_MEASURE\<close> starts a fresh measurement of exactly the requested size: with \<open>n\<close> samples
  requested from \<open>t\<close> threads, every thread keeps \<open>1.01 * n / t\<close> samples (rounded); all counters and
  logs are empty, the rate is the requested percentage, measuring is on, and the coordinator gets its
  acknowledgement. A number that is not positive, or that does not fit the threads' arrays, ends the
  agent with an assertion, whatever 32 bits are sent.
\<close>

theorem start_measure_configures:
  assumes "delivers env START_MEASURE n" and "me_sampling env = (8, d)" and "length d = 8"
    and "0 < cfg_thread_count (mg_cfg s)" and "cfg_reference_ia_gen (mg_cfg s) = Some g"
    and "draws_ok g (reference_draws env)"
  defines "k \<equiv> requested_per_thread n (mg_cfg s)"
  shows "if 0 < k \<and> k \<le> int MAX_PER_THREAD_SAMPLES
    then \<exists>ref. manager_message enc env s =
      Inr (Continue, msg1_bytes \<lparr>MessageType = msg_type_code REPLY, MessageLength = 4\<rparr> (reply_code REPLY_ACK),
        s\<lparr>mg_stats := (clear_all_stats (cfg_atype (mg_cfg s)) (mg_stats s))\<lparr>per_thread_samples := k,
             sampling_rate := double_of_bytes d / Fin 100, reference_ia := ref\<rparr>,
          start_measure_time := me_time env, agents_should_measure := True\<rparr>)
    else manager_message enc env s = Inl Assertion_Failed"
  unfolding k_def by (rule start_measure_ok [OF assms(1-6)])

definition ex_cfg_mg :: agent_config where
  "ex_cfg_mg = zero_config\<lparr>cfg_thread_count := 4, cfg_atype := SYMMETRIC_AGENT,
     cfg_reference_ia_gen := Some (Fixed_gen (Fin 5))\<rparr>"

definition ex_mg :: manager_state where
  "ex_mg = \<lparr>agents_should_load = True, agents_should_measure = False, start_measure_time = 0, stop_measure_time = 0,
     agg_stats = zero_lat [], mg_stats = \<lparr>all_stats = [], all_tx = [], per_thread_samples = 0, sampling_rate = Fin 0,
       reference_ia = []\<rparr>, mg_cfg = ex_cfg_mg\<rparr>"

definition ex_msg :: "msg_type \<Rightarrow> u32 \<Rightarrow> int \<Rightarrow> message_env" where
  "ex_msg t arg now = \<lparr>me_hdr = (8, hdr_bytes \<lparr>MessageType = msg_type_code t, MessageLength = 12\<rparr>),
     me_payload = (4, u32_bytes arg), me_sampling = (8, [0, 0, 0, 0, 0, 0, 89, 64]), me_time = now,
     me_draws = \<lambda>_. \<lparr>uniform_draw = Fin 0, normal_draw = Fin 0\<rparr>, me_written = True\<rparr>"

lemma delivers_ex_msg [simp]: "delivers (ex_msg t arg now) t arg"
  by (auto simp: delivers_def ex_msg_def)

theorem start_measure_configures_witness:
  "\<exists>out s'. manager_message (\<lambda>_. []) (ex_msg START_MEASURE 1000 7) ex_mg = Inr (Continue, out, s')
     \<and> per_thread_samples (mg_stats s') = 253 \<and> agents_should_measure s'"
proof -
  have "\<lfloor>253 :: real\<rfloor> = 253" by simp
  then have "requested_per_thread 1000 (mg_cfg ex_mg) = 253"
    by (simp add: requested_per_thread_def round_half_away_def ex_mg_def ex_cfg_mg_def)
  moreover have "cfg_reference_ia_gen (mg_cfg ex_mg) = Some (Fixed_gen (Fin 5))" "0 < cfg_thread_count (mg_cfg ex_mg)"
    by (simp_all add: ex_mg_def ex_cfg_mg_def)
  moreover have "draws_ok (Fixed_gen (Fin 5)) (reference_draws (ex_msg START_MEASURE 1000 7))"
    by (rule fixed_draws_ok) simp
  moreover have "me_sampling (ex_msg START_MEASURE 1000 7) = (8, [0, 0, 0, 0, 0, 0, 89, 64])"
    by (simp add: ex_msg_def)
  ultimately show ?thesis
    using start_measure_configures [of "ex_msg START_MEASURE 1000 7" 1000 "[0, 0, 0, 0, 0, 0, 89, 64]" ex_mg
        "Fixed_gen (Fin 5)" "\<lambda>_. []"] by (auto simp: MAX_PER_THREAD_SAMPLES_def)
qed

subsection \<open>Reports\<close>

lemma parse_u64s_append: "length ws = k \<Longrightarrow> parse_u64s k (concat (map u64_bytes ws) @ bs) = ws"
  using parse_u64s_bytes by blast

lemma msg1_parts [simp]:
  "parse_hdr (msg1_bytes h i @ bs) = h" "drop 8 (msg1_bytes h i) = u32_bytes i"
  by (simp_all add: msg1_bytes_def)

text \<open>The state in which a report is computed: a running measurement is stopped.\<close>

definition stopped :: "message_env \<Rightarrow> manager_state \<Rightarrow> manager_state" where
  "stopped env s = (if agents_should_measure s
     then s\<lparr>agents_should_measure := False, stop_measure_time := me_time env\<rparr> else s)"

definition measured_time :: "message_env \<Rightarrow> manager_state \<Rightarrow> int" where
  "measured_time env s = (if agents_should_measure s then me_time env else stop_measure_time s) - start_measure_time s"

lemma stopped_fields [simp]:
  "mg_stats (stopped env s) = mg_stats s" "mg_cfg (stopped env s) = mg_cfg s" "agg_stats (stopped env s) = agg_stats s"
  "stop_measure_time (stopped env s) - start_measure_time (stopped env s) = measured_time env s"
  by (simp_all add: stopped_def measured_time_def)

lemma on_report_req_eq:
  assumes "delivers env REPORT_REQ arg"
  shows "on_report_req enc env s =
    (if arg = REPORT_THROUGHPUT then
       c_bind (reply_throughput_stats env (stopped env s)) (\<lambda>(b, s2). Inr (Continue, b, s2\<lparr>agents_should_measure := True\<rparr>))
     else if arg = REPORT_LATENCY then
       c_bind (reply_latency_stats enc env (stopped env s)) (\<lambda>(b, s2). Inr (Continue, b, s2\<lparr>agents_should_measure := True\<rparr>))
     else Inr (Return (- 1), [], stopped env s))"
  using assms unfolding on_report_req_def stopped_def delivers_def by (simp add: bytes_roundtrip Let_def)

lemma throughput_report_parses:
  assumes "delivers env REPORT_REQ REPORT_THROUGHPUT"
    and "cfg_atype (mg_cfg s) \<in> {THROUGHPUT_AGENT, LATENCY_AGENT, SYMMETRIC_AGENT}"
  shows "\<exists>out s'. manager_message enc env s = Inr (Continue, out, s')
    \<and> parse_hdr out = \<lparr>MessageType = msg_type_code REPLY, MessageLength = 36\<rparr> \<and> length out = 8 + 36
    \<and> bytes_u32 (drop 8 out) = reply_code REPLY_STATS_THROUGHPUT
    \<and> parse_u64s 4 (drop 12 out) =
        [\<Sum>t\<leftarrow>all_stats (mg_stats s). br_bytes (th_rx (lt_th t)), \<Sum>t\<leftarrow>all_stats (mg_stats s). br_bytes (th_tx (lt_th t)),
         \<Sum>t\<leftarrow>all_stats (mg_stats s). br_reqs (th_rx (lt_th t)), word_of_int (measured_time env s)]
    \<and> mg_stats s' = mg_stats s \<and> agents_should_measure s'"
proof -
  let ?agg = "aggregate_throughput_stats (cfg_atype (mg_cfg s)) (mg_stats s) (agg_stats s)"
  let ?data = "throughput_data (stopped env s) (lt_th ?agg)"
  let ?out = "msg1_bytes (reply_hdr 36) (reply_code REPLY_STATS_THROUGHPUT) @ throughput_bytes ?data"
  have atype: "cfg_atype (mg_cfg s) \<noteq> AGENT_NR" "cfg_atype (mg_cfg s) \<noteq> SYMMETRIC_NIC_TIMESTAMP_AGENT"
    using assms(2) by auto
  have written: "me_written env" using assms(1) by (simp add: delivers_def)
  have "reply_throughput_stats env (stopped env s) = Inr (?out, stopped env s\<lparr>agg_stats := ?agg\<rparr>)"
    using atype(2) written by (simp add: reply_throughput_stats_def Let_def write_all_def)
  then have run: "manager_message enc env s
      = Inr (Continue, ?out, stopped env s\<lparr>agg_stats := ?agg, agents_should_measure := True\<rparr>)"
    by (simp add: manager_message_delivers [OF assms(1)] on_report_req_eq [OF assms(1)])
  have fields: "parse_u64s 4 (drop 12 ?out) = [Rx_bytes ?data, Tx_bytes ?data, Req_count ?data, Duration ?data]"
    using parse_u64s_append [of "[Rx_bytes ?data, Tx_bytes ?data, Req_count ?data, Duration ?data]" 4 "[]"]
    by (simp add: throughput_bytes_concat)
  have "lt_th ?agg = th_sum (map lt_th (all_stats (mg_stats s)))"
    by (rule lt_th_aggregate_throughput [OF atype(1)])
  then have "[Rx_bytes ?data, Tx_bytes ?data, Req_count ?data, Duration ?data] =
      [\<Sum>t\<leftarrow>all_stats (mg_stats s). br_bytes (th_rx (lt_th t)), \<Sum>t\<leftarrow>all_stats (mg_stats s). br_bytes (th_tx (lt_th t)),
       \<Sum>t\<leftarrow>all_stats (mg_stats s). br_reqs (th_rx (lt_th t)), word_of_int (measured_time env s)]"
    by (simp add: throughput_data_def th_sum_def comp_def)
  with run fields show ?thesis
    by (intro exI [of _ ?out] exI [of _ "stopped env s\<lparr>agg_stats := ?agg, agents_should_measure := True\<rparr>"])
      (simp add: reply_hdr_def)
qed

text \<open>
  The throughput report round-trips: for an agent without hardware timestamps the coordinator
  receives one message whose announced length is what follows the header; taken apart, it holds the
  sums of all threads' received bytes, sent bytes and answered requests, and the length of the
  measurement in microseconds. The counters are not touched and measuring is on again.
\<close>

theorem throughput_report_roundtrip:
  assumes "delivers env REPORT_REQ REPORT_THROUGHPUT"
    and "cfg_atype (mg_cfg s) \<in> {THROUGHPUT_AGENT, LATENCY_AGENT, SYMMETRIC_AGENT}"
  shows "\<exists>out s'. manager_message enc env s = Inr (Continue, out, s')
    \<and> parse_hdr out = \<lparr>MessageType = msg_type_code REPLY, MessageLength = 36\<rparr> \<and> length out = 8 + 36
    \<and> bytes_u32 (drop 8 out) = reply_code REPLY_STATS_THROUGHPUT
    \<and> parse_u64s 4 (drop 12 out) =
        [\<Sum>t\<leftarrow>all_stats (mg_stats s). br_bytes (th_rx (lt_th t)), \<Sum>t\<leftarrow>all_stats (mg_stats s). br_bytes (th_tx (lt_th t)),
         \<Sum>t\<leftarrow>all_stats (mg_stats s). br_reqs (th_rx (lt_th t)), word_of_int (measured_time env s)]
    \<and> mg_stats s' = mg_stats s \<and> agents_should_measure s'"
  by (rule throughput_report_parses [OF assms])

theorem throughput_report_roundtrip_witness:
  "\<exists>out s'. manager_message (\<lambda>_. []) (ex_msg REPORT_REQ 0 9) (ex_mg\<lparr>agents_should_measure := True\<rparr>) = Inr (Continue, out, s')
     \<and> parse_u64s 4 (drop 12 out) = [0, 0, 0, 9]"
  using throughput_report_roundtrip [of "ex_msg REPORT_REQ 0 9" "ex_mg\<lparr>agents_should_measure := True\<rparr>" "\<lambda>_. []"]
  by (auto simp: REPORT_THROUGHPUT_def ex_mg_def ex_cfg_mg_def measured_time_def) (simp add: ex_msg_def)

text \<open>Aggregation, percentiles and convergence over all threads' samples.\<close>

lemma collected:
  assumes "atype \<noteq> AGENT_NR" and "\<forall>t \<in> set (all_stats st). unat (lt_size t) \<le> length (lt_samples t)"
    and "726 \<le> length (all_samples st)" and "length (all_samples st) \<le> AGG_SAMPLE_SIZE"
    and "close_values (map ls_nsec (all_samples st))"
  shows "\<exists>r conv smp. c_bind (aggregate_latency_samples atype st agg) compute_latency_percentiles_ci = Inr r
    \<and> reports_latencies (sort (map ls_nsec (all_samples st))) r \<and> lt_th r = th_sum (map lt_th (all_stats st))
    \<and> compute_convergence (lt_samples r) (unat (lt_size r)) = Inr (conv, smp)
    \<and> 0 < unat (lt_size r) \<and> unat (lt_size r) \<le> length smp"
proof -
  let ?n = "length (all_samples st)"
  obtain lt where agg: "aggregate_latency_samples atype st agg = Inr lt" and lt: "lt_th lt = th_sum (map lt_th (all_stats st))"
      "lt_samples lt = all_samples st @ replicate (AGG_SAMPLE_SIZE - ?n) zero_sample" "lt_size lt = word_of_nat ?n"
    using aggregate_latency_ok [OF assms(1,2,4), of agg] by auto
  have n: "unat (lt_size lt) = ?n"
    unfolding lt(3) using assms(4) by (intro unat_of_nat_u32) (simp add: AGG_SAMPLE_SIZE_def)
  have valid: "take ?n (lt_samples lt) = all_samples st" by (simp add: lt(2))
  obtain r where r: "compute_latency_percentiles_ci lt = Inr r" "mset (lt_samples r) = mset (lt_samples lt)"
      "reports_latencies (sort (map ls_nsec (all_samples st))) r" "lt_th r = lt_th lt" "lt_size r = lt_size lt"
    using percentiles_ci_correct [of lt, unfolded n valid] assms(3-5) lt(2) by auto
  have "length (lt_samples r) = length (lt_samples lt)" using r(2) by (rule mset_eq_length)
  then have size: "unat (lt_size r) \<le> length (lt_samples r)" "0 < unat (lt_size r)"
    using n lt(2) r(5) assms(3) by (simp_all del: length_greater_0_conv)
  then obtain conv smp where conv: "compute_convergence (lt_samples r) (unat (lt_size r)) = Inr (conv, smp)"
    and "mset smp = mset (lt_samples r)"
    using compute_convergence_eq by blast
  then have "unat (lt_size r) \<le> length smp" using size(1) mset_eq_length by metis
  with agg lt(1) r size(2) conv show ?thesis by auto
qed

lemma latency_report_parses:
  assumes "delivers env REPORT_REQ REPORT_LATENCY" and "cfg_atype (mg_cfg s) \<in> {LATENCY_AGENT, SYMMETRIC_AGENT}"
    and "\<forall>t \<in> set (all_stats (mg_stats s)). unat (lt_size t) \<le> length (lt_samples t)"
    and "726 \<le> length (all_samples (mg_stats s))" and "length (all_samples (mg_stats s)) \<le> AGG_SAMPLE_SIZE"
    and "close_values (map ls_nsec (all_samples (mg_stats s)))"
  defines "srt \<equiv> sort (map ls_nsec (all_samples (mg_stats s)))"
  shows "\<exists>out s' f. manager_message enc env s = Inr (Continue, out, s') \<and> length out = 12 + 17 * 8
    \<and> parse_hdr out = \<lparr>MessageType = msg_type_code REPLY, MessageLength = 32\<rparr>
    \<and> bytes_u32 (drop 8 out) = reply_code REPLY_STATS_LATENCY \<and> f = parse_u64s 17 (drop 12 out)
    \<and> take 4 f = [\<Sum>t\<leftarrow>all_stats (mg_stats s). br_bytes (th_rx (lt_th t)), \<Sum>t\<leftarrow>all_stats (mg_stats s). br_bytes (th_tx (lt_th t)),
         \<Sum>t\<leftarrow>all_stats (mg_stats s). br_reqs (th_rx (lt_th t)), word_of_int (measured_time env s)]
    \<and> f ! 4 = (\<Sum>x\<leftarrow>srt. x) div word_of_nat (length srt)
    \<and> reports_percentile srt 50 (f ! 5, f ! 6, f ! 7) \<and> reports_percentile srt 90 (f ! 8, f ! 9, f ! 10)
    \<and> reports_percentile srt 95 (f ! 11, f ! 12, f ! 13) \<and> reports_percentile srt 99 (f ! 14, f ! 15, f ! 16)
    \<and> mg_stats s' = mg_stats s \<and> agents_should_measure s'"
proof -
  obtain r conv smp where r: "collect_latency_stats (stopped env s) = Inr r" "reports_latencies srt r"
      "lt_th r = th_sum (map lt_th (all_stats (mg_stats s)))"
    and conv: "compute_convergence (lt_samples r) (unat (lt_size r)) = Inr (conv, smp)"
    using collected [OF _ assms(3-6), of "cfg_atype (mg_cfg s)" "agg_stats s"] assms(2)
    unfolding srt_def collect_latency_stats_def by auto
  let ?data = "latency_data (stopped env s) r"
  let ?out = "msg1_bytes (reply_hdr 32) (reply_code REPLY_STATS_LATENCY) @ latency_bytes ?data"
  have "cfg_atype (mg_cfg s) \<noteq> SYMMETRIC_NIC_TIMESTAMP_AGENT" "me_written env"
    using assms(1,2) by (auto simp: delivers_def)
  then have "reply_latency_stats enc env (stopped env s) = Inr (?out, stopped env s\<lparr>agg_stats := r\<lparr>lt_samples := smp\<rparr>\<rparr>)"
    by (simp add: reply_latency_stats_def Let_def write_all_def r(1) conv)
  then have run: "manager_message enc env s
      = Inr (Continue, ?out, stopped env s\<lparr>agg_stats := r\<lparr>lt_samples := smp\<rparr>, agents_should_measure := True\<rparr>)"
    by (simp add: manager_message_delivers [OF assms(1)] on_report_req_eq [OF assms(1)] REPORT_THROUGHPUT_def REPORT_LATENCY_def)
  let ?f = "[Rx_bytes (Th_data ?data), Tx_bytes (Th_data ?data), Req_count (Th_data ?data), Duration (Th_data ?data)]
    @ latency_fields ?data"
  have f: "parse_u64s 17 (drop 12 ?out) = ?f"
    using parse_u64s_append [of ?f 17 "[]"] by (simp add: latency_bytes_concat latency_fields_def)
  have "f = ?f \<longrightarrow> f = parse_u64s 17 (drop 12 ?out)" for f using f by simp
  with run r show ?thesis
    by (intro exI [of _ ?out] exI [of _ "stopped env s\<lparr>agg_stats := r\<lparr>lt_samples := smp\<rparr>, agents_should_measure := True\<rparr>"] exI [of _ ?f])
      (simp add: reply_hdr_def latency_fields_def latency_data_def throughput_data_def th_sum_def comp_def
        reports_latencies_def)
qed

text \<open>
  The report of the agent with hardware timestamps goes on after the latencies; its checks of the load
  have to return. What the coordinator reads first is the same.
\<close>

lemma nic_latency_report_parses:
  assumes "delivers env REPORT_REQ REPORT_LATENCY" and "cfg_atype (mg_cfg s) = SYMMETRIC_NIC_TIMESTAMP_AGENT"
    and "\<forall>t \<in> set (all_stats (mg_stats s)). unat (lt_size t) \<le> length (lt_samples t)"
    and "726 \<le> length (all_samples (mg_stats s))" and "length (all_samples (mg_stats s)) \<le> AGG_SAMPLE_SIZE"
    and "close_values (map ls_nsec (all_samples (mg_stats s)))" and "check_ia (mg_stats s) = Inr (ok, st)"
  defines "srt \<equiv> sort (map ls_nsec (all_samples (mg_stats s)))"
  shows "\<exists>out s' f. manager_message enc env s = Inr (Continue, out, s') \<and> f = parse_u64s 17 (drop 12 out)
    \<and> f ! 4 = (\<Sum>x\<leftarrow>srt. x) div word_of_nat (length srt)
    \<and> reports_percentile srt 50 (f ! 5, f ! 6, f ! 7) \<and> reports_percentile srt 90 (f ! 8, f ! 9, f ! 10)
    \<and> reports_percentile srt 95 (f ! 11, f ! 12, f ! 13) \<and> reports_percentile srt 99 (f ! 14, f ! 15, f ! 16)
    \<and> drop (length out - 4) out = u32_bytes (word_of_int ok)"
proof -
  obtain r conv smp where r: "collect_latency_stats (stopped env s) = Inr r" "reports_latencies srt r"
    and conv: "compute_convergence (lt_samples r) (unat (lt_size r)) = Inr (conv, smp)"
    and size: "0 < unat (lt_size r)" "unat (lt_size r) \<le> length smp"
    using collected [OF _ assms(3-6), of "cfg_atype (mg_cfg s)" "agg_stats s"] assms(2)
    unfolding srt_def collect_latency_stats_def by auto
  obtain corr lt where iid: "check_iid (r\<lparr>lt_samples := smp\<rparr>) = Inr (corr, lt)" using size by (simp add: check_iid_def Let_def)
  let ?data = "latency_data (stopped env s) r"
  let ?rest = "msg1_bytes (reply_hdr 8) (reply_code REPLY_CONVERGENCE) @ u32_bytes conv
    @ msg1_bytes (reply_hdr 8) (reply_code REPLY_IID) @ enc corr
    @ msg2_bytes (reply_hdr 8) (reply_code REPLY_IA_COMP) (word_of_int ok)"
  let ?out = "msg1_bytes (reply_hdr 32) (reply_code REPLY_STATS_LATENCY) @ latency_bytes ?data @ ?rest"
  let ?s = "stopped env s\<lparr>agg_stats := lt, mg_stats := st, agents_should_measure := True\<rparr>"
  have u32: "length (u32_bytes w) = 4" for w by (simp add: u32_bytes_def)
  have tail: "drop (length (xs @ u32_bytes w) - 4) (xs @ u32_bytes w) = u32_bytes w" for xs w by (simp add: u32)
  have "?out = (msg1_bytes (reply_hdr 32) (reply_code REPLY_STATS_LATENCY) @ latency_bytes ?data @ msg1_bytes (reply_hdr 8) (reply_code REPLY_CONVERGENCE)
      @ u32_bytes conv @ msg1_bytes (reply_hdr 8) (reply_code REPLY_IID) @ enc corr @ hdr_bytes (reply_hdr 8)
      @ u32_bytes (reply_code REPLY_IA_COMP)) @ u32_bytes (word_of_int ok)"
    by (simp add: msg2_bytes_def)
  then have verdict: "drop (length ?out - 4) ?out = u32_bytes (word_of_int ok)" by (simp only: tail)
  have "me_written env" using assms(1) by (simp add: delivers_def)
  then have "reply_latency_stats enc env (stopped env s) = Inr (?out, stopped env s\<lparr>agg_stats := lt, mg_stats := st\<rparr>)"
    using assms(2,7) by (simp add: reply_latency_stats_def Let_def write_all_def r(1) conv iid)
  then have run: "manager_message enc env s = Inr (Continue, ?out, ?s)"
    by (simp add: manager_message_delivers [OF assms(1)] on_report_req_eq [OF assms(1)] REPORT_THROUGHPUT_def REPORT_LATENCY_def)
  let ?f = "[Rx_bytes (Th_data ?data), Tx_bytes (Th_data ?data), Req_count (Th_data ?data), Duration (Th_data ?data)]
    @ latency_fields ?data"
  have "parse_u64s 17 (concat (map u64_bytes ?f) @ ?rest) = ?f"
    by (rule parse_u64s_append) (simp add: latency_fields_def)
  then have "parse_u64s 17 (latency_bytes ?data @ ?rest) = ?f" by (simp only: latency_bytes_concat)
  then have "parse_u64s 17 (drop 12 ?out) = ?f" by simp
  with run r(2) verdict show ?thesis
    by (intro exI [of _ ?out] exI [of _ ?s] exI [of _ ?f] conjI) (simp_all add: latency_fields_def latency_data_def reports_latencies_def)
qed

text \<open>
  C17. The latency report is right from end to end: if all threads together recorded at least 726
  samples, within 2.1 seconds of each other and few enough for the shared buffer, the coordinator
  receives the totals, the average and the percentiles with their confidence bounds of exactly the
  samples all threads recorded. (The announced length, 32, is not the length of what follows.)
\<close>

theorem latency_report_end_to_end:
  assumes "delivers env REPORT_REQ REPORT_LATENCY" and "cfg_atype (mg_cfg s) \<in> {LATENCY_AGENT, SYMMETRIC_AGENT}"
    and "\<forall>t \<in> set (all_stats (mg_stats s)). unat (lt_size t) \<le> length (lt_samples t)"
    and "726 \<le> length (all_samples (mg_stats s))" and "length (all_samples (mg_stats s)) \<le> AGG_SAMPLE_SIZE"
    and "close_values (map ls_nsec (all_samples (mg_stats s)))"
  defines "srt \<equiv> sort (map ls_nsec (all_samples (mg_stats s)))"
  shows "\<exists>out s' f. manager_message enc env s = Inr (Continue, out, s') \<and> length out = 12 + 17 * 8
    \<and> parse_hdr out = \<lparr>MessageType = msg_type_code REPLY, MessageLength = 32\<rparr>
    \<and> bytes_u32 (drop 8 out) = reply_code REPLY_STATS_LATENCY \<and> f = parse_u64s 17 (drop 12 out)
    \<and> take 4 f = [\<Sum>t\<leftarrow>all_stats (mg_stats s). br_bytes (th_rx (lt_th t)), \<Sum>t\<leftarrow>all_stats (mg_stats s). br_bytes (th_tx (lt_th t)),
         \<Sum>t\<leftarrow>all_stats (mg_stats s). br_reqs (th_rx (lt_th t)), word_of_int (measured_time env s)]
    \<and> f ! 4 = (\<Sum>x\<leftarrow>srt. x) div word_of_nat (length srt)
    \<and> reports_percentile srt 50 (f ! 5, f ! 6, f ! 7) \<and> reports_percentile srt 90 (f ! 8, f ! 9, f ! 10)
    \<and> reports_percentile srt 95 (f ! 11, f ! 12, f ! 13) \<and> reports_percentile srt 99 (f ! 14, f ! 15, f ! 16)
    \<and> mg_stats s' = mg_stats s \<and> agents_should_measure s'"
  unfolding srt_def by (rule latency_report_parses [OF assms(1-6)])

definition ex_recorded :: manager_state where
  "ex_recorded = ex_mg\<lparr>mg_stats := (mg_stats ex_mg)\<lparr>all_stats :=
     [(zero_lat (replicate 800 \<lparr>ls_nsec = 42, ls_tx = Timespec 1 0\<rparr>))\<lparr>lt_size := 800\<rparr>]\<rparr>\<rparr>"

lemma all_samples_ex: "all_samples (mg_stats ex_recorded) = replicate 800 \<lparr>ls_nsec = 42, ls_tx = Timespec 1 0\<rparr>"
  by (simp add: ex_recorded_def all_samples_def valid_samples_def zero_lat_def)

theorem latency_report_end_to_end_witness:
  "\<exists>out s'. manager_message (\<lambda>_. []) (ex_msg REPORT_REQ 1 9) ex_recorded = Inr (Continue, out, s')
     \<and> parse_u64s 17 (drop 12 out) ! 6 = 42"
proof -
  have "delivers (ex_msg REPORT_REQ 1 9) REPORT_REQ REPORT_LATENCY" by (simp add: REPORT_LATENCY_def)
  moreover have "cfg_atype (mg_cfg ex_recorded) \<in> {LATENCY_AGENT, SYMMETRIC_AGENT}"
    "\<forall>t \<in> set (all_stats (mg_stats ex_recorded)). unat (lt_size t) \<le> length (lt_samples t)"
    by (simp_all add: ex_recorded_def ex_mg_def ex_cfg_mg_def zero_lat_def)
  moreover have "sort (replicate 800 (42 :: u64)) = replicate 800 42" by (rule sorted_sort_id) simp
  ultimately show ?thesis
    using latency_report_end_to_end [of "ex_msg REPORT_REQ 1 9" ex_recorded "\<lambda>_. []"]
    by (auto simp: all_samples_ex AGG_SAMPLE_SIZE_def close_values_def reports_percentile_def Let_def)
qed

end
