(* ===== verification/System.thy ===== *)
theory System
  imports Manager_Properties
begin

text \<open>
  The running agent: the threads of \<open>agent_main\<close>, which register and then record through the functions
  of \<open>stats.c\<close>, interleaved with the manager's messages. A step is one call or one message; the
  statistics are shared. The lemmas show that every interleaving keeps the statistics well formed, and
  what a whole measurement reports.
\<close>

subsection \<open>Start\<close>

text \<open>
  \<open>init_per_thread_stats\<close> of the threads in the order of their \<open>__sync_fetch_and_add\<close>; \<open>junk\<close> is what
  \<open>malloc\<close> returned for each.
\<close>

fun register_threads :: "latency_stats list \<Rightarrow> stats_state \<Rightarrow> stats_state c_result" where
  "register_threads [] st = Inr st"
| "register_threads (junk # js) st = c_bind (init_per_thread_stats junk st) (register_threads js)"

definition initial_stats :: stats_state where
  "initial_stats = \<lparr>all_stats = [], all_tx = [], per_thread_samples = 0, sampling_rate = Fin 0,
     reference_ia = replicate REFERENCE_IA_SIZE 0\<rparr>"

definition initial_manager :: "latency_stats \<Rightarrow> agent_config \<Rightarrow> stats_state \<Rightarrow> manager_state" where
  "initial_manager junk cfg st = \<lparr>agents_should_load = False, agents_should_measure = False, start_measure_time = 0,
     stop_measure_time = 0, agg_stats = junk, mg_stats = st, mg_cfg = cfg\<rparr>"

subsection \<open>Recording\<close>

text \<open>The calls a thread makes, with the thread's number.\<close>

datatype recording =
    Count_tx nat byte_req_pair
  | Count_rx nat byte_req_pair
  | Stamp nat timespec
  | Sample nat dbl int "timespec option"

fun thread_of :: "recording \<Rightarrow> nat" where
  "thread_of (Count_tx i p) = i"
| "thread_of (Count_rx i p) = i"
| "thread_of (Stamp i t) = i"
| "thread_of (Sample i rnd diff tx) = i"

definition on_thread :: "nat \<Rightarrow> (latency_stats \<Rightarrow> latency_stats c_result) \<Rightarrow> manager_state \<Rightarrow> manager_state c_result" where
  "on_thread i f s =
     c_bind (c_read (all_stats (mg_stats s)) i) (\<lambda>ts.
     c_bind (f ts) (\<lambda>ts'. Inr (s\<lparr>mg_stats := (mg_stats s)\<lparr>all_stats := (all_stats (mg_stats s))[i := ts']\<rparr>\<rparr>)))"

fun record_call :: "recording \<Rightarrow> manager_state \<Rightarrow> manager_state c_result" where
  "record_call (Count_tx i p) s = on_thread i (\<lambda>ts. Inr (add_throughput_tx_sample (agents_should_measure s) p ts)) s"
| "record_call (Count_rx i p) s = on_thread i (\<lambda>ts. Inr (add_throughput_rx_sample (agents_should_measure s) p ts)) s"
| "record_call (Stamp i t) s =
     c_bind (c_read (all_tx (mg_stats s)) i) (\<lambda>txs.
     Inr (s\<lparr>mg_stats := (mg_stats s)\<lparr>all_tx := (all_tx (mg_stats s))[i := add_tx_timestamp (agents_should_measure s) t txs]\<rparr>\<rparr>))"
| "record_call (Sample i rnd diff tx) s =
     on_thread i (add_latency_sample (agents_should_measure s) rnd (mg_stats s) diff tx) s"

fun record_calls :: "recording list \<Rightarrow> manager_state \<Rightarrow> manager_state c_result" where
  "record_calls [] s = Inr s"
| "record_calls (r # rs) s = c_bind (record_call r s) (record_calls rs)"

subsection \<open>Interleaving\<close>

text \<open>The throughput agent's threads never call \<open>add_latency_sample\<close>.\<close>

fun thread_calls :: "agent_type \<Rightarrow> recording \<Rightarrow> bool" where
  "thread_calls atype (Sample _ _ _ _) = (atype \<noteq> THROUGHPUT_AGENT)"
| "thread_calls atype _ = True"

inductive sys_step :: "(dbl \<Rightarrow> byte list) \<Rightarrow> manager_state \<Rightarrow> manager_state \<Rightarrow> bool" for enc where
  message: "manager_message enc env s = Inr (Continue, out, s') \<Longrightarrow> sys_step enc s s'"
| call: "thread_calls (cfg_atype (mg_cfg s)) r \<Longrightarrow> record_call r s = Inr s' \<Longrightarrow> sys_step enc s s'"

inductive reachable :: "(dbl \<Rightarrow> byte list) \<Rightarrow> agent_config \<Rightarrow> manager_state \<Rightarrow> bool" for enc cfg where
  start: "register_threads js initial_stats = Inr st \<Longrightarrow> length js = nat (cfg_thread_count cfg) \<Longrightarrow>
    \<forall>j \<in> set js. length (lt_samples j) = MAX_PER_THREAD_SAMPLES \<Longrightarrow> reachable enc cfg (initial_manager junk cfg st)"
| step: "reachable enc cfg s \<Longrightarrow> sys_step enc s s' \<Longrightarrow> reachable enc cfg s'"

inductive_cases sys_stepE: "sys_step enc s s'"

subsection \<open>What the messages change\<close>

lemma set_load_keeps:
  "set_load load cfg = Inr cfg' \<Longrightarrow> cfg_atype cfg' = cfg_atype cfg \<and> cfg_thread_count cfg' = cfg_thread_count cfg"
  by (auto simp: set_load_def set_reference_load_def c_result_simps Let_def)

lemma check_ia_keeps: "check_ia st = Inr (r, st') \<Longrightarrow> \<exists>ref. st' = st\<lparr>reference_ia := ref\<rparr>"
  by (auto simp: check_ia_def c_result_simps Let_def split: if_splits prod.splits)

lemma set_per_thread_keeps:
  "set_per_thread_samples k r st = Inr st' \<Longrightarrow>
   0 < k \<and> k \<le> int MAX_PER_THREAD_SAMPLES \<and> st' = st\<lparr>per_thread_samples := k, sampling_rate := r / Fin 100\<rparr>"
  by (auto simp: set_per_thread_samples_def c_result_simps)

lemma report_keeps:
  "reply_throughput_stats env s = Inr (out, s') \<or> reply_latency_stats enc env s = Inr (out, s') \<Longrightarrow>
   mg_cfg s' = mg_cfg s \<and> (\<exists>ref. mg_stats s' = (mg_stats s)\<lparr>reference_ia := ref\<rparr>)"
proof -
  have same: "\<exists>ref. st = st\<lparr>reference_ia := ref\<rparr>" for st :: stats_state
    by (rule exI [of _ "reference_ia st"]) simp
  assume "reply_throughput_stats env s = Inr (out, s') \<or> reply_latency_stats enc env s = Inr (out, s')"
  then show ?thesis
    using same [of "mg_stats s"]
    by (auto simp: reply_throughput_stats_def reply_latency_stats_def c_result_simps Let_def
        split: if_splits prod.splits dest: check_ia_keeps)
qed

text \<open>
  A message that the manager survives leaves the threads' statistics alone, or clears them and possibly
  sets the number of samples.
\<close>

datatype effect = Keeps | Clears | Configures int

fun has_effect :: "effect \<Rightarrow> agent_type \<Rightarrow> stats_state \<Rightarrow> stats_state \<Rightarrow> bool" where
  "has_effect Keeps atype st st' = (\<exists>ref. st' = st\<lparr>reference_ia := ref\<rparr>)"
| "has_effect Clears atype st st' = (st' = clear_all_stats atype st)"
| "has_effect (Configures k) atype st st' =
     (0 < k \<and> k \<le> int MAX_PER_THREAD_SAMPLES \<and>
      (\<exists>r ref. st' = (clear_all_stats atype st)\<lparr>per_thread_samples := k, sampling_rate := r, reference_ia := ref\<rparr>))"

lemma start_load_effect:
  assumes "on_start_load env s = Inr (Continue, out, s')"
  shows "cfg_atype (mg_cfg s') = cfg_atype (mg_cfg s) \<and> cfg_thread_count (mg_cfg s') = cfg_thread_count (mg_cfg s)
    \<and> has_effect Clears (cfg_atype (mg_cfg s)) (mg_stats s) (mg_stats s')"
  using assms by (auto simp: on_start_load_def c_result_simps Let_def dest: set_load_keeps)

lemma start_measure_effect:
  assumes "on_start_measure env s = Inr (Continue, out, s')"
  shows "mg_cfg s' = mg_cfg s \<and> (\<exists>k. has_effect (Configures k) (cfg_atype (mg_cfg s)) (mg_stats s) (mg_stats s'))"
proof -
  obtain k r ref st1 where st1: "set_per_thread_samples k r (clear_all_stats (cfg_atype (mg_cfg s)) (mg_stats s)) = Inr st1"
    and s': "mg_cfg s' = mg_cfg s" "mg_stats s' = st1\<lparr>reference_ia := ref\<rparr>"
    using assms by (auto simp: on_start_measure_def c_result_simps Let_def collect_reference_ia_def)
  from set_per_thread_keeps [OF st1] have "has_effect (Configures k) (cfg_atype (mg_cfg s)) (mg_stats s) (mg_stats s')"
    unfolding s' has_effect.simps by (intro conjI exI [of _ "r / Fin 100"] exI [of _ ref]) auto
  with s' show ?thesis by blast
qed

lemma report_effect:
  assumes "on_report_req enc env s = Inr (Continue, out, s')"
  shows "mg_cfg s' = mg_cfg s \<and> has_effect Keeps (cfg_atype (mg_cfg s)) (mg_stats s) (mg_stats s')"
proof -
  let ?s1 = "if agents_should_measure s then s\<lparr>agents_should_measure := False, stop_measure_time := me_time env\<rparr> else s"
  obtain s2 where "reply_throughput_stats env ?s1 = Inr (out, s2) \<or> reply_latency_stats enc env ?s1 = Inr (out, s2)"
    and s': "mg_cfg s' = mg_cfg s2" "mg_stats s' = mg_stats s2"
    using assms unfolding on_report_req_def Let_def c_bind_eq_Inr
    by (elim exE conjE, simp split: if_split_asm) (fastforce simp: c_result_simps split: prod.splits)+
  from report_keeps [OF this(1)] show ?thesis by (auto simp: s')
qed

lemma message_effect:
  assumes "manager_message enc env s = Inr (Continue, out, s')"
  shows "cfg_atype (mg_cfg s') = cfg_atype (mg_cfg s) \<and> cfg_thread_count (mg_cfg s') = cfg_thread_count (mg_cfg s)
    \<and> (\<exists>e. has_effect e (cfg_atype (mg_cfg s)) (mg_stats s) (mg_stats s'))"
  using assms
  by (auto simp: manager_message_def c_result_simps Let_def split: if_splits
      dest!: start_load_effect start_measure_effect report_effect)

subsection \<open>The invariant\<close>

definition sys_inv :: "agent_config \<Rightarrow> manager_state \<Rightarrow> bool" where
  "sys_inv cfg s \<longleftrightarrow> cfg_atype (mg_cfg s) = cfg_atype cfg \<and> cfg_thread_count (mg_cfg s) = cfg_thread_count cfg
     \<and> stats_wf (mg_stats s) \<and> length (all_stats (mg_stats s)) = nat (cfg_thread_count cfg)
     \<and> 0 \<le> per_thread_samples (mg_stats s) \<and> per_thread_samples (mg_stats s) \<le> int MAX_PER_THREAD_SAMPLES
     \<and> (0 < per_thread_samples (mg_stats s) \<and> cfg_atype cfg \<in> {LATENCY_AGENT, SYMMETRIC_NIC_TIMESTAMP_AGENT, SYMMETRIC_AGENT}
        \<longrightarrow> (\<forall>ts \<in> set (all_stats (mg_stats s)). lat_wf (word_of_int (per_thread_samples (mg_stats s))) ts))"

lemma effect_inv:
  assumes "has_effect e (cfg_atype cfg) (mg_stats s) (mg_stats s')" and "sys_inv cfg s"
    and "cfg_atype (mg_cfg s') = cfg_atype cfg" and "cfg_thread_count (mg_cfg s') = cfg_thread_count cfg"
  shows "sys_inv cfg s'"
proof -
  have len: "\<forall>ts \<in> set (all_stats (mg_stats s)). length (lt_samples ts) = MAX_PER_THREAD_SAMPLES"
    and wf: "stats_wf (clear_all_stats (cfg_atype cfg) (mg_stats s))"
    using assms(2) by (auto simp: sys_inv_def stats_wf_def clear_all_stats_def tx_wf_def)
  have cleared: "\<forall>ts \<in> set (all_stats (clear_all_stats (cfg_atype cfg) (mg_stats s))). lat_wf (word_of_int k) ts"
    if "0 < k" "k \<le> int MAX_PER_THREAD_SAMPLES" "cfg_atype cfg \<in> {LATENCY_AGENT, SYMMETRIC_NIC_TIMESTAMP_AGENT, SYMMETRIC_AGENT}" for k
    using lat_wf_cleared(1) [OF that(3,1,2)] len by (simp add: clear_all_stats_def)
  show ?thesis
    using assms wf cleared by (cases e) (auto simp: sys_inv_def clear_all_stats_def stats_wf_def)
qed

lemma register_ok:
  "register_threads js st = Inr st' \<Longrightarrow> stats_wf st \<Longrightarrow> \<forall>j \<in> set js. length (lt_samples j) = MAX_PER_THREAD_SAMPLES \<Longrightarrow>
   stats_wf st' \<and> length (all_stats st') = length (all_stats st) + length js \<and> per_thread_samples st' = per_thread_samples st"
proof (induction js arbitrary: st)
  case (Cons j js)
  then obtain st1 where st1: "init_per_thread_stats j st = Inr st1" "register_threads js st1 = Inr st'"
    by (auto simp: c_result_simps)
  then have "length (all_stats st1) = Suc (length (all_stats st))" "per_thread_samples st1 = per_thread_samples st"
    by (auto simp: init_per_thread_stats_def c_result_simps Let_def)
  with Cons st1 stats_wf_init [OF Cons.prems(2) _ st1(1)] show ?case by auto
qed simp

text \<open>A thread's call changes one thread's element only, and by a step that keeps it well formed.\<close>

lemma on_thread_inv:
  assumes "on_thread i f s = Inr s'" and "sys_inv cfg s"
    and "\<And>ts ts'. f ts = Inr ts' \<Longrightarrow> length (lt_samples ts') = length (lt_samples ts)
      \<and> (lat_wf (word_of_int (per_thread_samples (mg_stats s))) ts \<longrightarrow> lat_wf (word_of_int (per_thread_samples (mg_stats s))) ts')"
  shows "sys_inv cfg s'"
proof -
  obtain ts ts' where i: "i < length (all_stats (mg_stats s))" and ts: "ts = all_stats (mg_stats s) ! i" "f ts = Inr ts'"
    and s': "s' = s\<lparr>mg_stats := (mg_stats s)\<lparr>all_stats := (all_stats (mg_stats s))[i := ts']\<rparr>\<rparr>"
    using assms(1) by (auto simp: on_thread_def c_result_simps)
  note keep = assms(3) [OF ts(2)]
  have "ts \<in> set (all_stats (mg_stats s))" using i ts(1) by simp
  then show ?thesis
    using assms(2) keep set_update_subset_insert [of "all_stats (mg_stats s)" i ts']
    by (auto simp: s' sys_inv_def stats_wf_def)
qed

lemma record_call_inv:
  assumes "record_call r s = Inr s'" and "sys_inv cfg s"
  shows "sys_inv cfg s'"
proof (cases r)
  case (Stamp i t)
  then obtain txs where i: "i < length (all_tx (mg_stats s))" and txs: "txs = all_tx (mg_stats s) ! i"
    and s': "s' = s\<lparr>mg_stats := (mg_stats s)\<lparr>all_tx := (all_tx (mg_stats s))[i := add_tx_timestamp (agents_should_measure s) t txs]\<rparr>\<rparr>"
    using assms(1) by (auto simp: c_result_simps)
  have "txs \<in> set (all_tx (mg_stats s))" using i txs by simp
  then show ?thesis
    using assms(2) set_update_subset_insert [of "all_tx (mg_stats s)" i "add_tx_timestamp (agents_should_measure s) t txs"]
    by (auto simp: s' sys_inv_def stats_wf_def tx_wf_def add_tx_timestamp_def tx_push_def)
next
  case (Sample i rnd diff tx)
  show ?thesis
  proof (rule on_thread_inv [OF _ assms(2)])
    show "on_thread i (add_latency_sample (agents_should_measure s) rnd (mg_stats s) diff tx) s = Inr s'"
      using assms(1) Sample by simp
  qed (auto simp: add_latency_sample_def Let_def lat_store_fields lat_wf_store split: if_splits)
next
  case (Count_tx i p)
  show ?thesis
    by (rule on_thread_inv [OF _ assms(2)]) (use assms(1) Count_tx in
      \<open>auto simp: add_throughput_tx_sample_def lat_wf_def\<close>)
next
  case (Count_rx i p)
  show ?thesis
    by (rule on_thread_inv [OF _ assms(2)]) (use assms(1) Count_rx in
      \<open>auto simp: add_throughput_rx_sample_def lat_wf_def\<close>)
qed

lemma sys_step_inv: "sys_step enc s s' \<Longrightarrow> sys_inv cfg s \<Longrightarrow> sys_inv cfg s'"
proof (erule sys_stepE)
  fix env out
  assume msg: "manager_message enc env s = Inr (Continue, out, s')" and inv: "sys_inv cfg s"
  from inv have cfg: "cfg_atype (mg_cfg s) = cfg_atype cfg" "cfg_thread_count (mg_cfg s) = cfg_thread_count cfg"
    by (simp_all add: sys_inv_def)
  with message_effect [OF msg] obtain e where "has_effect e (cfg_atype cfg) (mg_stats s) (mg_stats s')"
    "cfg_atype (mg_cfg s') = cfg_atype cfg" "cfg_thread_count (mg_cfg s') = cfg_thread_count cfg" by auto
  then show "sys_inv cfg s'" by (intro effect_inv [OF _ inv])
qed (rule record_call_inv)

lemma reachable_inv: "reachable enc cfg s \<Longrightarrow> sys_inv cfg s"
proof (induction rule: reachable.induct)
  case (start js st junk)
  have "stats_wf initial_stats" by (simp add: stats_wf_def initial_stats_def)
  from register_ok [OF start(1) this start(3)] start(2) show ?case
    by (simp add: sys_inv_def initial_manager_def) (simp add: initial_stats_def)
qed (rule sys_step_inv)

subsection \<open>Every interleaving is safe\<close>

lemma sum_list_bounded: "\<forall>x \<in> set xs. f x \<le> (m :: nat) \<Longrightarrow> (\<Sum>x\<leftarrow>xs. f x) \<le> length xs * m"
  by (induction xs) auto

lemma sys_inv_sizes:
  assumes "sys_inv cfg s" and "0 < per_thread_samples (mg_stats s)"
    and "cfg_atype cfg \<in> {LATENCY_AGENT, SYMMETRIC_NIC_TIMESTAMP_AGENT, SYMMETRIC_AGENT}"
  shows "\<forall>ts \<in> set (all_stats (mg_stats s)). unat (lt_size ts) \<le> nat (per_thread_samples (mg_stats s))
      \<and> unat (lt_size ts) \<le> length (lt_samples ts)"
    and "length (all_samples (mg_stats s)) \<le> nat (cfg_thread_count cfg) * nat (per_thread_samples (mg_stats s))"
proof -
  let ?k = "per_thread_samples (mg_stats s)"
  have k: "unat (word_of_int ?k :: u32) = nat ?k" using assms(1,2) by (intro u32_of_samples) (simp_all add: sys_inv_def)
  have "lat_wf (word_of_int ?k) ts" if "ts \<in> set (all_stats (mg_stats s))" for ts
    using assms that by (auto simp: sys_inv_def)
  then show sizes: "\<forall>ts \<in> set (all_stats (mg_stats s)). unat (lt_size ts) \<le> nat ?k \<and> unat (lt_size ts) \<le> length (lt_samples ts)"
    using k lat_wf_size_le by fastforce
  have "length (all_samples (mg_stats s)) = (\<Sum>ts\<leftarrow>all_stats (mg_stats s). unat (lt_size ts))"
    using sizes by (intro length_all_samples) blast
  also have "\<dots> \<le> length (all_stats (mg_stats s)) * nat ?k"
    using sizes by (intro sum_list_bounded) blast
  finally show "length (all_samples (mg_stats s)) \<le> nat (cfg_thread_count cfg) * nat ?k"
    using assms(1) by (simp add: sys_inv_def)
qed

lemma record_call_ok:
  assumes "sys_inv cfg s" and "0 < per_thread_samples (mg_stats s)"
    and "cfg_atype cfg \<in> {LATENCY_AGENT, SYMMETRIC_NIC_TIMESTAMP_AGENT, SYMMETRIC_AGENT}" and "thread_of r < nat (cfg_thread_count cfg)"
  shows "\<exists>s'. record_call r s = Inr s' \<and> sys_inv cfg s'"
proof -
  have i: "thread_of r < length (all_stats (mg_stats s))" "thread_of r < length (all_tx (mg_stats s))"
    using assms(1,4) by (simp_all add: sys_inv_def stats_wf_def)
  have wf: "lat_wf (word_of_int (per_thread_samples (mg_stats s))) (all_stats (mg_stats s) ! thread_of r)"
    using assms(1-3) nth_mem [OF i(1)] unfolding sys_inv_def by blast
  have "\<exists>s'. record_call r s = Inr s'"
    using i add_latency_sample_wf [OF wf] by (cases r) (auto simp: on_thread_def)
  then show ?thesis using record_call_inv [OF _ assms(1)] by blast
qed

text \<open>
  C7. Once a measurement has been configured, no interleaving of threads and messages makes a recording
  call fail: in every reachable state the statistics are well formed, every thread can record a
  latency, a transmit time and a count, and if the threads' logs fit the shared buffer together,
  their aggregation succeeds.
\<close>

theorem recording_never_fails:
  assumes "reachable enc cfg s" and "0 < per_thread_samples (mg_stats s)"
    and "cfg_atype cfg \<in> {LATENCY_AGENT, SYMMETRIC_NIC_TIMESTAMP_AGENT, SYMMETRIC_AGENT}" and "thread_of r < nat (cfg_thread_count cfg)"
  shows "(\<exists>s'. record_call r s = Inr s' \<and> stats_wf (mg_stats s'))
    \<and> (nat (cfg_thread_count cfg) * nat (per_thread_samples (mg_stats s)) \<le> AGG_SAMPLE_SIZE \<longrightarrow>
         (\<exists>agg. aggregate_latency_samples (cfg_atype cfg) (mg_stats s) (agg_stats s) = Inr agg))"
proof (intro conjI impI)
  have inv: "sys_inv cfg s" by (rule reachable_inv [OF assms(1)])
  from record_call_ok [OF this assms(2-4)] show "\<exists>s'. record_call r s = Inr s' \<and> stats_wf (mg_stats s')"
    by (auto simp: sys_inv_def)
  assume "nat (cfg_thread_count cfg) * nat (per_thread_samples (mg_stats s)) \<le> AGG_SAMPLE_SIZE"
  with sys_inv_sizes [OF inv assms(2,3)] have "length (all_samples (mg_stats s)) \<le> AGG_SAMPLE_SIZE"
    "\<forall>ts \<in> set (all_stats (mg_stats s)). unat (lt_size ts) \<le> length (lt_samples ts)" by auto
  moreover have "cfg_atype cfg \<noteq> AGENT_NR" using assms(3) by auto
  ultimately show "\<exists>agg. aggregate_latency_samples (cfg_atype cfg) (mg_stats s) (agg_stats s) = Inr agg"
    using aggregate_latency_ok by blast
qed

definition ex_cfg_one :: agent_config where
  "ex_cfg_one = ex_cfg_mg\<lparr>cfg_thread_count := 1\<rparr>"

definition ex_junk :: latency_stats where
  "ex_junk = (zero_lat (replicate MAX_PER_THREAD_SAMPLES zero_sample))\<lparr>lt_count := 99, lt_size := 77\<rparr>"

text \<open>One thread registers, then the coordinator starts a measurement of 1000 samples.\<close>

lemma ex_started:
  "\<exists>s out s1. reachable (\<lambda>_. []) ex_cfg_one s \<and> mg_cfg s = ex_cfg_one \<and> requested_per_thread 1000 ex_cfg_one = 1010
     \<and> manager_message (\<lambda>_. []) (ex_msg START_MEASURE 1000 7) s = Inr (Continue, out, s1)
     \<and> reachable (\<lambda>_. []) ex_cfg_one s1 \<and> per_thread_samples (mg_stats s1) = 1010"
proof -
  obtain st where st: "register_threads [ex_junk] initial_stats = Inr st"
    by (simp add: init_per_thread_stats_def initial_stats_def)
  let ?s = "initial_manager ex_junk ex_cfg_one st" and ?env = "ex_msg START_MEASURE 1000 7"
  have start: "reachable (\<lambda>_. []) ex_cfg_one ?s"
    by (rule reachable.start [OF st]) (simp_all add: ex_cfg_one_def ex_junk_def zero_lat_def)
  have "\<lfloor>2021 / 2 :: real\<rfloor> = 1010" by simp
  then have req: "requested_per_thread 1000 ex_cfg_one = 1010"
    by (simp add: requested_per_thread_def round_half_away_def ex_cfg_one_def)
  have cfg: "mg_cfg ?s = ex_cfg_one" "cfg_reference_ia_gen ex_cfg_one = Some (Fixed_gen (Fin 5))" "0 < cfg_thread_count ex_cfg_one"
    by (simp_all add: initial_manager_def ex_cfg_one_def ex_cfg_mg_def)
  moreover have "draws_ok (Fixed_gen (Fin 5)) (reference_draws ?env)"
    by (rule fixed_draws_ok) simp
  moreover have "me_sampling ?env = (8, [0, 0, 0, 0, 0, 0, 89, 64])" by (simp add: ex_msg_def)
  ultimately obtain out s' where "manager_message (\<lambda>_. []) ?env ?s = Inr (Continue, out, s')" "per_thread_samples (mg_stats s') = 1010"
    using start_measure_ok [of ?env 1000 "[0, 0, 0, 0, 0, 0, 89, 64]" ?s "Fixed_gen (Fin 5)" "\<lambda>_. []"] req
    by (auto simp: MAX_PER_THREAD_SAMPLES_def)
  with reachable.step [OF start sys_step.message] cfg(1) start req show ?thesis by blast
qed

theorem recording_never_fails_witness:
  "\<exists>s s'. per_thread_samples (mg_stats s) = 1010 \<and> record_call (Sample 0 (Fin (1/2)) 250 None) s = Inr s'
     \<and> stats_wf (mg_stats s')"
proof -
  obtain s where "reachable (\<lambda>_. []) ex_cfg_one s" "per_thread_samples (mg_stats s) = 1010"
    using ex_started by blast
  with recording_never_fails [OF this(1), of "Sample 0 (Fin (1/2)) 250 None"] show ?thesis
    by (auto simp: ex_cfg_one_def ex_cfg_mg_def)
qed

end
