(* ===== verification/Measurement.thy ===== *)
theory Measurement
  imports System
begin

text \<open>
  A whole measurement, from \<open>START_MEASURE\<close> over any interleaving of the threads' recording calls to the
  report: the counters add up to everything that was counted, and the latency report describes exactly
  the latencies that were accepted.
\<close>

subsection \<open>What was recorded\<close>

fun rx_counts :: "recording list \<Rightarrow> byte_req_pair list" where
  "rx_counts [] = []"
| "rx_counts (Count_rx i p # rs) = p # rx_counts rs"
| "rx_counts (_ # rs) = rx_counts rs"

fun tx_counts :: "recording list \<Rightarrow> byte_req_pair list" where
  "tx_counts [] = []"
| "tx_counts (Count_tx i p # rs) = p # tx_counts rs"
| "tx_counts (_ # rs) = tx_counts rs"

text \<open>The accepted latencies, of all threads and of one thread, at a sampling rate.\<close>

fun latencies :: "dbl \<Rightarrow> recording list \<Rightarrow> u64 list" where
  "latencies rate [] = []"
| "latencies rate (Sample i rnd diff tx # rs) =
     (if rate < rnd then latencies rate rs else word_of_int diff # latencies rate rs)"
| "latencies rate (_ # rs) = latencies rate rs"

fun thread_samples :: "dbl \<Rightarrow> nat \<Rightarrow> recording list \<Rightarrow> nat" where
  "thread_samples rate j [] = 0"
| "thread_samples rate j (Sample i rnd diff tx # rs) =
     (if i = j \<and> \<not> rate < rnd then Suc (thread_samples rate j rs) else thread_samples rate j rs)"
| "thread_samples rate j (_ # rs) = thread_samples rate j rs"

subsection \<open>Updating one element of a sum\<close>

lemma sum_list_update_group:
  "i < length xs \<Longrightarrow> (\<Sum>x\<leftarrow>xs[i := y]. f x) + f (xs ! i) = (\<Sum>x\<leftarrow>xs. f x) + (f y :: 'a :: comm_monoid_add)"
proof (induction xs arbitrary: i)
  case (Cons x xs)
  then show ?case by (cases i) (auto simp: ac_simps)
qed simp

lemma mset_concat_map: "mset (concat (map f xs)) = (\<Sum>x\<leftarrow>xs. mset (f x))"
  by (induction xs) simp_all

subsection \<open>Counters\<close>

definition rx_total :: "(byte_req_pair \<Rightarrow> u64) \<Rightarrow> manager_state \<Rightarrow> u64" where
  "rx_total f s = (\<Sum>t\<leftarrow>all_stats (mg_stats s). f (th_rx (lt_th t)))"

definition tx_total :: "(byte_req_pair \<Rightarrow> u64) \<Rightarrow> manager_state \<Rightarrow> u64" where
  "tx_total f s = (\<Sum>t\<leftarrow>all_stats (mg_stats s). f (th_tx (lt_th t)))"

definition additive :: "(byte_req_pair \<Rightarrow> u64) \<Rightarrow> bool" where
  "additive f \<longleftrightarrow> (\<forall>p q. f (add_pair p q) = f p + f q)"

lemma additive_fields: "additive br_bytes" "additive br_reqs"
  by (simp_all add: additive_def)

text \<open>One call adds what it counts to the totals, and leaves the configuration alone.\<close>

lemma record_call_totals:
  assumes "record_call r s = Inr s'" and "agents_should_measure s" and "additive f"
  shows "rx_total f s' = rx_total f s + (\<Sum>p\<leftarrow>rx_counts [r]. f p) \<and> tx_total f s' = tx_total f s + (\<Sum>p\<leftarrow>tx_counts [r]. f p)"
proof -
  have on: "rx_total f s' + f (th_rx (lt_th (all_stats (mg_stats s) ! i))) = rx_total f s + f (th_rx (lt_th ts'))
      \<and> tx_total f s' + f (th_tx (lt_th (all_stats (mg_stats s) ! i))) = tx_total f s + f (th_tx (lt_th ts'))"
    if "on_thread i g s = Inr s'" "g (all_stats (mg_stats s) ! i) = Inr ts'" for i g ts'
  proof -
    have i: "i < length (all_stats (mg_stats s))" and "all_stats (mg_stats s') = (all_stats (mg_stats s))[i := ts']"
      using that by (auto simp: on_thread_def c_result_simps)
    then show ?thesis
      using sum_list_update_group [OF i, of "\<lambda>t. f (th_rx (lt_th t))" ts'] sum_list_update_group [OF i, of "\<lambda>t. f (th_tx (lt_th t))" ts']
      by (simp add: rx_total_def tx_total_def)
  qed
  show ?thesis
  proof (cases r)
    case (Count_tx i p)
    with on [of i "\<lambda>ts. Inr (add_throughput_tx_sample True p ts)"] assms show ?thesis
      by (simp add: add_throughput_tx_sample_def additive_def)
  next
    case (Count_rx i p)
    with on [of i "\<lambda>ts. Inr (add_throughput_rx_sample True p ts)"] assms show ?thesis
      by (simp add: add_throughput_rx_sample_def additive_def)
  next
    case (Stamp i t)
    then have "all_stats (mg_stats s') = all_stats (mg_stats s)" using assms(1) by (auto simp: c_result_simps)
    with Stamp show ?thesis by (simp add: rx_total_def tx_total_def)
  next
    case (Sample i rnd diff tx)
    then obtain ts' where ts': "add_latency_sample True rnd (mg_stats s) diff tx (all_stats (mg_stats s) ! i) = Inr ts'"
      using assms(1,2) by (auto simp: on_thread_def c_result_simps)
    then have "lt_th ts' = lt_th (all_stats (mg_stats s) ! i)"
      by (auto simp: add_latency_sample_def Let_def lat_store_fields split: if_splits)
    with on [of i "add_latency_sample True rnd (mg_stats s) diff tx", OF _ ts'] Sample assms(1,2) show ?thesis by simp
  qed
qed

lemma record_call_keeps:
  assumes "record_call r s = Inr s'"
  shows "\<exists>st. s' = s\<lparr>mg_stats := st\<rparr> \<and> per_thread_samples st = per_thread_samples (mg_stats s)
    \<and> sampling_rate st = sampling_rate (mg_stats s) \<and> length (all_stats st) = length (all_stats (mg_stats s))"
  using assms by (cases r) (auto simp: on_thread_def c_result_simps)

lemma record_calls_totals:
  assumes "record_calls rs s = Inr s'" and "agents_should_measure s" and "additive f"
  shows "rx_total f s' = rx_total f s + (\<Sum>p\<leftarrow>rx_counts rs. f p) \<and> tx_total f s' = tx_total f s + (\<Sum>p\<leftarrow>tx_counts rs. f p)"
  using assms(1,2)
proof (induction rs arbitrary: s)
  case (Cons r rs)
  then obtain s1 where s1: "record_call r s = Inr s1" "record_calls rs s1 = Inr s'" by (auto simp: c_result_simps)
  have "agents_should_measure s1" using record_call_keeps [OF s1(1)] Cons.prems(2) by auto
  with Cons.IH [OF s1(2)] record_call_totals [OF s1(1) Cons.prems(2) assms(3)] show ?case
    by (cases r) (simp_all add: ac_simps)
qed simp

lemma record_calls_keeps:
  "record_calls rs s = Inr s' \<Longrightarrow> \<exists>st. s' = s\<lparr>mg_stats := st\<rparr> \<and> per_thread_samples st = per_thread_samples (mg_stats s)
    \<and> sampling_rate st = sampling_rate (mg_stats s) \<and> length (all_stats st) = length (all_stats (mg_stats s))"
proof (induction rs arbitrary: s)
  case (Cons r rs)
  then obtain s1 where s1: "record_call r s = Inr s1" "record_calls rs s1 = Inr s'" by (auto simp: c_result_simps)
  from record_call_keeps [OF s1(1)] Cons.IH [OF s1(2)] show ?case by auto
next
  case Nil
  then show ?case by (intro exI [of _ "mg_stats s"]) simp
qed

text \<open>The state after \<open>START_MEASURE\<close>.\<close>

lemma start_measure_cleared:
  assumes "delivers env START_MEASURE n" and "me_sampling env = (8, d)" and "length d = 8"
    and "0 < cfg_thread_count (mg_cfg s)" and "manager_message enc env s = Inr (Continue, out, s1)"
  shows "\<exists>ref. s1 = s\<lparr>mg_stats := (clear_all_stats (cfg_atype (mg_cfg s)) (mg_stats s))
        \<lparr>per_thread_samples := requested_per_thread n (mg_cfg s), sampling_rate := double_of_bytes d / Fin 100, reference_ia := ref\<rparr>,
      start_measure_time := me_time env, agents_should_measure := True\<rparr>"
    and "0 < requested_per_thread n (mg_cfg s) \<and> requested_per_thread n (mg_cfg s) \<le> int MAX_PER_THREAD_SAMPLES"
proof -
  have read: "read_exactly 4 (me_payload env) = Inr (u32_bytes n)" "read_exactly 8 (me_sampling env) = Inr d"
    "bytes_u32 (u32_bytes n) = n"
    using assms(1-3) read_exactly_all [of d 8] by (simp_all add: delivers_def bytes_roundtrip)
  let ?st = "clear_all_stats (cfg_atype (mg_cfg s)) (mg_stats s)"
  have "\<exists>st1 ref. c_bind (samples_per_thread n (mg_cfg s)) (\<lambda>k. set_per_thread_samples k (double_of_bytes d) ?st) = Inr st1
      \<and> s1 = s\<lparr>mg_stats := st1\<lparr>reference_ia := ref\<rparr>, start_measure_time := me_time env, agents_should_measure := True\<rparr>"
    using assms(5) unfolding manager_message_delivers [OF assms(1)] on_start_measure_def
    by (auto simp: read Let_def c_result_simps collect_reference_ia_def)
  then show "\<exists>ref. s1 = s\<lparr>mg_stats := ?st
        \<lparr>per_thread_samples := requested_per_thread n (mg_cfg s), sampling_rate := double_of_bytes d / Fin 100, reference_ia := ref\<rparr>,
      start_measure_time := me_time env, agents_should_measure := True\<rparr>"
    and "0 < requested_per_thread n (mg_cfg s) \<and> requested_per_thread n (mg_cfg s) \<le> int MAX_PER_THREAD_SAMPLES"
    unfolding set_requested [OF assms(4)] by (auto split: if_splits)
qed

lemma sum_list_zeros: "(\<And>x. x \<in> set xs \<Longrightarrow> f x = 0) \<Longrightarrow> (\<Sum>x\<leftarrow>xs. f x) = (0 :: 'a :: comm_monoid_add)"
  by (induction xs) simp_all

lemma cleared_totals:
  assumes "mg_stats s1 = (clear_all_stats atype st)\<lparr>per_thread_samples := k, sampling_rate := r, reference_ia := ref\<rparr>"
    and "atype \<noteq> AGENT_NR" and "f zero_pair = 0"
  shows "rx_total f s1 = 0" and "tx_total f s1 = 0"
proof -
  have "lt_th t = zero_th" if "t \<in> set (all_stats (mg_stats s1))" for t
    using that assms(1) lt_th_clear [OF assms(2)] by (auto simp: clear_all_stats_def)
  then show "rx_total f s1 = 0" "tx_total f s1 = 0"
    unfolding rx_total_def tx_total_def by (rule_tac sum_list_zeros; simp add: zero_th_def assms(3))+
qed

subsection \<open>Latencies\<close>

text \<open>The latencies of a thread's valid samples, and how storing one more extends them while there is room.\<close>

definition logged :: "latency_stats \<Rightarrow> u64 list" where
  "logged ts = map ls_nsec (valid_samples ts)"

lemma logged_store:
  assumes "lat_wf n ts" and "unat (lt_count ts) < unat n"
  shows "logged (lat_store n ts (diff, tx)) = logged ts @ [word_of_int diff]"
    and "unat (lt_count (lat_store n ts (diff, tx))) = unat (lt_count ts) + 1"
proof -
  let ?c = "unat (lt_count ts)"
  have c: "lt_count ts < n" using assms(2) by (simp add: word_less_nat_alt)
  then have Suc: "unat (lt_count ts + 1) = ?c + 1" by (rule unat_Suc_less)
  then show "unat (lt_count (lat_store n ts (diff, tx))) = ?c + 1" by (simp add: lat_store_fields)
  have "lt_count ts + 1 \<le> n" using Suc assms(2) by (simp add: word_le_nat_alt)
  then have size: "unat (lt_size (lat_store n ts (diff, tx))) = ?c + 1"
    using Suc by (simp add: lat_store_fields min_def)
  have old: "unat (lt_size ts) = ?c" using assms(1) less_imp_le [OF c] by (simp add: lat_wf_def min_absorb2)
  have len: "?c < length (lt_samples ts)" using assms by (simp add: lat_wf_def)
  have "unat (lt_count ts) mod unat n = ?c" using assms(2) by simp
  moreover have "unat n \<le> length (lt_samples ts)" "0 < n" using assms(1) by (simp_all add: lat_wf_def)
  ultimately have "map ls_nsec (lt_samples (lat_store n ts (diff, tx))) = (map ls_nsec (lt_samples ts))[?c := word_of_int diff]"
    by (simp add: lat_store_nsec)
  then have "logged (lat_store n ts (diff, tx)) = take (?c + 1) ((map ls_nsec (lt_samples ts))[?c := word_of_int diff])"
    unfolding logged_def valid_samples_def size by (simp flip: take_map)
  also have "\<dots> = take ?c (map ls_nsec (lt_samples ts)) @ [word_of_int diff]"
    using len by (simp add: take_Suc_conv_app_nth [of _ "(map ls_nsec (lt_samples ts))[?c := word_of_int diff]"])
  finally show "logged (lat_store n ts (diff, tx)) = logged ts @ [word_of_int diff]"
    by (simp add: logged_def valid_samples_def old take_map)
qed

definition has_log_room :: "nat \<Rightarrow> recording list \<Rightarrow> manager_state \<Rightarrow> bool" where
  "has_log_room k rs s \<longleftrightarrow> agents_should_measure s \<and> unat (word_of_int (per_thread_samples (mg_stats s)) :: u32) = k
     \<and> (\<forall>i < length (all_stats (mg_stats s)). lat_wf (word_of_int (per_thread_samples (mg_stats s))) (all_stats (mg_stats s) ! i)
          \<and> unat (lt_count (all_stats (mg_stats s) ! i)) + thread_samples (sampling_rate (mg_stats s)) i rs \<le> k)"

definition all_logged :: "manager_state \<Rightarrow> u64 multiset" where
  "all_logged s = (\<Sum>ts\<leftarrow>all_stats (mg_stats s). mset (logged ts))"

lemma on_thread_logged:
  assumes "on_thread i f s = Inr s'" and "f (all_stats (mg_stats s) ! i) = Inr ts'"
  shows "all_logged s' + mset (logged (all_stats (mg_stats s) ! i)) = all_logged s + mset (logged ts')"
proof -
  have i: "i < length (all_stats (mg_stats s))" and "all_stats (mg_stats s') = (all_stats (mg_stats s))[i := ts']"
    using assms by (auto simp: on_thread_def c_result_simps)
  then show ?thesis using sum_list_update_group [OF i, of "\<lambda>t. mset (logged t)" ts'] by (simp add: all_logged_def)
qed

text \<open>A call of thread \<open>i\<close> that turns its element into one with \<open>d\<close> more samples keeps the room for the rest.\<close>

lemma has_log_room_update:
  assumes "has_log_room k (r # rs) s" and "i < length (all_stats (mg_stats s))"
    and "lat_wf (word_of_int (per_thread_samples (mg_stats s))) ts'"
    and "unat (lt_count ts') + thread_samples (sampling_rate (mg_stats s)) i rs
      \<le> unat (lt_count (all_stats (mg_stats s) ! i)) + thread_samples (sampling_rate (mg_stats s)) i (r # rs)"
    and "\<And>j. j \<noteq> i \<Longrightarrow> thread_samples (sampling_rate (mg_stats s)) j (r # rs) = thread_samples (sampling_rate (mg_stats s)) j rs"
  shows "has_log_room k rs (s\<lparr>mg_stats := (mg_stats s)\<lparr>all_stats := (all_stats (mg_stats s))[i := ts']\<rparr>\<rparr>)"
  using assms by (fastforce simp: has_log_room_def nth_list_update)

lemma on_thread_room:
  assumes "on_thread i f s = Inr s'" and "f (all_stats (mg_stats s) ! i) = Inr ts'" and "has_log_room k (r # rs) s"
    and "lat_wf (word_of_int (per_thread_samples (mg_stats s))) ts'"
    and "unat (lt_count ts') + thread_samples (sampling_rate (mg_stats s)) i rs
      \<le> unat (lt_count (all_stats (mg_stats s) ! i)) + thread_samples (sampling_rate (mg_stats s)) i (r # rs)"
    and "\<And>j. j \<noteq> i \<Longrightarrow> thread_samples (sampling_rate (mg_stats s)) j (r # rs) = thread_samples (sampling_rate (mg_stats s)) j rs"
    and "mset (logged ts') = mset (logged (all_stats (mg_stats s) ! i)) + mset (latencies (sampling_rate (mg_stats s)) [r])"
  shows "has_log_room k rs s' \<and> all_logged s' = all_logged s + mset (latencies (sampling_rate (mg_stats s)) [r])"
proof -
  have i: "i < length (all_stats (mg_stats s))"
    and s': "s' = s\<lparr>mg_stats := (mg_stats s)\<lparr>all_stats := (all_stats (mg_stats s))[i := ts']\<rparr>\<rparr>"
    using assms(1,2) by (auto simp: on_thread_def c_result_simps)
  have "has_log_room k rs s'" unfolding s' by (rule has_log_room_update [OF assms(3) i assms(4-6)])
  moreover have "all_logged s' = all_logged s + mset (latencies (sampling_rate (mg_stats s)) [r])"
    using on_thread_logged [OF assms(1,2)] assms(7) by (simp add: ac_simps)
  ultimately show ?thesis by simp
qed

lemma record_call_logged:
  assumes "record_call r s = Inr s'" and "has_log_room k (r # rs) s"
  shows "has_log_room k rs s' \<and> all_logged s' = all_logged s + mset (latencies (sampling_rate (mg_stats s)) [r])"
proof -
  have m: "agents_should_measure s" and k: "unat (word_of_int (per_thread_samples (mg_stats s)) :: u32) = k"
    using assms(2) by (simp_all add: has_log_room_def)
  have wf: "lat_wf (word_of_int (per_thread_samples (mg_stats s))) (all_stats (mg_stats s) ! i)"
    and room: "unat (lt_count (all_stats (mg_stats s) ! i)) + thread_samples (sampling_rate (mg_stats s)) i (r # rs) \<le> k"
    if "on_thread i f s = Inr s'" for i f
    using that assms(2) by (auto simp: has_log_room_def on_thread_def c_result_simps)
  show ?thesis
  proof (cases r)
    case (Count_tx i p)
    with assms(1) m have run: "on_thread i (\<lambda>ts. Inr (add_throughput_tx_sample True p ts)) s = Inr s'" by simp
    show ?thesis
      by (rule on_thread_room [OF run refl assms(2)])
        (use wf [OF run] Count_tx in \<open>simp_all add: add_throughput_tx_sample_def lat_wf_def logged_def valid_samples_def\<close>)
  next
    case (Count_rx i p)
    with assms(1) m have run: "on_thread i (\<lambda>ts. Inr (add_throughput_rx_sample True p ts)) s = Inr s'" by simp
    show ?thesis
      by (rule on_thread_room [OF run refl assms(2)])
        (use wf [OF run] Count_rx in \<open>simp_all add: add_throughput_rx_sample_def lat_wf_def logged_def valid_samples_def\<close>)
  next
    case (Stamp i t)
    with assms show ?thesis by (auto simp: has_log_room_def all_logged_def c_result_simps)
  next
    case (Sample i rnd diff tx)
    with assms(1) m have run: "on_thread i (add_latency_sample True rnd (mg_stats s) diff tx) s = Inr s'" by simp
    let ?n = "word_of_int (per_thread_samples (mg_stats s)) :: u32" and ?ts = "all_stats (mg_stats s) ! i"
    let ?ts' = "if sampling_rate (mg_stats s) < rnd then ?ts else lat_store ?n ?ts (diff, tx)"
    have call: "add_latency_sample True rnd (mg_stats s) diff tx ?ts = Inr ?ts'"
      using add_latency_sample_wf [OF wf [OF run]] by simp
    have "unat (lt_count ?ts) < unat ?n" if "\<not> sampling_rate (mg_stats s) < rnd"
      using that room [OF run] Sample k by simp
    note store = logged_store [OF wf [OF run] this, of diff tx]
    show ?thesis
      by (rule on_thread_room [OF run call assms(2)])
        (use wf [OF run] store Sample in \<open>auto simp: lat_wf_store\<close>)
  qed
qed

lemma record_calls_logged:
  assumes "record_calls rs s = Inr s'" and "has_log_room k rs s"
  shows "all_logged s' = all_logged s + mset (latencies (sampling_rate (mg_stats s)) rs)"
    and "\<forall>ts \<in> set (all_stats (mg_stats s')). unat (lt_size ts) \<le> length (lt_samples ts)"
proof -
  have "has_log_room k [] s' \<and> all_logged s' = all_logged s + mset (latencies (sampling_rate (mg_stats s)) rs)"
    using assms
  proof (induction rs arbitrary: s)
    case (Cons r rs)
    then obtain s1 where s1: "record_call r s = Inr s1" "record_calls rs s1 = Inr s'" by (auto simp: c_result_simps)
    from record_call_logged [OF s1(1) Cons.prems(2)] Cons.IH [OF s1(2)] record_call_keeps [OF s1(1)]
    show ?case by (cases r) (auto simp: ac_simps)
  qed simp
  then show "all_logged s' = all_logged s + mset (latencies (sampling_rate (mg_stats s)) rs)"
    and "\<forall>ts \<in> set (all_stats (mg_stats s')). unat (lt_size ts) \<le> length (lt_samples ts)"
    using lat_wf_size_le(2) unfolding has_log_room_def all_set_conv_all_nth by blast+
qed

subsection \<open>Properties\<close>

text \<open>
  C6. A throughput measurement is exact: whatever the threads counted in whatever order between
  \<open>START_MEASURE\<close> and the report, the coordinator receives the sums of all of it, nothing from before,
  and the time between the two messages.
\<close>

theorem measured_throughput_is_exact:
  assumes "delivers env1 START_MEASURE n" and "me_sampling env1 = (8, d)" and "length d = 8"
    and "0 < cfg_thread_count (mg_cfg s)" and "manager_message enc env1 s = Inr (Continue, ack, s1)"
    and "record_calls rs s1 = Inr s2" and "delivers env2 REPORT_REQ REPORT_THROUGHPUT"
    and "cfg_atype (mg_cfg s) \<in> {THROUGHPUT_AGENT, LATENCY_AGENT, SYMMETRIC_AGENT}"
  shows "\<exists>out s3. manager_message enc env2 s2 = Inr (Continue, out, s3)
    \<and> parse_u64s 4 (drop 12 out) = [\<Sum>p\<leftarrow>rx_counts rs. br_bytes p, \<Sum>p\<leftarrow>tx_counts rs. br_bytes p,
        \<Sum>p\<leftarrow>rx_counts rs. br_reqs p, word_of_int (me_time env2 - me_time env1)]"
proof -
  obtain ref where s1: "s1 = s\<lparr>mg_stats := (clear_all_stats (cfg_atype (mg_cfg s)) (mg_stats s))
        \<lparr>per_thread_samples := requested_per_thread n (mg_cfg s), sampling_rate := double_of_bytes d / Fin 100, reference_ia := ref\<rparr>,
      start_measure_time := me_time env1, agents_should_measure := True\<rparr>"
    using start_measure_cleared(1) [OF assms(1-5)] by blast
  have "cfg_atype (mg_cfg s) \<noteq> AGENT_NR" using assms(8) by auto
  from cleared_totals [OF _ this, of s1] s1 have zero: "rx_total br_bytes s1 = 0" "tx_total br_bytes s1 = 0" "rx_total br_reqs s1 = 0"
    by (simp_all add: zero_pair_def)
  have m: "agents_should_measure s1" by (simp add: s1)
  obtain st where s2: "s2 = s1\<lparr>mg_stats := st\<rparr>" using record_calls_keeps [OF assms(6)] by blast
  have "measured_time env2 s2 = me_time env2 - me_time env1" by (simp add: s2 s1 measured_time_def)
  moreover have "cfg_atype (mg_cfg s2) \<in> {THROUGHPUT_AGENT, LATENCY_AGENT, SYMMETRIC_AGENT}" using assms(8) by (simp add: s2 s1)
  ultimately show ?thesis
    using throughput_report_parses [OF assms(7), of s2 enc] record_calls_totals [OF assms(6) m additive_fields(1)]
      record_calls_totals [OF assms(6) m additive_fields(2)] zero
    by (auto simp: rx_total_def tx_total_def)
qed

text \<open>After \<open>START_MEASURE\<close> the logs are empty and have room for what the threads are going to record.\<close>

lemma cleared_logs:
  assumes "sys_inv cfg s" and "cfg_atype cfg \<in> {LATENCY_AGENT, SYMMETRIC_NIC_TIMESTAMP_AGENT, SYMMETRIC_AGENT}"
    and "0 < k" and "k \<le> int MAX_PER_THREAD_SAMPLES" and "agents_should_measure s1"
    and s1: "mg_stats s1 = (clear_all_stats (cfg_atype cfg) (mg_stats s))\<lparr>per_thread_samples := k, sampling_rate := r, reference_ia := ref\<rparr>"
    and "\<forall>i. thread_samples r i rs \<le> nat k"
  shows "has_log_room (nat k) rs s1" and "all_logged s1 = {#}"
proof -
  have len: "length (lt_samples (all_stats (mg_stats s) ! i)) = MAX_PER_THREAD_SAMPLES" if "i < length (all_stats (mg_stats s))" for i
    using assms(1) that by (simp add: sys_inv_def stats_wf_def)
  have kind: "cfg_atype cfg \<in> {LATENCY_AGENT, SYMMETRIC_NIC_TIMESTAMP_AGENT, SYMMETRIC_AGENT}" by (rule assms(2))
  then show "has_log_room (nat k) rs s1"
    using assms(5,7) lat_wf_cleared [OF _ assms(3,4) len] u32_of_samples [OF assms(3,4)]
    by (auto simp: has_log_room_def s1 clear_all_stats_def)
  have "logged (clear_stats (cfg_atype cfg) t) = []" for t
    using kind by (auto simp: logged_def valid_samples_def clear_stats_def zero_lat_def)
  then show "all_logged s1 = {#}"
    by (simp add: all_logged_def s1 clear_all_stats_def sum_list_zeros)
qed

lemma sort_of_mset: "mset xs = mset ys \<Longrightarrow> sort (xs :: u64 list) = sort ys"
  by (intro properties_for_sort) simp_all

lemma measured_latencies_ok:
  assumes inv: "sys_inv cfg s" and "cfg_atype cfg \<in> {LATENCY_AGENT, SYMMETRIC_NIC_TIMESTAMP_AGENT, SYMMETRIC_AGENT}"
    and "delivers env1 START_MEASURE n" and "me_sampling env1 = (8, d)" and "length d = 8"
    and "0 < cfg_thread_count (mg_cfg s)" and "manager_message enc env1 s = Inr (Continue, ack, s1)"
    and "record_calls rs s1 = Inr s2" and "delivers env2 REPORT_REQ REPORT_LATENCY"
  defines "xs \<equiv> latencies (double_of_bytes d / Fin 100) rs"
  assumes "\<forall>i. thread_samples (double_of_bytes d / Fin 100) i rs \<le> nat (requested_per_thread n (mg_cfg s))"
    and "726 \<le> length xs" and "length xs \<le> AGG_SAMPLE_SIZE" and "close_values xs"
    and "cfg_atype cfg = SYMMETRIC_NIC_TIMESTAMP_AGENT \<longrightarrow> (\<exists>v. check_ia (mg_stats s2) = Inr v)"
  shows "\<exists>out s3 f. manager_message enc env2 s2 = Inr (Continue, out, s3) \<and> f = parse_u64s 17 (drop 12 out)
    \<and> f ! 4 = (\<Sum>x\<leftarrow>sort xs. x) div word_of_nat (length xs)
    \<and> reports_percentile (sort xs) 50 (f ! 5, f ! 6, f ! 7) \<and> reports_percentile (sort xs) 90 (f ! 8, f ! 9, f ! 10)
    \<and> reports_percentile (sort xs) 95 (f ! 11, f ! 12, f ! 13) \<and> reports_percentile (sort xs) 99 (f ! 14, f ! 15, f ! 16)
    \<and> (cfg_atype cfg = SYMMETRIC_NIC_TIMESTAMP_AGENT \<longrightarrow>
         (\<forall>v. check_ia (mg_stats s2) = Inr v \<longrightarrow> drop (length out - 4) out = u32_bytes (word_of_int (fst v))))"
proof -
  have atype: "cfg_atype (mg_cfg s) = cfg_atype cfg" using inv by (simp add: sys_inv_def)
  obtain ref where s1: "s1 = s\<lparr>mg_stats := (clear_all_stats (cfg_atype cfg) (mg_stats s))
        \<lparr>per_thread_samples := requested_per_thread n (mg_cfg s), sampling_rate := double_of_bytes d / Fin 100, reference_ia := ref\<rparr>,
      start_measure_time := me_time env1, agents_should_measure := True\<rparr>"
    using start_measure_cleared(1) [OF assms(3-7)] unfolding atype by blast
  note k = start_measure_cleared(2) [OF assms(3-7)]
  note kind = assms(2)
  have "has_log_room (nat (requested_per_thread n (mg_cfg s))) rs s1" "all_logged s1 = {#}"
    using k by (intro cleared_logs [OF inv kind _ _ _ _ assms(11)]; simp add: s1)+
  from record_calls_logged [OF assms(8) this(1)] this(2)
  have all: "all_logged s2 = mset xs" and fit: "\<forall>t \<in> set (all_stats (mg_stats s2)). unat (lt_size t) \<le> length (lt_samples t)"
    by (simp_all add: xs_def s1)
  have "map ls_nsec (all_samples (mg_stats s2)) = concat (map logged (all_stats (mg_stats s2)))"
    by (simp add: all_samples_def logged_def [abs_def] map_concat comp_def)
  then have same: "mset (map ls_nsec (all_samples (mg_stats s2))) = mset xs"
    using all by (simp only: mset_concat_map all_logged_def)
  note sorted = sort_of_mset [OF same]
  have "length (all_samples (mg_stats s2)) = length xs" "set (map ls_nsec (all_samples (mg_stats s2))) = set xs"
    using mset_eq_length [OF same] mset_eq_setD [OF same] by simp_all
  then have size: "726 \<le> length (all_samples (mg_stats s2))" "length (all_samples (mg_stats s2)) \<le> AGG_SAMPLE_SIZE"
    "close_values (map ls_nsec (all_samples (mg_stats s2)))"
    using assms(12-14) by (simp_all add: close_values_def)
  have atype2: "cfg_atype (mg_cfg s2) = cfg_atype cfg" using record_calls_keeps [OF assms(8)] atype by (auto simp: s1)
  show ?thesis
  proof (cases "cfg_atype cfg = SYMMETRIC_NIC_TIMESTAMP_AGENT")
    case True
    then obtain ok st where "check_ia (mg_stats s2) = Inr (ok, st)" using assms(15) by auto
    from nic_latency_report_parses [OF assms(9) _ fit size this, of enc] show ?thesis
      using True atype2 \<open>check_ia (mg_stats s2) = Inr (ok, st)\<close> unfolding sorted by auto
  next
    case False
    then have "cfg_atype (mg_cfg s2) \<in> {LATENCY_AGENT, SYMMETRIC_AGENT}" using kind atype2 by auto
    from latency_report_parses [OF assms(9) this fit size, of enc] show ?thesis using False unfolding sorted by auto
  qed
qed

text \<open>
  C5. A latency measurement is exact: if no thread accepted more latencies than it was asked for, the
  report the coordinator receives at the end describes exactly the latencies that all threads accepted
  since \<open>START_MEASURE\<close>, however their calls were interleaved: their average and the percentiles
  with the confidence bounds, as order statistics of the whole collection.
\<close>

theorem measured_latencies_are_exact:
  assumes "reachable enc cfg s" and "cfg_atype cfg \<in> {LATENCY_AGENT, SYMMETRIC_AGENT}"
    and "delivers env1 START_MEASURE n" and "me_sampling env1 = (8, d)" and "length d = 8"
    and "0 < cfg_thread_count (mg_cfg s)" and "manager_message enc env1 s = Inr (Continue, ack, s1)"
    and "record_calls rs s1 = Inr s2" and "delivers env2 REPORT_REQ REPORT_LATENCY"
  defines "xs \<equiv> latencies (double_of_bytes d / Fin 100) rs"
  assumes "\<forall>i. thread_samples (double_of_bytes d / Fin 100) i rs \<le> nat (requested_per_thread n (mg_cfg s))"
    and "726 \<le> length xs" and "length xs \<le> AGG_SAMPLE_SIZE" and "close_values xs"
  shows "\<exists>out s3 f. manager_message enc env2 s2 = Inr (Continue, out, s3) \<and> f = parse_u64s 17 (drop 12 out)
    \<and> f ! 4 = (\<Sum>x\<leftarrow>sort xs. x) div word_of_nat (length xs)
    \<and> reports_percentile (sort xs) 50 (f ! 5, f ! 6, f ! 7) \<and> reports_percentile (sort xs) 90 (f ! 8, f ! 9, f ! 10)
    \<and> reports_percentile (sort xs) 95 (f ! 11, f ! 12, f ! 13) \<and> reports_percentile (sort xs) 99 (f ! 14, f ! 15, f ! 16)"
  using measured_latencies_ok [OF reachable_inv [OF assms(1)] _ assms(3-9) assms(11-14) [unfolded xs_def]] assms(2)
  unfolding xs_def by auto

subsection \<open>Examples\<close>

lemma record_calls_ok:
  assumes "sys_inv cfg s" and "0 < per_thread_samples (mg_stats s)"
    and "cfg_atype cfg \<in> {LATENCY_AGENT, SYMMETRIC_NIC_TIMESTAMP_AGENT, SYMMETRIC_AGENT}"
    and "\<forall>r \<in> set rs. thread_of r < nat (cfg_thread_count cfg)"
  shows "\<exists>s'. record_calls rs s = Inr s'"
  using assms
proof (induction rs arbitrary: s)
  case (Cons r rs)
  obtain s1 where s1: "record_call r s = Inr s1" "sys_inv cfg s1"
    using record_call_ok [OF Cons.prems(1-3), of r] Cons.prems(4) by auto
  then have "0 < per_thread_samples (mg_stats s1)" using record_call_keeps Cons.prems(2) by fastforce
  with Cons.IH [OF s1(2) _ Cons.prems(3)] Cons.prems(4) s1(1) show ?case by auto
qed simp

lemma ex_measurement:
  assumes "\<forall>r \<in> set rs. thread_of r = 0"
  shows "\<exists>s out s1 s2. reachable (\<lambda>_. []) ex_cfg_one s \<and> mg_cfg s = ex_cfg_one
     \<and> manager_message (\<lambda>_. []) (ex_msg START_MEASURE 1000 7) s = Inr (Continue, out, s1) \<and> record_calls rs s1 = Inr s2"
proof -
  obtain s out s1 where s: "reachable (\<lambda>_. []) ex_cfg_one s" "mg_cfg s = ex_cfg_one"
      "manager_message (\<lambda>_. []) (ex_msg START_MEASURE 1000 7) s = Inr (Continue, out, s1)"
    and s1: "reachable (\<lambda>_. []) ex_cfg_one s1" "per_thread_samples (mg_stats s1) = 1010"
    using ex_started by blast
  have "\<exists>s2. record_calls rs s1 = Inr s2"
    by (rule record_calls_ok [OF reachable_inv [OF s1(1)]]) (use assms s1(2) in \<open>simp_all add: ex_cfg_one_def ex_cfg_mg_def\<close>)
  with s show ?thesis by blast
qed

lemma ex_msg_fields: "me_sampling (ex_msg t n now) = (8, [0, 0, 0, 0, 0, 0, 89, 64])" "me_time (ex_msg t n now) = now"
  by (simp_all add: ex_msg_def)

theorem measured_throughput_is_exact_witness:
  "\<exists>s2 out s3. manager_message (\<lambda>_. []) (ex_msg REPORT_REQ 0 12) s2 = Inr (Continue, out, s3)
     \<and> parse_u64s 4 (drop 12 out) = [48, 8, 6, 5]"
proof -
  let ?rs = "[Count_rx 0 \<lparr>br_bytes = 8, br_reqs = 1\<rparr>, Count_tx 0 \<lparr>br_bytes = 8, br_reqs = 1\<rparr>, Count_rx 0 \<lparr>br_bytes = 40, br_reqs = 5\<rparr>]"
  obtain s out s1 s2 where s: "mg_cfg s = ex_cfg_one"
      "manager_message (\<lambda>_. []) (ex_msg START_MEASURE 1000 7) s = Inr (Continue, out, s1)" "record_calls ?rs s1 = Inr s2"
    using ex_measurement [of ?rs] by auto
  from measured_throughput_is_exact [OF delivers_ex_msg ex_msg_fields(1) _ _ s(2,3), of "ex_msg REPORT_REQ 0 12"] s(1)
  show ?thesis by (auto simp: REPORT_THROUGHPUT_def ex_cfg_one_def ex_cfg_mg_def ex_msg_fields(2))
qed

lemma latencies_replicate:
  "\<not> rate < rnd \<Longrightarrow> latencies rate (replicate m (Sample i rnd diff tx)) = replicate m (word_of_int diff)"
  "thread_samples rate j (replicate m (Sample i rnd diff tx)) \<le> m"
  by (induction m) auto

theorem measured_latencies_are_exact_witness:
  "\<exists>s2 out s3. manager_message (\<lambda>_. []) (ex_msg REPORT_REQ 1 12) s2 = Inr (Continue, out, s3)
     \<and> parse_u64s 17 (drop 12 out) ! 6 = 42"
proof -
  let ?rs = "replicate 800 (Sample 0 (Fin (1 / 2)) 42 None)" and ?d = "[0, 0, 0, 0, 0, 0, 89, 64] :: byte list"
  obtain s out s1 s2 where s: "reachable (\<lambda>_. []) ex_cfg_one s" "mg_cfg s = ex_cfg_one"
      "manager_message (\<lambda>_. []) (ex_msg START_MEASURE 1000 7) s = Inr (Continue, out, s1)" "record_calls ?rs s1 = Inr s2"
    using ex_measurement [of ?rs] by auto
  have xs: "latencies (double_of_bytes ?d / Fin 100) ?rs = replicate 800 42"
    by (subst latencies_replicate(1)) (simp_all add: double_examples)
  have sorted: "sort (replicate 800 (42 :: u64)) = replicate 800 42" by (rule sorted_sort_id) simp
  have room: "\<forall>i. thread_samples (double_of_bytes ?d / Fin 100) i ?rs \<le> nat (requested_per_thread 1000 (mg_cfg s))"
    using latencies_replicate(2) [of _ _ 800] ex_started s(2) by (fastforce intro: order_trans)
  have "cfg_atype ex_cfg_one \<in> {LATENCY_AGENT, SYMMETRIC_AGENT}" "0 < cfg_thread_count (mg_cfg s)"
    using s(2) by (simp_all add: ex_cfg_one_def ex_cfg_mg_def)
  from measured_latencies_are_exact [OF s(1) this(1) delivers_ex_msg ex_msg_fields(1) _ this(2) s(3,4) _ room, of "ex_msg REPORT_REQ 1 12"]
  show ?thesis
    unfolding xs sorted by (auto simp: REPORT_LATENCY_def AGG_SAMPLE_SIZE_def close_values_def reports_percentile_def Let_def)
qed

end
