(* ===== verification/Recording_Steps.thy ===== *)
theory Recording_Steps
  imports System Transport_Properties
begin

text \<open>
  The transport and the shared statistics together: an iteration of any of the four main loops changes
  its thread's statistics only through the calls of \<open>recording\<close>, so it is a sequence of steps of
  \<open>System\<close>, whose interleavings with the other threads and the manager are the reachable states.
\<close>

subsection \<open>Calls on one thread's statistics\<close>

fun local_call ::
  "stats_state \<Rightarrow> bool \<Rightarrow> recording \<Rightarrow> latency_stats \<times> tx_samples \<Rightarrow> (latency_stats \<times> tx_samples) c_result" where
  "local_call st b (Count_tx i p) (ts, txs) = Inr (add_throughput_tx_sample b p ts, txs)"
| "local_call st b (Count_rx i p) (ts, txs) = Inr (add_throughput_rx_sample b p ts, txs)"
| "local_call st b (Stamp i t) (ts, txs) = Inr (ts, add_tx_timestamp b t txs)"
| "local_call st b (Sample i rnd diff tx) (ts, txs) =
     c_bind (add_latency_sample b rnd st diff tx ts) (\<lambda>ts'. Inr (ts', txs))"

fun local_calls ::
  "stats_state \<Rightarrow> bool \<Rightarrow> recording list \<Rightarrow> latency_stats \<times> tx_samples \<Rightarrow> (latency_stats \<times> tx_samples) c_result" where
  "local_calls st b [] v = Inr v"
| "local_calls st b (r # rs) v = c_bind (local_call st b r v) (local_calls st b rs)"

lemma local_calls_append:
  "local_calls st b (rs @ rs') v = c_bind (local_calls st b rs v) (local_calls st b rs')"
  by (induction rs arbitrary: v) (auto simp: c_bind_def split: sum.splits)

definition stats_view :: "thread_state \<Rightarrow> latency_stats \<times> tx_samples" where
  "stats_view s = (thr_stats s, thr_tx s)"

text \<open>What happened to the statistics of thread \<open>i\<close> are recording calls its agent type makes.\<close>

definition records ::
  "stats_state \<Rightarrow> bool \<Rightarrow> agent_type \<Rightarrow> nat \<Rightarrow> latency_stats \<times> tx_samples \<Rightarrow> latency_stats \<times> tx_samples \<Rightarrow> bool" where
  "records st b atype i v v' \<longleftrightarrow>
     (\<exists>rs. (\<forall>r \<in> set rs. thread_of r = i \<and> thread_calls atype r) \<and> local_calls st b rs v = Inr v')"

lemma records_refl [simp, intro]: "records st b atype i v v"
  unfolding records_def by (rule exI [of _ "[]"]) simp

lemma records_trans [trans]:
  "records st b atype i v v' \<Longrightarrow> records st b atype i v' v'' \<Longrightarrow> records st b atype i v v''"
  unfolding records_def by (elim exE conjE, rule_tac x = "rs @ rsa" in exI) (auto simp: local_calls_append)

lemma records_call:
  assumes "local_call st b r v = Inr v'" and "thread_of r = i" and "thread_calls atype r"
  shows "records st b atype i v v'"
  unfolding records_def by (rule exI [of _ "[r]"]) (simp add: assms)

lemma records_count:
  "records st b atype i (ts, txs) (add_throughput_tx_sample b p ts, txs)"
  "records st b atype i (ts, txs) (add_throughput_rx_sample b p ts, txs)"
  by (rule records_call [of _ _ "Count_tx i p"]; simp) (rule records_call [of _ _ "Count_rx i p"]; simp)

lemma records_stamps: "records st b atype i (ts, txs) (ts, (add_tx_timestamp b t ^^ n) txs)"
proof (induction n)
  case (Suc n)
  have "records st b atype i (ts, (add_tx_timestamp b t ^^ n) txs) (ts, add_tx_timestamp b t ((add_tx_timestamp b t ^^ n) txs))"
    by (rule records_call [of _ _ "Stamp i t"]) simp_all
  with Suc show ?case using records_trans by fastforce
qed simp

lemma records_sample:
  assumes "add_latency_sample b rnd st diff tx ts = Inr ts'" and "atype \<noteq> THROUGHPUT_AGENT"
  shows "records st b atype i (ts, txs) (ts', txs)"
  by (rule records_call [of _ _ "Sample i rnd diff tx"]) (simp_all add: assms)

subsection \<open>The steps of the loops\<close>

lemma coalesce_loop_stamps: "\<exists>n. snd (coalesce_loop b acked t s) = (add_tx_timestamp b t ^^ n) (snd s)"
proof (induction b acked t s rule: coalesce_loop.induct)
  case (1 b acked t s)
  let ?i = "slot (pq_tail (fst s))"
  show ?case
  proof (cases "ti_optid (pq_pending (fst s) ! ?i) \<le> acked \<and> pq_tail (fst s) < pq_head (fst s)")
    case True
    let ?q = "fst s" and ?s' = "((fst s)\<lparr>pq_pending := (pq_pending (fst s))[?i := (pq_pending (fst s) ! ?i)\<lparr>ti_time := t\<rparr>],
      pq_tail := pq_tail (fst s) + 1\<rparr>, add_tx_timestamp b t (snd s))"
    have "coalesce_loop b acked t s = coalesce_loop b acked t ?s'"
      using True by (subst coalesce_loop.simps) (simp add: Let_def)
    with "1.IH" [OF refl refl True] obtain n where
      "snd (coalesce_loop b acked t s) = (add_tx_timestamp b t ^^ n) (add_tx_timestamp b t (snd s))" by auto
    then show ?thesis by (intro exI [of _ "Suc n"]) (simp add: funpow_swap1)
  next
    case False
    then have "coalesce_loop b acked t s = s" by (subst coalesce_loop.simps) (auto simp: Let_def)
    then show ?thesis by (intro exI [of _ 0]) simp
  qed
qed

lemma get_tx_timestamp_stamps:
  assumes "get_tx_timestamp b e opid (q, txs) = Inr (ret, opid', q', txs')"
  shows "\<exists>n t. txs' = (add_tx_timestamp b t ^^ n) txs"
proof (cases e)
  case None
  then show ?thesis using assms by (intro exI [of _ 0]) (simp add: get_tx_timestamp_def)
next
  case (Some m)
  obtain n cmsgs where m: "m = (n, cmsgs)" by (cases m)
  with assms Some obtain found info opid1 where
    ex: "extract_timestamps cmsgs (pq_pending q ! slot (pq_tail q)) opid = Inr (found, info, opid1)"
    by (auto simp: get_tx_timestamp_def c_result_simps Let_def)
  define s2 where "s2 = (q\<lparr>pq_pending := (pq_pending q)[slot (pq_tail q) := info], pq_tail := pq_tail q + 1\<rparr>,
    add_tx_timestamp b (ti_time info) txs)"
  from assms Some m ex consider "txs' = txs" | "txs' = add_tx_timestamp b (ti_time info) txs"
    | "txs' = snd (coalesce_loop b (word_of_int (opid1 + 1)) (ti_time info) s2)"
    by (fastforce simp: get_tx_timestamp_def c_result_simps Let_def s2_def split: if_splits)
  then show ?thesis
  proof cases
    case 1
    then show ?thesis by (intro exI [of _ 0]) simp
  next
    case 2
    then show ?thesis by (intro exI [of _ 1]) auto
  next
    case 3
    obtain k where "txs' = (add_tx_timestamp b (ti_time info) ^^ k) (snd s2)"
      using coalesce_loop_stamps [of b "word_of_int (opid1 + 1)" "ti_time info" s2] 3 by auto
    then show ?thesis by (intro exI [of _ "Suc k"] exI [of _ "ti_time info"]) (simp add: s2_def funpow_swap1)
  qed
qed

text \<open>Sending.\<close>

lemma stamp_sent_records:
  assumes "stamp_sent mode e i bytes s = Inr s'" and "se_measuring e = b"
  shows "records st b atype k (stats_view s) (stats_view s')"
proof (cases mode)
  case User_stamp
  then have "thr_stats s' = thr_stats s" "\<exists>t. thr_tx s' = add_tx_timestamp b t (thr_tx s)"
    using assms by (auto simp: c_result_simps push_complete_tx_timestamp_def Let_def)
  then show ?thesis using records_stamps [where n = 1 and i = k] by (auto simp: stats_view_def)
qed (use assms in \<open>auto simp: c_result_simps stats_view_def\<close>)

lemma send_on_records:
  assumes "send_on mode cfg e i s = Inr r" and "se_measuring e = b"
  shows "records st b atype k (stats_view s) (stats_view (step_state r))"
proof -
  obtain req arg where req: "prepare_request cfg (se_req e) (thr_arg s) = Inr (req, arg)"
    using assms(1) by (auto simp: send_on_def c_result_simps)
  let ?s1 = "s\<lparr>thr_arg := arg\<rparr>"
  show ?thesis
  proof (cases "se_ret e < 0 \<and> \<not> se_block e")
    case True
    then have "r = Stop ?s1" using assms(1) req by (simp add: send_on_def Let_def)
    then show ?thesis by (simp add: stats_view_def)
  next
    case False
    let ?p = "\<lparr>br_bytes = word_of_int (se_ret e), br_reqs = 1\<rparr>"
    obtain s2 where s2: "stamp_sent mode e i (request_bytes req) ?s1 = Inr s2"
      and r: "stats_view (step_state r) = (add_throughput_tx_sample b ?p (thr_stats s2), thr_tx s2)"
      using assms req False by (cases r) (auto simp: send_on_def Let_def c_result_simps stats_view_def)
    have "records st b atype k (stats_view s) (stats_view s2)"
      using stamp_sent_records [OF s2 assms(2)] by (simp add: stats_view_def)
    also have "records st b atype k (stats_view s2) (stats_view (step_state r))"
      unfolding r by (simp add: stats_view_def records_count)
    finally show ?thesis .
  qed
qed

lemma try_send_records:
  assumes "try_send mode cfg e s = Inr (sent, r)" and "se_measuring e = b"
  shows "records st b atype k (stats_view s) (stats_view (step_state r))"
proof -
  obtain p where p: "pick_conn cfg (se_rands e) (connections s) = Inr p"
    using assms(1) by (auto simp: try_send_def c_result_simps)
  show ?thesis
  proof (cases p)
    case None
    then have "r = Go s" using assms(1) p by (simp add: try_send_def)
    then show ?thesis by simp
  next
    case (Some i)
    then have "send_on mode cfg e i s = Inr r" using assms(1) p by (auto simp: try_send_def c_result_simps)
    then show ?thesis by (rule send_on_records [OF _ assms(2)])
  qed
qed

lemma one_send_records:
  assumes "one_send mode cfg es s = Inr r" and "\<forall>e \<in> set es. se_measuring e = b"
  shows "records st b atype k (stats_view s) (stats_view (step_state r))"
proof (cases "\<exists>e es'. es = e # es' \<and> 0 \<le> se_now e - next_tx s")
  case True
  then obtain e es' sent where e: "es = e # es'" "try_send mode cfg e s = Inr (sent, r)"
    using assms(1) by (auto simp: one_send_def c_result_simps)
  then show ?thesis using try_send_records assms(2) by simp
next
  case False
  then have "r = Go s" using assms(1) by (cases es) (auto simp: one_send_def)
  then show ?thesis by simp
qed

lemma nic_send_loop_records:
  "nic_send_loop cfg es s = Inr r \<Longrightarrow> \<forall>e \<in> set es. se_measuring e = b \<Longrightarrow>
   records st b atype k (stats_view s) (stats_view (step_state r))"
proof (induction es arbitrary: s)
  case Nil
  then have "r = Go s" by simp
  then show ?case by simp
next
  case (Cons e es)
  show ?case
  proof (cases "0 \<le> se_now e - next_tx s")
    case True
    then obtain sent r1 where first_try: "try_send Nic_stamp cfg e s = Inr (sent, r1)"
      using Cons.prems(1) by (auto simp: c_result_simps)
    have first: "records st b atype k (stats_view s) (stats_view (step_state r1))"
      using try_send_records [OF first_try] Cons.prems(2) by simp
    from Cons.prems(1) True first_try consider s' where "r1 = Go s'" "sent" "nic_send_loop cfg es s' = Inr r" | "r = r1"
      by (cases r1) (auto split: if_splits)
    then show ?thesis
    proof cases
      case 1
      then have "records st b atype k (stats_view s') (stats_view (step_state r))"
        using Cons.IH [of s'] Cons.prems(2) by simp
      then show ?thesis using records_trans [OF first] 1(1) by simp
    qed (use first in simp)
  next
    case False
    then have "r = Go s" using Cons.prems(1) by simp
    then show ?thesis by simp
  qed
qed

text \<open>Receiving and matching.\<close>

lemma on_readable_records:
  assumes "on_readable whole after cfg ev s = Inr r" and "ev_measuring ev = b"
    and "\<And>reqs s1 s2. after ev reqs s1 = Inr s2 \<Longrightarrow> records st b atype k (stats_view s1) (stats_view s2)"
  shows "records st b atype k (stats_view s) (stats_view (step_state r))"
proof -
  obtain c res where c: "c_read (connections s) (ev_idx ev) = Inr c" "receive whole cfg ev c = Inr res"
    using assms(1) by (auto simp: on_readable_def c_result_simps)
  show ?thesis
  proof (cases res)
    case (Recv_reqs c' p)
    let ?s1 = "s\<lparr>connections := (connections s)[ev_idx ev := c'], avail_reqs := u64_to_c_int (word_of_int (avail_reqs s) + br_reqs p)\<rparr>"
    obtain s2 where s2: "after ev (br_reqs p) ?s1 = Inr s2"
      and r: "stats_view (step_state r) = (add_throughput_rx_sample b p (thr_stats s2), thr_tx s2)"
      using assms(1,2) c Recv_reqs by (cases r) (auto simp: on_readable_def Let_def c_result_simps stats_view_def)
    have "records st b atype k (stats_view s) (stats_view s2)" using assms(3) [OF s2] by (simp add: stats_view_def)
    also have "records st b atype k (stats_view s2) (stats_view (step_state r))"
      unfolding r by (simp add: stats_view_def records_count)
    finally show ?thesis .
  qed (use assms(1) c in \<open>auto simp: on_readable_def stats_view_def\<close>)
qed

lemma user_match_records:
  assumes "user_match st ev reqs s = Inr s'" and "ev_measuring ev = b" and "atype \<noteq> THROUGHPUT_AGENT"
  shows "records st b atype k (stats_view s) (stats_view s')"
proof -
  obtain q t q' where q: "c_read (conn_tx s) (ev_idx ev) = Inr q" "pop_pending_tx_timestamps (skip_but_last reqs q) = Inr (t, q')"
    using assms(1) by (auto simp: user_match_def c_result_simps)
  obtain ret d where d: "timespec_diff (Some (ev_time ev)) (map_option ti_time t) = (ret, d)" by fastforce
  show ?thesis
  proof (cases d)
    case None
    then show ?thesis using assms(1) q d by (auto simp: user_match_def Let_def stats_view_def)
  next
    case (Some latency)
    then obtain ts where "add_latency_sample b (ev_rnd ev) st (tv_nsec latency) (map_option ti_time t) (thr_stats s) = Inr ts"
      and "stats_view s' = (ts, thr_tx s)"
      using assms(1,2) q d by (auto simp: user_match_def Let_def c_result_simps stats_view_def)
    then show ?thesis using records_sample [OF _ assms(3)] by (simp add: stats_view_def)
  qed
qed

lemma nic_pop_records:
  assumes "nic_pop ev q s = Inr (t, q', s')" and "ev_measuring ev = b"
  shows "records st b atype k (stats_view s) (stats_view s')"
proof -
  obtain t1 q1 where pop: "pop_pending_tx_timestamps q = Inr (t1, q1)"
    using assms(1) by (auto simp: nic_pop_def c_result_simps)
  show ?thesis
  proof (cases t1)
    case (Some i)
    then show ?thesis using assms(1) pop by (auto simp: nic_pop_def stats_view_def)
  next
    case None
    then obtain ret opid q2 txs where "get_tx_timestamp b (ev_errqueue ev) (received_opid s) (q1, thr_tx s) = Inr (ret, opid, q2, txs)"
      and "stats_view s' = (thr_stats s, txs)"
      using assms pop by (auto simp: nic_pop_def c_result_simps stats_view_def)
    then show ?thesis using get_tx_timestamp_stamps records_stamps by (fastforce simp: stats_view_def)
  qed
qed

lemma nic_match_records:
  assumes "nic_match st ev reqs s = Inr s'" and "ev_measuring ev = b" and "atype \<noteq> THROUGHPUT_AGENT"
  shows "records st b atype k (stats_view s) (stats_view s')"
proof -
  obtain q t q' s1 where q: "c_read (conn_tx s) (ev_idx ev) = Inr q" and pop: "nic_pop ev (skip_but_last reqs q) s = Inr (t, q', s1)"
    using assms(1) by (auto simp: nic_match_def c_result_simps Let_def)
  have first: "records st b atype k (stats_view s) (stats_view s1)"
    using nic_pop_records [OF pop assms(2)] by (simp add: stats_view_def)
  obtain ret d where d: "timespec_diff (Some (ti_time (thr_rx s))) (map_option ti_time t) = (ret, d)" by fastforce
  show ?thesis
  proof (cases d)
    case None
    then have "stats_view s' = stats_view s1" using assms(1) q pop d by (auto simp: nic_match_def Let_def stats_view_def)
    then show ?thesis using first by simp
  next
    case (Some latency)
    then obtain ns ts where ts: "add_latency_sample b (ev_rnd ev) st ns (map_option ti_time t) (thr_stats s1) = Inr ts"
      and s': "stats_view s' = (ts, thr_tx s1)"
      using assms(1,2) q pop d by (auto simp: nic_match_def Let_def c_result_simps stats_view_def)
    note first
    also have "records st b atype k (stats_view s1) (stats_view s')"
      using records_sample [OF ts assms(3)] s' by (simp add: stats_view_def)
    finally show ?thesis .
  qed
qed

lemma read_error_queue_records:
  assumes "read_error_queue ev s = Inr r" and "ev_measuring ev = b"
  shows "records st b atype k (stats_view s) (stats_view (step_state r))"
proof -
  obtain q ret opid q' txs where "get_tx_timestamp b (ev_errqueue ev) (received_opid s) (q, thr_tx s) = Inr (ret, opid, q', txs)"
    and "stats_view (step_state r) = (thr_stats s, txs)"
    using assms by (cases r) (auto simp: read_error_queue_def c_result_simps stats_view_def)
  then show ?thesis using get_tx_timestamp_stamps records_stamps by (fastforce simp: stats_view_def)
qed

lemma event_loop_records:
  assumes "event_loop handle evs s = Inr r"
    and "\<And>ev s r. ev \<in> set evs \<Longrightarrow> handle ev s = Inr r \<Longrightarrow> records st b atype k (stats_view s) (stats_view (step_state r))"
  shows "records st b atype k (stats_view s) (stats_view (step_state r))"
  using assms
proof (induction evs arbitrary: s)
  case Nil
  then have "r = Go s" by simp
  then show ?case by simp
next
  case (Cons ev evs)
  obtain r1 where r1: "handle ev s = Inr r1" using Cons.prems(1) by (auto simp: c_result_simps)
  have first: "records st b atype k (stats_view s) (stats_view (step_state r1))" using Cons.prems(2) [OF _ r1] by simp
  show ?case
  proof (cases r1)
    case (Stop s')
    then have "r = r1" using Cons.prems(1) r1 by simp
    then show ?thesis using first by simp
  next
    case (Go s')
    then have "event_loop handle evs s' = Inr r" using Cons.prems(1) r1 by simp
    then have rest: "records st b atype k (stats_view s') (stats_view (step_state r))"
      by (rule Cons.IH) (rule Cons.prems(2) [OF list.set_intros(2)])
    show ?thesis using records_trans [OF first] rest Go by simp
  qed
qed

subsection \<open>The iterations\<close>

text \<open>All calls of the iteration see the same value of \<open>should_measure()\<close>.\<close>

definition same_flag :: "bool \<Rightarrow> iter_env \<Rightarrow> bool" where
  "same_flag b e \<longleftrightarrow> (\<forall>x \<in> set (ie_sends e). se_measuring x = b) \<and> (\<forall>ev \<in> set (ie_events e). ev_measuring ev = b)"

lemma then_events_records:
  assumes "then_events handle evs r1 = Inr r" and "records st b atype k v (stats_view (step_state r1))"
    and "\<And>ev s r. ev \<in> set evs \<Longrightarrow> handle ev s = Inr r \<Longrightarrow> records st b atype k (stats_view s) (stats_view (step_state r))"
  shows "records st b atype k v (stats_view (step_state r))"
proof (cases r1)
  case (Go s)
  then have "event_loop handle evs s = Inr r" using assms(1) by (simp add: then_events_def)
  then have "records st b atype k (stats_view s) (stats_view (step_state r))" by (rule event_loop_records) (rule assms(3))
  then show ?thesis using records_trans [OF assms(2)] Go by simp
qed (use assms(1,2) in \<open>auto simp: then_events_def\<close>)

lemma throughput_event_records:
  assumes "throughput_event cfg ev s = Inr r" and "ev_measuring ev = b"
  shows "records st b atype k (stats_view s) (stats_view (step_state r))"
proof -
  have "on_readable False (\<lambda>_ _ s. Inr s) cfg ev s = Inr r"
    using assms(1) by (simp add: throughput_event_def split: if_splits)
  then show ?thesis using assms(2) by (rule on_readable_records) simp
qed

lemma user_event_records:
  assumes "user_event cfg st ev s = Inr r" and "ev_measuring ev = b" and "atype \<noteq> THROUGHPUT_AGENT"
  shows "records st b atype k (stats_view s) (stats_view (step_state r))"
proof (cases "ev_in ev")
  case True
  then have "on_readable True (user_match st) cfg ev s = Inr r" using assms(1) by (simp add: user_event_def)
  then show ?thesis using assms(2) by (rule on_readable_records) (rule user_match_records [OF _ assms(2,3)])
next
  case no_data: False
  show ?thesis
  proof (cases "ev_err ev")
    case True
    then have "read_error_queue ev s = Inr r" using assms(1) no_data by (simp add: user_event_def)
    then show ?thesis using assms(2) by (rule read_error_queue_records)
  next
    case False
    then have "r = Go s" using assms(1) no_data by (simp add: user_event_def split: if_split_asm)
    then show ?thesis by simp
  qed
qed

lemma nic_event_records:
  assumes "nic_event cfg st ev s = Inr r" and "ev_measuring ev = b" and "atype \<noteq> THROUGHPUT_AGENT"
  shows "records st b atype k (stats_view s) (stats_view (step_state r))"
proof (cases "ev_in ev")
  case True
  then obtain s0 where s0: "receive_stamp ev s = Inr s0" "on_readable True (nic_match st) cfg ev s0 = Inr r"
    using assms(1) by (auto simp: nic_event_def c_result_simps)
  have "records st b atype k (stats_view s0) (stats_view (step_state r))"
    using s0(2) assms(2) by (rule on_readable_records) (rule nic_match_records [OF _ assms(2,3)])
  moreover have "stats_view s0 = stats_view s" using s0(1) by (auto simp: receive_stamp_def c_result_simps stats_view_def)
  ultimately show ?thesis by simp
next
  case no_data: False
  show ?thesis
  proof (cases "ev_err ev")
    case True
    then have "read_error_queue ev s = Inr r" using assms(1) no_data by (simp add: nic_event_def)
    then show ?thesis using assms(2) by (rule read_error_queue_records)
  next
    case False
    then have "r = Go s" using assms(1) no_data by (simp add: nic_event_def split: if_split_asm)
    then show ?thesis by simp
  qed
qed

lemma idle_records: "r = Go (s\<lparr>next_tx := n\<rparr>) \<Longrightarrow> records st b atype k (stats_view s) (stats_view (step_state r))"
  by (simp add: stats_view_def)

lemma throughput_iter_records:
  assumes "throughput_iter cfg e s = Inr r" and "same_flag b e"
  shows "records st b atype k (stats_view s) (stats_view (step_state r))"
proof (cases "ie_load e")
  case True
  then obtain r1 where r1: "one_send No_stamp cfg (ie_sends e) s = Inr r1" "then_events (throughput_event cfg) (ie_events e) r1 = Inr r"
    using assms(1) by (auto simp: throughput_iter_def c_result_simps)
  show ?thesis
    by (rule then_events_records [OF r1(2) one_send_records [OF r1(1)]])
      (use assms(2) throughput_event_records in \<open>auto simp: same_flag_def\<close>)
qed (use assms(1) idle_records in \<open>auto simp: throughput_iter_def\<close>)

lemma user_iter_records:
  assumes "user_iter cfg st e s = Inr r" and "same_flag b e" and "atype \<noteq> THROUGHPUT_AGENT"
  shows "records st b atype k (stats_view s) (stats_view (step_state r))"
proof (cases "ie_load e")
  case True
  then obtain r1 where r1: "one_send User_stamp cfg (ie_sends e) s = Inr r1" "then_events (user_event cfg st) (ie_events e) r1 = Inr r"
    using assms(1) by (auto simp: user_iter_def c_result_simps)
  show ?thesis
    by (rule then_events_records [OF r1(2) one_send_records [OF r1(1)]])
      (use assms(2) user_event_records [OF _ _ assms(3)] in \<open>auto simp: same_flag_def\<close>)
qed (use assms(1) idle_records in \<open>auto simp: user_iter_def\<close>)

lemma nic_iter_records:
  assumes "nic_iter cfg st e s = Inr r" and "same_flag b e" and "atype \<noteq> THROUGHPUT_AGENT"
  shows "records st b atype k (stats_view s) (stats_view (step_state r))"
proof (cases "ie_load e")
  case True
  then obtain r1 where r1: "(if avail_reqs s = 0 then Inr (Go s) else nic_send_loop cfg (ie_sends e) s) = Inr r1"
    "then_events (nic_event cfg st) (take 1 (ie_events e)) r1 = Inr r"
    using assms(1) by (auto simp: nic_iter_def c_result_simps split: if_splits)
  have "records st b atype k (stats_view s) (stats_view (step_state r1))"
    using r1(1) nic_send_loop_records [of cfg "ie_sends e" s r1] assms(2) by (auto simp: same_flag_def split: if_splits)
  then show ?thesis
    by (rule then_events_records [OF r1(2)])
      (use assms(2) nic_event_records [OF _ _ assms(3)] in \<open>auto simp: same_flag_def dest: in_set_takeD\<close>)
qed (use assms(1) idle_records in \<open>auto simp: nic_iter_def\<close>)

lemma latency_receive_records:
  assumes "latency_receive cfg st e i s = Inr r" and "le_measuring e = b" and "atype \<noteq> THROUGHPUT_AGENT"
  shows "records st b atype k (stats_view s) (stats_view (step_state r))"
proof (cases "0 < le_ret e")
  case True
  obtain p ts where ts: "add_latency_sample b (le_rnd e) st (le_end e - le_start e) None (add_throughput_rx_sample b p (thr_stats s)) = Inr ts"
    and r: "stats_view (step_state r) = (ts, thr_tx s)"
    using assms(1,2) True by (cases r) (auto simp: latency_receive_def c_result_simps stats_view_def)
  have "records st b atype k (stats_view s) (add_throughput_rx_sample b p (thr_stats s), thr_tx s)"
    by (simp add: stats_view_def records_count)
  also have "records st b atype k (add_throughput_rx_sample b p (thr_stats s), thr_tx s) (stats_view (step_state r))"
    unfolding r by (rule records_sample [OF ts assms(3)])
  finally show ?thesis .
next
  case False
  then have "stats_view (step_state r) = stats_view s"
    using assms(1) by (cases r) (auto simp: latency_receive_def c_result_simps stats_view_def split: if_split_asm)
  then show ?thesis by simp
qed

lemma latency_iter_records:
  assumes "latency_iter cfg st e s = Inr r" and "se_measuring (le_send e) = b" and "le_measuring e = b" and "atype \<noteq> THROUGHPUT_AGENT"
  shows "records st b atype k (stats_view s) (stats_view (step_state r))"
proof (cases "le_load e \<and> \<not> se_now (le_send e) < next_tx s")
  case True
  then obtain conn where conn: "pick_conn cfg (se_rands (le_send e)) (connections s) = Inr conn"
    using assms(1) by (auto simp: latency_iter_def c_result_simps Let_def)
  show ?thesis
  proof (cases conn)
    case None
    then have "r = Go s" using assms(1) True conn by (simp add: latency_iter_def Let_def)
    then show ?thesis by simp
  next
    case (Some i)
    then obtain req arg where req: "prepare_request cfg (se_req (le_send e)) (thr_arg s) = Inr (req, arg)"
      using assms(1) True conn by (auto simp: latency_iter_def c_result_simps Let_def)
    let ?p = "\<lparr>br_bytes = word_of_int (se_ret (le_send e)), br_reqs = 1\<rparr>"
    let ?s1 = "s\<lparr>thr_arg := arg, thr_stats := add_throughput_tx_sample b ?p (thr_stats s)\<rparr>"
    show ?thesis
    proof (cases "se_ret (le_send e) < 0")
      case neg: True
      then have "stats_view (step_state r) = stats_view s"
        using assms(1) True conn Some req by (cases r) (auto simp: latency_iter_def Let_def stats_view_def)
      then show ?thesis by simp
    next
      case False
      then have "latency_receive cfg st e i ?s1 = Inr r"
        using assms(1,2) True conn Some req by (auto simp: latency_iter_def Let_def c_result_simps)
      then have "records st b atype k (stats_view ?s1) (stats_view (step_state r))"
        by (rule latency_receive_records [OF _ assms(3,4)])
      moreover have "records st b atype k (stats_view s) (stats_view ?s1)" by (simp add: stats_view_def records_count)
      ultimately show ?thesis by (rule records_trans [rotated])
    qed
  qed
next
  case False
  then have "stats_view (step_state r) = stats_view s"
    using assms(1) by (cases r) (auto simp: latency_iter_def Let_def stats_view_def split: if_split_asm)
  then show ?thesis by simp
qed

subsection \<open>Iterations as steps of the system\<close>

text \<open>One iteration of a main function, with one value \<open>b\<close> of \<open>should_measure()\<close>.\<close>

inductive main_iter ::
  "agent_config \<Rightarrow> stats_state \<Rightarrow> bool \<Rightarrow> tcp_main \<Rightarrow> thread_state \<Rightarrow> thread_state step \<Rightarrow> bool" for cfg st b where
  throughput: "throughput_iter cfg e s = Inr r \<Longrightarrow> same_flag b e \<Longrightarrow> main_iter cfg st b Throughput_main s r"
| latency: "latency_iter cfg st e s = Inr r \<Longrightarrow> se_measuring (le_send e) = b \<Longrightarrow> le_measuring e = b \<Longrightarrow>
    main_iter cfg st b Latency_main s r"
| nic: "nic_iter cfg st e s = Inr r \<Longrightarrow> same_flag b e \<Longrightarrow> main_iter cfg st b Symmetric_nic_main s r"
| user: "user_iter cfg st e s = Inr r \<Longrightarrow> same_flag b e \<Longrightarrow> main_iter cfg st b Symmetric_main s r"

lemma main_iter_records:
  assumes "main_iter cfg st b f s r" and "init_tcp atype = Some f"
  shows "records st b atype k (stats_view s) (stats_view (step_state r))"
proof -
  have other: "atype \<noteq> THROUGHPUT_AGENT" if "f \<noteq> Throughput_main" using that assms(2) by (auto simp: init_tcp_def)
  from assms(1) show ?thesis
  proof cases
    case throughput
    then show ?thesis using throughput_iter_records by blast
  next
    case (latency e)
    then show ?thesis using latency_iter_records other by blast
  next
    case (nic e)
    then show ?thesis using nic_iter_records other by blast
  next
    case (user e)
    then show ?thesis using user_iter_records other by blast
  qed
qed

text \<open>Thread \<open>i\<close>'s element of the shared statistics.\<close>

definition element :: "nat \<Rightarrow> manager_state \<Rightarrow> latency_stats \<times> tx_samples" where
  "element i S = (all_stats (mg_stats S) ! i, all_tx (mg_stats S) ! i)"

definition put :: "nat \<Rightarrow> latency_stats \<times> tx_samples \<Rightarrow> manager_state \<Rightarrow> manager_state" where
  "put i v S = S\<lparr>mg_stats := (mg_stats S)\<lparr>all_stats := (all_stats (mg_stats S))[i := fst v],
     all_tx := (all_tx (mg_stats S))[i := snd v]\<rparr>\<rparr>"

definition registered :: "nat \<Rightarrow> manager_state \<Rightarrow> bool" where
  "registered i S \<longleftrightarrow> i < length (all_stats (mg_stats S)) \<and> i < length (all_tx (mg_stats S))"

lemma put_element [simp]: "put i (element i S) S = S"
  by (simp add: put_def element_def)

lemma put_put [simp]: "put i v (put i w S) = put i v S"
  by (simp add: put_def)

lemma put_fields [simp]:
  "registered i (put k v S) = registered i S" "agents_should_measure (put i v S) = agents_should_measure S"
  "mg_cfg (put i v S) = mg_cfg S" "registered i S \<Longrightarrow> element i (put i v S) = v"
  by (simp_all add: put_def registered_def element_def)

lemma local_call_config:
  "per_thread_samples st = per_thread_samples st' \<Longrightarrow> sampling_rate st = sampling_rate st' \<Longrightarrow>
   local_call st b r v = local_call st' b r v"
  by (cases r; cases v) (simp_all add: add_latency_sample_def)

lemma local_calls_put:
  "local_calls (mg_stats (put i w S)) b rs v = local_calls (mg_stats S) b rs v"
proof (induction rs arbitrary: v)
  case (Cons r rs)
  have "local_call (mg_stats (put i w S)) b r v = local_call (mg_stats S) b r v"
    by (rule local_call_config) (simp_all add: put_def)
  then show ?case using Cons.IH by (cases "local_call (mg_stats S) b r v") simp_all
qed simp

lemma record_call_local:
  assumes "registered i S" and "thread_of r = i"
    and "local_call (mg_stats S) (agents_should_measure S) r (element i S) = Inr v"
  shows "record_call r S = Inr (put i v S)"
  using assms by (cases r) (auto simp: element_def put_def on_thread_def registered_def c_result_simps)

lemma record_calls_local:
  "local_calls (mg_stats S) (agents_should_measure S) rs (element i S) = Inr v \<Longrightarrow> registered i S \<Longrightarrow>
   \<forall>r \<in> set rs. thread_of r = i \<Longrightarrow> record_calls rs S = Inr (put i v S)"
proof (induction rs arbitrary: S)
  case Nil
  then have "v = element i S" by simp
  then show ?case by simp
next
  case (Cons r rs)
  then obtain w where w: "local_call (mg_stats S) (agents_should_measure S) r (element i S) = Inr w"
    "local_calls (mg_stats S) (agents_should_measure S) rs w = Inr v" by (auto simp: c_result_simps)
  have "record_call r S = Inr (put i w S)" using record_call_local [OF Cons.prems(2) _ w(1)] Cons.prems(3) by simp
  moreover have "record_calls rs (put i w S) = Inr (put i v (put i w S))"
    by (rule Cons.IH) (use Cons.prems(2,3) w(2) in \<open>simp_all add: local_calls_put\<close>)
  ultimately show ?case by simp
qed

lemma reachable_calls:
  "reachable enc cfg S \<Longrightarrow> \<forall>r \<in> set rs. thread_calls (cfg_atype cfg) r \<Longrightarrow> record_calls rs S = Inr S' \<Longrightarrow> reachable enc cfg S'"
proof (induction rs arbitrary: S)
  case (Cons r rs)
  then obtain S1 where S1: "record_call r S = Inr S1" "record_calls rs S1 = Inr S'" by (auto simp: c_result_simps)
  have "cfg_atype (mg_cfg S) = cfg_atype cfg" using reachable_inv [OF Cons.prems(1)] by (simp add: sys_inv_def)
  then have "reachable enc cfg S1"
    using reachable.step [OF Cons.prems(1) sys_step.call [OF _ S1(1)]] Cons.prems(2) by simp
  then show ?case using Cons.IH S1(2) Cons.prems(2) by simp
qed simp

text \<open>
  C8. The transport refines the recording interface: whatever an iteration of a main loop does to its
  thread's statistics is a sequence of recording calls of that thread, of the kinds its agent type makes.
  Run on the shared statistics, the calls succeed, change the thread's element as the iteration does and
  nothing else, and lead from a reachable state of the system to a reachable one.
\<close>

theorem iteration_refines_recording:
  assumes "reachable enc cfg S" and "registered i S" and "element i S = stats_view s"
    and "init_tcp (cfg_atype cfg) = Some f" and "main_iter (mg_cfg S) (mg_stats S) (agents_should_measure S) f s r"
  shows "\<exists>rs. (\<forall>c \<in> set rs. thread_of c = i \<and> thread_calls (cfg_atype cfg) c)
    \<and> record_calls rs S = Inr (put i (stats_view (step_state r)) S)
    \<and> reachable enc cfg (put i (stats_view (step_state r)) S)"
proof -
  obtain rs where rs: "\<forall>c \<in> set rs. thread_of c = i \<and> thread_calls (cfg_atype cfg) c"
    "local_calls (mg_stats S) (agents_should_measure S) rs (stats_view s) = Inr (stats_view (step_state r))"
    using main_iter_records [OF assms(5,4), of i] unfolding records_def by blast
  have "record_calls rs S = Inr (put i (stats_view (step_state r)) S)"
    using record_calls_local [OF _ assms(2)] rs assms(3) by simp
  with reachable_calls [OF assms(1) _ this] rs(1) show ?thesis by blast
qed

text \<open>
  A thread of the symmetric agent in a measurement, to which the network card reports the time of its
  request.
\<close>

definition ex_report_env :: "bool \<Rightarrow> iter_env" where
  "ex_report_env b = \<lparr>ie_load = True, ie_idle_now = 0, ie_sends = [],
     ie_events = [ex_event\<lparr>ev_in := False, ev_err := True, ev_measuring := b,
       ev_errqueue := Some (0, [Scm_timestamping [zero_timespec, zero_timespec, Timespec 5 20], Ip_recverr ENOMSG 4 7])\<rparr>]\<rparr>"

definition ex_report_thread :: "latency_stats \<times> tx_samples \<Rightarrow> thread_state" where
  "ex_report_thread v = ex_thread\<lparr>thr_stats := fst v, thr_tx := snd v,
     conn_tx := [zero_pending\<lparr>pq_head := 1, pq_pending := (replicate 16 zero_info)[0 := \<lparr>ti_time = zero_timespec, ti_optid = 8\<rparr>]\<rparr>]\<rparr>"

lemma ex_report:
  "\<exists>s'. user_iter cfg st (ex_report_env b) (ex_report_thread v) = Inr (Go s')
     \<and> stats_view s' = (fst v, add_tx_timestamp b (Timespec 5 20) (snd v))"
  by (simp add: user_iter_def ex_report_env_def one_send_def then_events_def user_event_def read_error_queue_def
      ex_event_def ex_report_thread_def get_tx_timestamp_def extract_timestamps_def SO_EE_ORIGIN_TIMESTAMPING_def
      Let_def slot_def zero_pending_def zero_info_def MAX_PENDING_REQS_def stats_view_def)

theorem iteration_refines_recording_witness:
  "\<exists>S rs v. reachable (\<lambda>_. []) ex_cfg_one S \<and> record_calls rs S = Inr (put 0 v S) \<and> reachable (\<lambda>_. []) ex_cfg_one (put 0 v S)
     \<and> v = (fst (element 0 S), add_tx_timestamp (agents_should_measure S) (Timespec 5 20) (snd (element 0 S)))"
proof -
  obtain S where S: "reachable (\<lambda>_. []) ex_cfg_one S" using ex_started by blast
  let ?s = "ex_report_thread (element 0 S)" and ?b = "agents_should_measure S"
  have inv: "sys_inv ex_cfg_one S" by (rule reachable_inv [OF S])
  then have "length (all_stats (mg_stats S)) = 1" by (simp add: sys_inv_def ex_cfg_one_def)
  moreover have "length (all_tx (mg_stats S)) = length (all_stats (mg_stats S))"
    using inv by (auto simp: sys_inv_def stats_wf_def)
  ultimately have reg: "registered 0 S" by (simp only: registered_def less_numeral_extra conj_absorb)
  obtain s' where s': "user_iter (mg_cfg S) (mg_stats S) (ex_report_env ?b) ?s = Inr (Go s')"
    "stats_view s' = (fst (element 0 S), add_tx_timestamp ?b (Timespec 5 20) (snd (element 0 S)))"
    using ex_report by blast
  have "main_iter (mg_cfg S) (mg_stats S) ?b Symmetric_main ?s (Go s')"
    by (rule main_iter.user [OF s'(1)]) (simp add: same_flag_def ex_report_env_def)
  moreover have "element 0 S = stats_view ?s" by (simp add: stats_view_def ex_report_thread_def)
  moreover have "init_tcp (cfg_atype ex_cfg_one) = Some Symmetric_main"
    by (simp add: init_tcp_def ex_cfg_one_def ex_cfg_mg_def)
  ultimately show ?thesis
    using iteration_refines_recording [OF S reg] s'(2) S by fastforce
qed

end
