(* ===== verification/Config_Types.thy ===== *)
theory Config_Types
  imports Agent
begin

text \<open>
  The type of a configuration: what holds of every configuration \<open>parse_arguments\<close> accepts, whatever
  the options, and which the rest of the agent relies on without testing it.
\<close>

subsection \<open>The two generators\<close>

text \<open>The generator of the load and the reference generator that is parsed from the same argument.\<close>

fun generators_typed :: "rand_gen option \<Rightarrow> rand_gen option \<Rightarrow> bool" where
  "generators_typed None None = True"
| "generators_typed (Some (Fixed_gen a)) (Some (Fixed_gen b)) = True"
| "generators_typed (Some (Exp_gen a)) (Some (Exp_gen b)) = True"
| "generators_typed (Some (Gpar_gen p)) (Some (Gpar_gen q)) = (p = q)"
| "generators_typed (Some (Gev_gen p)) (Some (Gev_gen q)) = (p = q)"
| "generators_typed _ _ = False"

lemma split_at_colon:
  obtains name rest where "s = name @ CHR '':'' # rest" "CHR '':'' \<notin> set name" | "CHR '':'' \<notin> set s"
  by (metis split_list_first)

lemma init_rand_no_colon:
  assumes "init_rand s = Inr (Some g, s')" and "CHR '':'' \<notin> set s"
  shows "s' = s \<and> generators_typed (Some g) (Some g)"
proof -
  have "s \<noteq> []" using assms(1) by (auto simp: init_rand_def strncmp_eq_def)
  note par = parse_param_name [OF this assms(2)]
  have cut: "strtok_cut colon s = s"
    by (rule strtok_cut_token) (use assms(2) in \<open>auto simp: colon_def\<close>)
  show ?thesis
    using assms(1)
    by (auto simp: init_rand_def parsed_def c_result_simps par cut fixed_init_def exp_init_def gamma_init_def
        split: if_split_asm)
qed

lemma init_rand_twice:
  assumes "init_rand s = Inr (Some g, s')" and "init_rand s' = Inr (r, s'')"
  shows "generators_typed (Some g) r"
proof (cases s rule: split_at_colon)
  case (1 name rest)
  have "name \<noteq> []"
    using assms(1) 1 by (auto simp: init_rand_colon parsed_first_def strncmp_eq_def)
  from init_rand_again [OF assms(1) [unfolded 1(1)] this 1(2)] assms(2) show ?thesis
    by (cases g) auto
next
  case 2
  from init_rand_no_colon [OF assms(1) this] assms show ?thesis by simp
qed

subsection \<open>The configuration\<close>

definition config_typed :: "agent_config \<Rightarrow> bool" where
  "config_typed cfg \<longleftrightarrow> cfg_atype cfg \<noteq> AGENT_NR \<and> length (cfg_targets cfg) < MAX_TARGETS
     \<and> - (2 ^ 31) \<le> cfg_thread_count cfg \<and> cfg_thread_count cfg < 2 ^ 31
     \<and> - (2 ^ 31) \<le> cfg_conn_count cfg \<and> cfg_conn_count cfg < 2 ^ 31
     \<and> generators_typed (cfg_idist cfg) (cfg_reference_ia_gen cfg)"

lemma parse_targets_bound:
  "parse_targets toks sa ts = Inr (ts', sa') \<Longrightarrow> length ts < MAX_TARGETS \<Longrightarrow> length ts' < MAX_TARGETS"
  by (induction toks sa ts rule: parse_targets.induct) (auto simp: c_result_simps split: prod.splits)

lemma atoi_range: "atoi s = Inr n \<Longrightarrow> - (2 ^ 31) \<le> n \<and> n < 2 ^ 31"
  by (simp add: atoi_def Let_def split: prod.splits if_split_asm)

lemma parse_ia_typed:
  assumes "parse_ia optarg cfg = Inr (Some cfg')"
  shows "\<exists>g r. cfg' = cfg\<lparr>cfg_idist := Some g, cfg_reference_ia_gen := r\<rparr> \<and> generators_typed (Some g) r"
proof -
  obtain g s r s' where "init_rand optarg = Inr (Some g, s)" "init_rand s = Inr (r, s')"
    and "cfg' = cfg\<lparr>cfg_idist := Some g, cfg_reference_ia_gen := r\<rparr>"
    using assms by (auto simp: parse_ia_def c_result_simps split: option.split_asm)
  with init_rand_twice show ?thesis by blast
qed

lemma parse_option_typed:
  assumes "parse_option c optarg (cfg, sa) = Inr (Some (cfg', sa'))" and "config_typed cfg"
  shows "config_typed cfg'"
proof -
  have keep: "config_typed (cfg\<lparr>cfg_tp_type := t\<rparr>)" "config_typed (cfg\<lparr>cfg_app_proto := p\<rparr>)"
    "a \<noteq> AGENT_NR \<Longrightarrow> config_typed (cfg\<lparr>cfg_atype := a\<rparr>)"
    "atoi s = Inr n \<Longrightarrow> config_typed (cfg\<lparr>cfg_thread_count := n\<rparr>)"
    "atoi s = Inr n \<Longrightarrow> config_typed (cfg\<lparr>cfg_conn_count := n\<rparr>)"
    "parse_targets toks sa (cfg_targets cfg) = Inr (ts, sa'') \<Longrightarrow> config_typed (cfg\<lparr>cfg_targets := ts\<rparr>)"
    "parse_ia s cfg = Inr (Some cfg1) \<Longrightarrow> config_typed cfg1" for t p a s n toks ts sa'' cfg1
    using assms(2) atoi_range [of s n] parse_targets_bound [of toks sa "cfg_targets cfg" ts sa''] parse_ia_typed [of s cfg cfg1]
    by (auto simp: config_typed_def)
  show ?thesis
  proof (cases "c = CHR ''a''")
    case True
    then show ?thesis
      using assms(1) keep(3)
      by (auto simp: parse_option_def c_result_simps parse_agent_type_def split: if_split_asm)
  next
    case False
    show ?thesis
    proof (cases "c = CHR ''s''")
      case True
      then show ?thesis using assms(1) keep(6) by (auto simp: parse_option_def c_result_simps)
    next
      case no_s: False
      show ?thesis
        using assms(1) False no_s unfolding parse_option_def Let_def
        by (simp add: c_result_simps split: if_split_asm) (use keep in \<open>force split: option.split_asm\<close>)+
    qed
  qed
qed

lemma parse_options_typed:
  "parse_options os (cfg, sa) = Inr (Some (cfg', sa')) \<Longrightarrow> config_typed cfg \<Longrightarrow> config_typed cfg'"
proof (induction os arbitrary: cfg sa)
  case (Cons opt os)
  obtain c optarg where opt: "opt = (c, optarg)" by (cases opt)
  with Cons.prems obtain cfg1 sa1 where "parse_option c optarg (cfg, sa) = Inr (Some (cfg1, sa1))"
    "parse_options os (cfg1, sa1) = Inr (Some (cfg', sa'))"
    by (auto simp: c_result_simps split: option.splits)
  with Cons show ?case using parse_option_typed by blast
qed simp

lemma parse_arguments_typed:
  assumes "parse_arguments os = Inr (Some cfg)"
  shows "config_typed cfg \<and> cfg_tp_type cfg = TCP"
proof -
  obtain sa where "parse_options os (zero_config, None) = Inr (Some (cfg, sa))" and "cfg_tp_type cfg = TCP"
    using assms by (auto simp: parse_arguments_def c_result_simps split: option.split_asm if_split_asm)
  moreover have "config_typed zero_config" by (simp add: config_typed_def zero_config_def MAX_TARGETS_def)
  ultimately show ?thesis using parse_options_typed by blast
qed

lemma init_tcp_Some: "atype \<noteq> AGENT_NR \<Longrightarrow> \<exists>f. init_tcp atype = Some f"
  by (cases atype) (simp_all add: init_tcp_def)

text \<open>When \<open>START_LOAD\<close> can set the load of a typed configuration.\<close>

lemma set_load_typed:
  assumes "config_typed cfg"
  shows "(\<exists>cfg'. set_load load cfg = Inr cfg') \<longleftrightarrow> (\<exists>g. cfg_idist cfg = Some g \<and> (\<forall>p. g \<noteq> Gev_gen p))"
proof -
  have "generators_typed (cfg_idist cfg) (cfg_reference_ia_gen cfg)" using assms by (simp add: config_typed_def)
  then show ?thesis
    by (cases "(cfg_idist cfg, cfg_reference_ia_gen cfg)" rule: generators_typed.cases)
      (simp_all add: set_load_def set_reference_load_def gen_ptr_def Let_def)
qed

text \<open>
  C19. Every configuration that \<open>parse_arguments\<close> accepts is well typed: the transport is TCP and has a main
  function for the agent type, there are fewer than 4096 targets, the counts are C integers, and the
  two generators are of the same distribution, which is fixed, exponential, or one of the presets.
  Hence setting the load can fail in two ways only: no generator was given, or it is \<open>fb_key\<close> (or
  another GEV distribution), whose average cannot be set.
\<close>

theorem accepted_configuration_typed:
  assumes "parse_arguments os = Inr (Some cfg)"
  shows "config_typed cfg \<and> cfg_tp_type cfg = TCP \<and> (\<exists>f. init_tcp (cfg_atype cfg) = Some f)
    \<and> (\<forall>load. (\<exists>cfg'. set_load load cfg = Inr cfg') \<longleftrightarrow> (\<exists>g. cfg_idist cfg = Some g \<and> (\<forall>p. g \<noteq> Gev_gen p)))"
proof -
  have typed: "config_typed cfg" and tcp: "cfg_tp_type cfg = TCP" using parse_arguments_typed [OF assms] by simp_all
  then have "\<exists>f. init_tcp (cfg_atype cfg) = Some f" using init_tcp_Some by (simp add: config_typed_def)
  with typed tcp set_load_typed [OF typed] show ?thesis by blast
qed

theorem accepted_configuration_typed_witness:
  "\<exists>cfg p. parse_arguments [(CHR ''i'', ''fb_key'')] = Inr (Some cfg) \<and> cfg_idist cfg = Some (Gev_gen p)
     \<and> \<not> (\<exists>cfg'. set_load 1000 cfg = Inr cfg')"
proof -
  obtain p where p: "init_rand ''fb_key'' = Inr (Some (Gev_gen p), ''fb_key'')"
    by (simp add: init_rand_def strncmp_eq_def parse_param_3_def Let_def next_tok_def strtok_def colon_def atof_tok_def)
  then have "parse_arguments [(CHR ''i'', ''fb_key'')] =
      Inr (Some (zero_config\<lparr>cfg_idist := Some (Gev_gen p), cfg_reference_ia_gen := Some (Gev_gen p)\<rparr>))"
    by (simp add: parse_arguments_def parse_option_def parse_ia_def zero_config_def)
  from accepted_configuration_typed [OF this] this show ?thesis by auto
qed

end
