(* ===== verification/Startup.thy ===== *)
theory Startup
  imports System Transport Config_Types
begin

unbundle bit_operations_syntax

text \<open>
  How the agent starts: \<open>main\<close> and \<open>agent_main\<close> of \<open>agent.c\<close>, and what \<open>manager_run\<close> does before its
  loop. What the system calls return is an input (\<open>boot_env\<close>). The threads register their statistics
  in the order in which they are created.
\<close>

subsection \<open>The manager's connection\<close>

definition manager_init :: "bool \<Rightarrow> int c_result" where
  "manager_init malloc_ok = c_bind (c_assert malloc_ok) (\<lambda>_. Inr 0)"

text \<open>The result of \<open>listen\<close> is not looked at.\<close>

definition create_socket :: "int \<Rightarrow> int \<Rightarrow> int" where
  "create_socket sock bound = (if sock < 0 then - 1 else if bound < 0 then - 1 else sock)"

text \<open>\<open>SO_LINGER\<close> is set before the descriptor is checked; its failure exits.\<close>

definition accept_conn :: "int \<Rightarrow> int \<Rightarrow> int c_result" where
  "accept_conn newfd linger =
     (if linger \<noteq> 0 then Inl (Process_Exit 1) else if newfd < 0 then Inr (- 1) else Inr newfd)"

text \<open>Whether \<open>manager_run\<close> gets to its loop; otherwise it returns -1.\<close>

definition manager_connect :: "int \<Rightarrow> int \<Rightarrow> int \<Rightarrow> int \<Rightarrow> bool c_result" where
  "manager_connect sock bound newfd linger =
     (if create_socket sock bound < 0 then Inr False
      else c_bind (accept_conn newfd linger) (\<lambda>fd. Inr (0 \<le> fd)))"

subsection \<open>Turning on hardware timestamps\<close>

text \<open>
  \<open>ioctl\<close> and \<open>setsockopt\<close> are functions from what they are asked for to their result. The name of the
  interface is copied into 16 bytes.
\<close>

record hwtstamp_config =
  hw_tx_type :: int
  hw_rx_filter :: int

definition HWTSTAMP_FILTER_NONE :: int where "HWTSTAMP_FILTER_NONE = 0"
definition HWTSTAMP_FILTER_ALL :: int where "HWTSTAMP_FILTER_ALL = 1"
definition HWTSTAMP_TX_OFF :: int where "HWTSTAMP_TX_OFF = 0"
definition HWTSTAMP_TX_ON :: int where "HWTSTAMP_TX_ON = 1"

definition set_timestamping_filter ::
  "(string \<Rightarrow> hwtstamp_config \<Rightarrow> int) \<Rightarrow> string \<Rightarrow> int \<Rightarrow> int \<Rightarrow> int c_result" where
  "set_timestamping_filter ioctl if_name rx_filter tx_type =
     (if 16 \<le> length if_name then Inl Undefined
      else Inr (if ioctl if_name \<lparr>hw_tx_type = tx_type, hw_rx_filter = rx_filter\<rparr> \<noteq> 0 then - 1 else 0))"

definition enable_nic_timestamping :: "(string \<Rightarrow> hwtstamp_config \<Rightarrow> int) \<Rightarrow> string \<Rightarrow> int c_result" where
  "enable_nic_timestamping ioctl if_name = set_timestamping_filter ioctl if_name HWTSTAMP_FILTER_ALL HWTSTAMP_TX_ON"

definition IF_NAME :: string where "IF_NAME = ''enp65s0''"

lemma enable_nic_named: "\<exists>r. enable_nic_timestamping ioctl IF_NAME = Inr r"
  by (simp add: enable_nic_timestamping_def set_timestamping_filter_def IF_NAME_def)

definition disable_nic_timestamping :: "(string \<Rightarrow> hwtstamp_config \<Rightarrow> int) \<Rightarrow> string \<Rightarrow> int c_result" where
  "disable_nic_timestamping ioctl if_name = set_timestamping_filter ioctl if_name HWTSTAMP_FILTER_NONE HWTSTAMP_TX_OFF"

text \<open>The mode: hardware times of both directions, raw, without payload, numbered by stream offset.\<close>

definition timestamping_mode :: u32 where
  "timestamping_mode = 4 OR 64 OR 1 OR 2048 OR 128"

definition sock_enable_timestamping :: "(u32 \<Rightarrow> int) \<Rightarrow> int" where
  "sock_enable_timestamping setsockopt = (if setsockopt timestamping_mode < 0 then - 1 else 0)"

subsection \<open>The threads\<close>

text \<open>
  \<open>agent_main\<close>: registers the thread and pins it to a core; \<open>None\<close> is a thread that ends because that
  failed, otherwise the result is the transport's main function it enters. A missing one is a call
  through a pointer that was never set.
\<close>

definition agent_main ::
  "agent_config \<Rightarrow> latency_stats \<Rightarrow> int \<Rightarrow> stats_state \<Rightarrow> (tcp_main option \<times> stats_state) c_result" where
  "agent_main cfg junk affinity st =
     c_bind (init_per_thread_stats junk st) (\<lambda>st1.
     if affinity \<noteq> 0 then Inr (None, st1)
     else case Option.bind (init_transport_protocol (cfg_tp_type cfg)) (\<lambda>tp. tp_main tp (cfg_atype cfg)) of None \<Rightarrow> Inl Undefined | Some f \<Rightarrow> Inr (Some f, st1))"

text \<open>
  The environment of \<open>main\<close>: the options, whether the two allocations succeed, per thread what
  \<open>pthread_create\<close> and \<open>pthread_setaffinity_np\<close> return and what \<open>malloc\<close> finds in memory, and the
  calls for the manager's connection and for the network card. The result of \<open>enable_nic_timestamping\<close> is not looked at.
\<close>

record boot_env =
  bt_options :: "(char \<times> string) list"
  bt_manager_malloc :: bool
  bt_tids_malloc :: bool
  bt_agg :: latency_stats
  bt_create :: "nat \<Rightarrow> int"
  bt_affinity :: "nat \<Rightarrow> int"
  bt_junk :: "nat \<Rightarrow> latency_stats"
  bt_sock :: int
  bt_bind :: int
  bt_accept :: int
  bt_linger :: int
  bt_ioctl :: "string \<Rightarrow> hwtstamp_config \<Rightarrow> int"

fun spawn_agents ::
  "agent_config \<Rightarrow> boot_env \<Rightarrow> nat \<Rightarrow> nat \<Rightarrow> stats_state \<Rightarrow> (tcp_main option list \<times> stats_state) c_result" where
  "spawn_agents cfg e 0 i st = Inr ([], st)"
| "spawn_agents cfg e (Suc k) i st =
     (if bt_create e i \<noteq> 0 then Inl (Process_Exit (- 1))
      else
        c_bind (agent_main cfg (bt_junk e i) (bt_affinity e i) st) (\<lambda>(f, st1).
        c_bind (spawn_agents cfg e k (i + 1) st1) (\<lambda>(fs, st2). Inr (f # fs, st2))))"

text \<open>\<open>main\<close> up to the call of \<open>manager_run\<close>: what the threads execute, and the manager's state.\<close>

definition agent_boot :: "boot_env \<Rightarrow> (tcp_main option list \<times> manager_state) c_result" where
  "agent_boot e =
     c_bind (parse_arguments (bt_options e)) (\<lambda>r.
     case r of
       None \<Rightarrow> Inl (Process_Exit (- 1))
     | Some cfg \<Rightarrow>
         c_bind (if cfg_atype cfg = SYMMETRIC_NIC_TIMESTAMP_AGENT
                 then enable_nic_timestamping (bt_ioctl e) IF_NAME else Inr 0) (\<lambda>_.
         c_bind (manager_init (bt_manager_malloc e)) (\<lambda>ret.
         if ret \<noteq> 0 then Inl (Process_Exit (- 1))
         else if \<not> bt_tids_malloc e then Inl (Process_Exit (- 1))
         else c_bind (spawn_agents cfg e (nat (cfg_thread_count cfg)) 0 initial_stats) (\<lambda>(fs, st).
              Inr (fs, initial_manager (bt_agg e) cfg st)))))"

text \<open>
  \<open>main\<close> over the messages that have arrived: \<open>None\<close> while the manager is still in its loop, \<open>Some 0\<close>
  when the coordinator has closed its connection and \<open>main\<close> waits for its threads.
\<close>

definition agent_program ::
  "(dbl \<Rightarrow> byte list) \<Rightarrow> boot_env \<Rightarrow> message_env list \<Rightarrow> (int option \<times> byte list) c_result" where
  "agent_program enc e msgs =
     c_bind (agent_boot e) (\<lambda>(fs, s).
     c_bind (manager_connect (bt_sock e) (bt_bind e) (bt_accept e) (bt_linger e)) (\<lambda>ok.
     if \<not> ok then Inl (Process_Exit (- 1))
     else c_bind (manager_run enc msgs s) (\<lambda>(r, out, s').
          case r of
            None \<Rightarrow> Inr (None, out)
          | Some v \<Rightarrow> if v \<noteq> 0 then Inl (Process_Exit (- 1)) else Inr (Some 0, out))))"

subsection \<open>A started agent\<close>

text \<open>A machine on which every call of the start-up succeeds.\<close>

definition boots :: "boot_env \<Rightarrow> bool" where
  "boots e \<longleftrightarrow> bt_manager_malloc e \<and> bt_tids_malloc e \<and> (\<forall>i. bt_create e i = 0 \<and> bt_affinity e i = 0
     \<and> length (lt_samples (bt_junk e i)) = MAX_PER_THREAD_SAMPLES)"

lemma spawn_agents_eq:
  assumes "boots e" and "init_tcp (cfg_atype cfg) = Some f" and "cfg_tp_type cfg = TCP"
  shows "spawn_agents cfg e k i st =
    c_bind (register_threads (map (bt_junk e) [i ..< i + k]) st) (\<lambda>st'. Inr (replicate k (Some f), st'))"
proof (induction k arbitrary: i st)
  case (Suc k)
  have "[i ..< i + Suc k] = i # [i + 1 ..< i + 1 + k]" by (simp add: upt_conv_Cons)
  then show ?case
    using assms Suc.IH [of "i + 1"]
    by (cases "init_per_thread_stats (bt_junk e i) st") (auto simp: boots_def agent_main_def c_bind_def split: sum.splits)
qed simp

lemma register_threads_result:
  "register_threads js st =
     (if js = [] \<or> length (all_stats st) + length js \<le> 64
      then Inr (st\<lparr>all_stats := all_stats st @ js, all_tx := all_tx st @ replicate (length js) zero_tx\<rparr>)
      else Inl Assertion_Failed)"
proof (induction js arbitrary: st)
  case (Cons j js)
  show ?case
    by (cases "length (all_stats st) < 64") (auto simp: init_per_thread_stats_def Let_def Cons.IH)
qed simp

text \<open>
  C21. Starting the agent: when the arguments are accepted and every call succeeds, an agent with at most
  64 threads runs the main function of its type in each of them and starts in a state that satisfies
  the invariant of the statistics; with more threads the assertion of \<open>init_per_thread_stats\<close> ends it
  before a 65th thread writes behind the arrays.
\<close>

theorem agent_boot_establishes:
  assumes "parse_arguments (bt_options e) = Inr (Some cfg)" and "boots e"
  shows "if nat (cfg_thread_count cfg) \<le> 64 then
      \<exists>f s. init_tcp (cfg_atype cfg) = Some f \<and> agent_boot e = Inr (replicate (nat (cfg_thread_count cfg)) (Some f), s)
        \<and> reachable enc cfg s \<and> sys_inv cfg s \<and> mg_cfg s = cfg \<and> \<not> agents_should_load s \<and> \<not> agents_should_measure s
    else agent_boot e = Inl Assertion_Failed"
proof -
  let ?n = "nat (cfg_thread_count cfg)" and ?js = "map (bt_junk e) [0 ..< nat (cfg_thread_count cfg)]"
  have tcp: "cfg_tp_type cfg = TCP" and "cfg_atype cfg \<noteq> AGENT_NR"
    using parse_arguments_typed [OF assms(1)] by (simp_all add: config_typed_def)
  then obtain f where f: "init_tcp (cfg_atype cfg) = Some f" using init_tcp_Some by blast
  have boot: "agent_boot e = c_bind (register_threads ?js initial_stats) (\<lambda>st.
      Inr (replicate ?n (Some f), initial_manager (bt_agg e) cfg st))"
    using assms spawn_agents_eq [OF assms(2) f tcp, of ?n 0 initial_stats] enable_nic_named [of "bt_ioctl e"]
    by (cases "register_threads ?js initial_stats") (auto simp: agent_boot_def manager_init_def boots_def)
  show ?thesis
  proof (cases "?n \<le> 64")
    case True
    then obtain st where st: "register_threads ?js initial_stats = Inr st"
      by (simp add: register_threads_result initial_stats_def)
    then have "reachable enc cfg (initial_manager (bt_agg e) cfg st)"
      using assms(2) by (intro reachable.start) (auto simp: boots_def)
    then show ?thesis
      using True boot st f reachable_inv by (auto simp: initial_manager_def)
  next
    case False
    then show ?thesis using boot by (auto simp: register_threads_result initial_stats_def)
  qed
qed

text \<open>Two threads of the symmetric agent.\<close>

definition ex_boot :: boot_env where
  "ex_boot = \<lparr>bt_options = [(CHR ''t'', ''2''), (CHR ''a'', ''3'')], bt_manager_malloc = True, bt_tids_malloc = True,
     bt_agg = ex_junk, bt_create = (\<lambda>_. 0), bt_affinity = (\<lambda>_. 0), bt_junk = (\<lambda>_. ex_junk),
     bt_sock = 3, bt_bind = 0, bt_accept = 4, bt_linger = 0,
     bt_ioctl = (\<lambda>_ _. 0)\<rparr>"

lemma ex_boot_args:
  "parse_arguments (bt_options ex_boot) = Inr (Some (zero_config\<lparr>cfg_thread_count := 2, cfg_atype := SYMMETRIC_AGENT\<rparr>))"
proof -
  have two: "show_nat_aux 2 = ''2''" "show_nat_aux 3 = ''3''"
    by (simp_all add: show_nat_aux.simps [of 2] show_nat_aux.simps [of 3] digit_char_def char_of_eq_iff)
  have "atoi ''2'' = Inr 2" "atoi ''3'' = Inr 3" using atoi_show [of 2] atoi_show [of 3] two by simp_all
  then show ?thesis
    by (simp add: parse_arguments_def ex_boot_def parse_option_def Let_def parse_agent_type_def zero_config_def)
qed

theorem agent_boot_establishes_witness:
  "\<exists>s. agent_boot ex_boot = Inr ([Some Symmetric_main, Some Symmetric_main], s) \<and> \<not> agents_should_measure s"
proof -
  have "boots ex_boot" by (simp add: boots_def ex_boot_def ex_junk_def zero_lat_def)
  from agent_boot_establishes [OF ex_boot_args this, of "\<lambda>_. []"] show ?thesis
    by (auto simp: init_tcp_def numeral_2_eq_2)
qed

end
