(* ===== verification/Server.thy ===== *)
theory Server
  imports Agent
begin

text \<open>
  \<open>linux-synthetic.c\<close>: the server the synthetic protocol talks to. It reads eight bytes, spins for that
  many microseconds and answers with eight bytes. The clock is the sequence of the values \<open>time_us\<close>
  returns; a thread's state counts how many it has read, so that waiting is reading on. What the system
  calls return is part of an event. \<open>'a run\<close> is \<open>None\<close> for a call that never returns.
\<close>

subsection \<open>Runs that may not return\<close>

type_synonym 'a run = "'a c_result option"

definition r_bind :: "'a run \<Rightarrow> ('a \<Rightarrow> 'b run) \<Rightarrow> 'b run" where
  "r_bind m f = (case m of None \<Rightarrow> None | Some (Inl e) \<Rightarrow> Some (Inl e) | Some (Inr x) \<Rightarrow> f x)"

lemma r_bind_simps [simp]:
  "r_bind None f = None" "r_bind (Some (Inl e)) f = Some (Inl e)" "r_bind (Some (Inr x)) f = f x"
  by (simp_all add: r_bind_def)

lemma r_bind_eq_Inr [c_result_simps]:
  "r_bind m f = Some (Inr y) \<longleftrightarrow> (\<exists>x. m = Some (Inr x) \<and> f x = Some (Inr y))"
  by (auto simp: r_bind_def split: option.splits sum.splits)

lemma r_bind_eq_None: "r_bind m f = None \<longleftrightarrow> m = None \<or> (\<exists>x. m = Some (Inr x) \<and> f x = None)"
  by (auto simp: r_bind_def split: option.splits sum.splits)

subsection \<open>Spinning\<close>

text \<open>\<open>i\<close> is the number of clock readings made before; the result is their number afterwards.\<close>

partial_function (option) spin_loop :: "(nat \<Rightarrow> int) \<Rightarrow> int \<Rightarrow> nat \<Rightarrow> nat option" where
  "spin_loop clock deadline i = (if clock i < deadline then spin_loop clock deadline (i + 1) else Some (i + 1))"

definition spin :: "(nat \<Rightarrow> int) \<Rightarrow> int \<Rightarrow> nat \<Rightarrow> nat run" where
  "spin clock usecs i =
     (let start = clock i; deadline = start + usecs in
      if \<not> (- (2 ^ 63) \<le> deadline \<and> deadline < 2 ^ 63) then Some (Inl Undefined)
      else map_option Inr (spin_loop clock deadline (i + 1)))"

subsection \<open>One request\<close>

text \<open>What \<open>read\<close> returns with the bytes it stores, and what \<open>write\<close> returns.\<close>

record req_env =
  rq_ret :: int
  rq_data :: "byte list"
  rq_written :: int

definition reply_bytes :: "byte list" where
  "reply_bytes = long_bytes 42"

definition process_req :: "(nat \<Rightarrow> int) \<Rightarrow> req_env \<Rightarrow> nat \<Rightarrow> (nat \<times> byte list) run" where
  "process_req clock e i =
     r_bind (Some (c_assert (rq_ret e = 8))) (\<lambda>_.
     r_bind (spin clock (bytes_long (rq_data e)) i) (\<lambda>i'.
     r_bind (Some (c_assert (rq_written e = 8))) (\<lambda>_.
     Some (Inr (i', reply_bytes)))))"

subsection \<open>A server thread\<close>

text \<open>
  \<open>watched\<close>: the descriptors added to the epoll set besides the listening socket (which is registered
  under 0); \<open>replies\<close>: what has been written, and to whom. An event carries the registered descriptor
  and what the calls made for it return.
\<close>

record server_state =
  watched :: "int list"
  readings :: nat
  replies :: "(int \<times> byte list) list"

record ready_event =
  sv_fd :: int
  sv_hup_err :: bool
  sv_accept :: int
  sv_getfl :: int
  sv_setfl :: int
  sv_nodelay :: int
  sv_add :: int
  sv_req :: req_env

definition setnonblocking :: "int \<Rightarrow> int \<Rightarrow> unit c_result" where
  "setnonblocking getfl setfl = c_bind (c_assert (0 \<le> getfl)) (\<lambda>_. c_assert (0 \<le> setfl))"

definition epoll_ctl_add :: "int \<Rightarrow> int \<Rightarrow> server_state \<Rightarrow> server_state c_result" where
  "epoll_ctl_add ret fd s =
     (if ret = - 1 then Inl (Process_Exit 1) else Inr (s\<lparr>watched := watched s @ [fd]\<rparr>))"

definition accept_client :: "ready_event \<Rightarrow> server_state \<Rightarrow> server_state c_result" where
  "accept_client ev s =
     (if sv_accept ev = - 1 then Inl (Process_Exit 1)
      else
        c_bind (setnonblocking (sv_getfl ev) (sv_setfl ev)) (\<lambda>_.
        if sv_nodelay ev \<noteq> 0 then Inl (Process_Exit 1) else epoll_ctl_add (sv_add ev) (sv_accept ev) s))"

text \<open>Closing a descriptor removes it from the epoll set.\<close>

definition server_event :: "(nat \<Rightarrow> int) \<Rightarrow> ready_event \<Rightarrow> server_state \<Rightarrow> server_state run" where
  "server_event clock ev s =
     (if sv_fd ev = 0 then Some (accept_client ev s)
      else if sv_hup_err ev then Some (Inr (s\<lparr>watched := removeAll (sv_fd ev) (watched s)\<rparr>))
      else
        r_bind (process_req clock (sv_req ev) (readings s)) (\<lambda>(i, reply).
        Some (Inr (s\<lparr>readings := i, replies := replies s @ [(sv_fd ev, reply)]\<rparr>))))"

fun server_events :: "(nat \<Rightarrow> int) \<Rightarrow> ready_event list \<Rightarrow> server_state \<Rightarrow> server_state run" where
  "server_events clock [] s = Some (Inr s)"
| "server_events clock (ev # evs) s = r_bind (server_event clock ev s) (server_events clock evs)"

text \<open>One turn of the loop: \<open>epoll_wait\<close> returns \<open>nfds\<close> and that many events.\<close>

definition server_iter :: "(nat \<Rightarrow> int) \<Rightarrow> int \<Rightarrow> ready_event list \<Rightarrow> server_state \<Rightarrow> server_state run" where
  "server_iter clock nfds evs s =
     r_bind (Some (c_assert (0 < nfds))) (\<lambda>_. server_events clock (take (nat nfds) evs) s)"

text \<open>
  The calls before the loop. The test of the socket is for 0, not for -1; the result of
  \<open>epoll_create1\<close> is not looked at.
\<close>

record listen_env =
  li_socket :: int
  li_getfl :: int
  li_setfl :: int
  li_reuseport :: int
  li_reuseaddr :: int
  li_bind :: int
  li_listen :: int
  li_add :: int

definition exit_if :: "bool \<Rightarrow> unit c_result" where
  "exit_if b = (if b then Inl (Process_Exit 1) else Inr ())"

definition server_listen :: "listen_env \<Rightarrow> server_state c_result" where
  "server_listen e =
     c_bind (exit_if (li_socket e = 0)) (\<lambda>_.
     c_bind (setnonblocking (li_getfl e) (li_setfl e)) (\<lambda>_.
     c_bind (exit_if (li_reuseport e \<noteq> 0)) (\<lambda>_.
     c_bind (exit_if (li_reuseaddr e \<noteq> 0)) (\<lambda>_.
     c_bind (exit_if (li_bind e \<noteq> 0)) (\<lambda>_.
     c_bind (exit_if (li_listen e \<noteq> 0)) (\<lambda>_.
     c_bind (c_assert (li_add e = 0)) (\<lambda>_.
     Inr \<lparr>watched = [], readings = 0, replies = []\<rparr>)))))))"

text \<open>\<open>tcp_thread_main\<close> does not return; this is its state after the given turns.\<close>

fun server_turns :: "(nat \<Rightarrow> int) \<Rightarrow> (int \<times> ready_event list) list \<Rightarrow> server_state \<Rightarrow> server_state run" where
  "server_turns clock [] s = Some (Inr s)"
| "server_turns clock ((nfds, evs) # ts) s = r_bind (server_iter clock nfds evs s) (server_turns clock ts)"

definition tcp_thread_main :: "(nat \<Rightarrow> int) \<Rightarrow> listen_env \<Rightarrow> (int \<times> ready_event list) list \<Rightarrow> server_state run" where
  "tcp_thread_main clock e ts = r_bind (Some (server_listen e)) (server_turns clock ts)"

subsection \<open>Starting the threads\<close>

text \<open>
  \<open>main\<close>: the address and port every thread listens on and the arguments of the calls of
  \<open>tcp_thread_main\<close>; \<open>None\<close> is the return after the usage message. \<open>inet_addr\<close> and the results of
  \<open>pthread_create\<close> are arguments.
\<close>

record server_config =
  sc_ip :: u32
  sc_port :: u16
  sc_threads :: "int list"

definition htons :: "u16 \<Rightarrow> u16" where
  "htons w = word_of_nat (unat w mod 256 * 256 + unat w div 256)"

fun spawn_loop :: "(int \<Rightarrow> int) \<Rightarrow> int list \<Rightarrow> unit c_result" where
  "spawn_loop create [] = Inr ()"
| "spawn_loop create (i # is) = (if create i \<noteq> 0 then Inl (Process_Exit (- 1)) else spawn_loop create is)"

definition server_main :: "(string \<Rightarrow> u32) \<Rightarrow> (int \<Rightarrow> int) \<Rightarrow> string list \<Rightarrow> server_config option c_result" where
  "server_main inet_addr create argv =
     (if length argv < 3 then Inr None
      else
        c_bind (atoi (argv ! 1)) (\<lambda>thread_no.
        c_bind (atoi (argv ! 2)) (\<lambda>port.
        c_bind (spawn_loop create [1 .. thread_no - 1]) (\<lambda>_.
        Inr (Some \<lparr>sc_ip = (if length argv = 4 then inet_addr (argv ! 3) else 0),
                   sc_port = htons (word_of_int port),
                   sc_threads = [1 .. thread_no - 1] @ [0]\<rparr>)))))"

subsection \<open>How long it spins\<close>

lemma spin_loop_reached:
  assumes "i \<le> j" and "\<not> clock j < deadline" and "\<forall>k. i \<le> k \<and> k < j \<longrightarrow> clock k < deadline"
  shows "spin_loop clock deadline i = Some (j + 1)"
  using assms
proof (induction "j - i" arbitrary: i)
  case 0
  then show ?case by (simp add: spin_loop.simps)
next
  case (Suc n)
  then have "clock i < deadline" "spin_loop clock deadline (i + 1) = Some (j + 1)" by simp_all
  then show ?case by (simp add: spin_loop.simps)
qed

text \<open>A result means that the deadline has been reached.\<close>

lemma spin_loop_returns:
  assumes "spin_loop clock deadline i = Some r"
  shows "\<exists>j \<ge> i. \<not> clock j < deadline"
proof (rule spin_loop.raw_induct [where P = "\<lambda>clock deadline i r. \<exists>j \<ge> i. \<not> clock j < deadline", OF _ assms])
  fix loop :: "(nat \<Rightarrow> int) \<Rightarrow> int \<Rightarrow> nat \<Rightarrow> nat option" and clock :: "nat \<Rightarrow> int" and deadline i r
  assume IH: "\<And>clock deadline i r. loop clock deadline i = Some r \<Longrightarrow> \<exists>j \<ge> i. \<not> clock j < deadline"
    and r: "(if clock i < deadline then loop clock deadline (i + 1) else Some (i + 1)) = Some r"
  show "\<exists>j \<ge> i. \<not> clock j < deadline"
  proof (cases "clock i < deadline")
    case True
    then obtain j where "i + 1 \<le> j" "\<not> clock j < deadline" using IH [of clock deadline "i + 1" r] r by auto
    then show ?thesis by (intro exI [of _ j]) simp
  qed auto
qed

text \<open>The first reading after \<open>i\<close> that is at least \<open>deadline\<close>.\<close>

definition first_reached :: "(nat \<Rightarrow> int) \<Rightarrow> int \<Rightarrow> nat \<Rightarrow> nat" where
  "first_reached clock deadline i = (LEAST j. i < j \<and> deadline \<le> clock j)"

lemma first_reached:
  assumes "i < j" and "deadline \<le> clock j"
  shows "i < first_reached clock deadline i" and "deadline \<le> clock (first_reached clock deadline i)"
    and "\<forall>k. i < k \<and> k < first_reached clock deadline i \<longrightarrow> clock k < deadline"
proof -
  show "i < first_reached clock deadline i" "deadline \<le> clock (first_reached clock deadline i)"
    using LeastI [of "\<lambda>j. i < j \<and> deadline \<le> clock j" j] assms by (simp_all add: first_reached_def)
  show "\<forall>k. i < k \<and> k < first_reached clock deadline i \<longrightarrow> clock k < deadline"
    using not_less_Least [of _ "\<lambda>j. i < j \<and> deadline \<le> clock j"] by (auto simp: first_reached_def not_le)
qed

lemma spin_loop_eq:
  "spin_loop clock deadline (i + 1) =
     (if \<exists>j > i. deadline \<le> clock j then Some (first_reached clock deadline i + 1) else None)"
proof (cases "\<exists>j > i. deadline \<le> clock j")
  case True
  then obtain j where "i < j" "deadline \<le> clock j" by blast
  note f = first_reached [where clock = clock, OF this]
  have "spin_loop clock deadline (i + 1) = Some (first_reached clock deadline i + 1)"
    by (rule spin_loop_reached) (use f in auto)
  then show ?thesis using True by simp
next
  case False
  have "spin_loop clock deadline (i + 1) = None"
  proof (rule ccontr)
    assume "spin_loop clock deadline (i + 1) \<noteq> None"
    then obtain j where "i + 1 \<le> j" "\<not> clock j < deadline" using spin_loop_returns by blast
    with False show False by (metis Suc_eq_plus1 Suc_le_lessD not_less)
  qed
  then show ?thesis using False by simp
qed

lemma spin_eq:
  assumes "- (2 ^ 63) \<le> clock i + usecs" and "clock i + usecs < 2 ^ 63"
  shows "spin clock usecs i =
     (if \<exists>j > i. clock i + usecs \<le> clock j then Some (Inr (first_reached clock (clock i + usecs) i + 1)) else None)"
  using assms spin_loop_eq [of clock "clock i + usecs" i] by (simp add: spin_def Let_def)

text \<open>
  C24. The server works for exactly as long as it is told: \<open>spin\<close> returns with the first clock reading
  that is at least \<open>usecs\<close> past its start, whatever the clock does in between, and never returns if
  there is none; a deadline beyond the range of a \<open>long\<close> is an overflow.
\<close>

theorem spin_waits:
  "spin clock usecs i =
     (if clock i + usecs < - (2 ^ 63) \<or> 2 ^ 63 \<le> clock i + usecs then Some (Inl Undefined)
      else if \<exists>j > i. clock i + usecs \<le> clock j
      then Some (Inr ((LEAST j. i < j \<and> clock i + usecs \<le> clock j) + 1)) else None)"
  using spin_eq [of clock i usecs] by (auto simp: spin_def Let_def first_reached_def)

theorem spin_waits_witness:
  "spin (\<lambda>n. 3 * int n) 10 0 = Some (Inr 5)"
proof -
  have "(LEAST j. 0 < j \<and> (10 :: int) \<le> 3 * int j) = 4"
    by (rule Least_equality) auto
  moreover have "\<exists>j > 0. (10 :: int) \<le> 3 * int j" by (rule exI [of _ 4]) simp
  ultimately show ?thesis by (subst spin_waits) simp
qed

subsection \<open>Requests and replies\<close>

text \<open>A client's request, read whole, and a reply the system accepts whole.\<close>

definition whole_exchange :: "byte list \<Rightarrow> req_env" where
  "whole_exchange req = \<lparr>rq_ret = int (length req), rq_data = req, rq_written = 8\<rparr>"

lemma process_req_eq:
  assumes "rq_ret e = 8" and "rq_written e = 8"
  shows "process_req clock e i = r_bind (spin clock (bytes_long (rq_data e)) i) (\<lambda>i'. Some (Inr (i', reply_bytes)))"
  using assms by (simp add: process_req_def)

lemma synthetic_request:
  assumes "synthetic_create_request g d = Inr (reqs, arg)"
  shows "\<exists>v. reqs = [long_bytes v] \<and> arg = Arg_long v \<and> - (2 ^ 63) \<le> v \<and> v < 2 ^ 63 \<and> bytes_long (long_bytes v) = v"
proof -
  obtain x v where x: "generate g d = Inr x" "c_lround x = Inr v" "reqs = [long_bytes v]" "arg = Arg_long v"
    using assms by (auto simp: synthetic_create_request_def c_result_simps)
  then have "- (2 ^ 63) \<le> v" "v < 2 ^ 63" by (cases x; simp split: if_splits)+
  with x show ?thesis by (simp add: bytes_roundtrip)
qed

text \<open>
  C23. Client and server agree on the synthetic protocol: a request the client has made of its draw
  \<open>v\<close> makes the server wait for the first clock reading at least \<open>v\<close> microseconds after it read the
  request, and its answer is counted by the client as exactly one response.
\<close>

theorem synthetic_exchange:
  assumes "create_request (Proto_synthetic g) d arg = Inr (reqs, Arg_long v)"
    and "0 \<le> clock i" and "clock i + v < 2 ^ 63" and "i < j" and "clock i + v \<le> clock j"
  shows "\<exists>req i'. reqs = [req]
    \<and> process_req clock (whole_exchange req) i = Some (Inr (i' + 1, reply_bytes))
    \<and> i < i' \<and> i' \<le> j \<and> clock i + v \<le> clock i' \<and> (\<forall>k. i < k \<and> k < i' \<longrightarrow> clock k < clock i + v)
    \<and> consume_response (Proto_synthetic g) (length reply_bytes) = Inr \<lparr>br_bytes = 8, br_reqs = 1\<rparr>"
proof -
  have req: "reqs = [long_bytes v]" "- (2 ^ 63) \<le> v" "bytes_long (long_bytes v) = v"
    using synthetic_request [of g d reqs "Arg_long v"] assms(1) by auto
  let ?e = "whole_exchange (long_bytes v)"
  have e: "rq_ret ?e = 8" "rq_written ?e = 8" "rq_data ?e = long_bytes v" by (simp_all add: whole_exchange_def)
  define i' where "i' = first_reached clock (clock i + v) i"
  note f = first_reached [where clock = clock, OF assms(4,5), folded i'_def]
  have "- (2 ^ 63) \<le> clock i + v" using assms(2) req(2) by linarith
  then have "process_req clock ?e i = Some (Inr (i' + 1, reply_bytes))"
    using assms(3,4,5) by (auto simp: process_req_eq [OF e(1,2)] e(3) req(3) spin_eq i'_def)
  moreover have "i' \<le> j" using f(3) assms(4,5) by (meson not_le not_less)
  moreover have "length reply_bytes = 8" by (simp add: reply_bytes_def)
  ultimately show ?thesis using f req(1)
    by (intro exI [of _ "long_bytes v"] exI [of _ i']) (simp add: synthetic_consume_response_def Let_def)
qed

theorem synthetic_exchange_witness:
  "\<exists>req i'. process_req (\<lambda>n. 3 * int n) (whole_exchange req) 0 = Some (Inr (i' + 1, reply_bytes))
     \<and> 10 \<le> 3 * int i' \<and> i' \<le> 4"
proof -
  have "create_request (Proto_synthetic (Fixed_gen (Fin 10))) \<lparr>uniform_draw = Fin 0, normal_draw = Fin 0\<rparr> Arg_NULL
      = Inr ([long_bytes 10], Arg_long 10)"
    using round_half_away_of_int [of 10] by (simp add: synthetic_create_request_def)
  from synthetic_exchange [OF this, of "\<lambda>n. 3 * int n" 0 4] show ?thesis by auto
qed

subsection \<open>A turn of the loop\<close>

definition readable :: "ready_event \<Rightarrow> bool" where
  "readable ev \<longleftrightarrow> sv_fd ev \<noteq> 0 \<and> \<not> sv_hup_err ev"

definition acceptable :: "ready_event \<Rightarrow> bool" where
  "acceptable ev \<longleftrightarrow> sv_accept ev \<noteq> - 1 \<and> 0 \<le> sv_getfl ev \<and> 0 \<le> sv_setfl ev \<and> sv_nodelay ev = 0 \<and> sv_add ev \<noteq> - 1"

text \<open>What one event does to the descriptors watched.\<close>

definition watched_after :: "ready_event \<Rightarrow> int list \<Rightarrow> int list" where
  "watched_after ev ws =
     (if sv_fd ev = 0 then ws @ [sv_accept ev] else if sv_hup_err ev then removeAll (sv_fd ev) ws else ws)"

lemma accept_client_eq_Inr:
  "accept_client ev s = Inr s' \<longleftrightarrow> acceptable ev \<and> s' = s\<lparr>watched := watched s @ [sv_accept ev]\<rparr>"
  by (auto simp: accept_client_def acceptable_def setnonblocking_def epoll_ctl_add_def c_result_simps)

lemma process_req_eq_Inr:
  "process_req clock e i = Some (Inr (i', reply)) \<longleftrightarrow> rq_ret e = 8 \<and> rq_written e = 8 \<and> reply = reply_bytes
     \<and> spin clock (bytes_long (rq_data e)) i = Some (Inr i')"
  by (auto simp: process_req_def c_result_simps)

text \<open>
  Whether the clock gets as far as the requests ask, one after the other, and how often it has been
  read then.
\<close>

definition spin_end :: "(nat \<Rightarrow> int) \<Rightarrow> int \<Rightarrow> nat \<Rightarrow> nat" where
  "spin_end clock usecs i = first_reached clock (clock i + usecs) i + 1"

fun clock_lasts :: "(nat \<Rightarrow> int) \<Rightarrow> int list \<Rightarrow> nat \<Rightarrow> bool" where
  "clock_lasts clock [] i = True"
| "clock_lasts clock (v # vs) i =
     (- (2 ^ 63) \<le> clock i + v \<and> clock i + v < 2 ^ 63 \<and> (\<exists>j > i. clock i + v \<le> clock j)
      \<and> clock_lasts clock vs (spin_end clock v i))"

lemma spin_eq_Inr:
  "spin clock v i = Some (Inr i') \<longleftrightarrow> clock_lasts clock [v] i \<and> i' = spin_end clock v i"
proof (cases "- (2 ^ 63) \<le> clock i + v \<and> clock i + v < 2 ^ 63")
  case True
  then show ?thesis by (auto simp: spin_eq spin_end_def)
next
  case False
  then show ?thesis by (auto simp: spin_def Let_def)
qed

definition spin_time :: "ready_event \<Rightarrow> int" where
  "spin_time ev = bytes_long (rq_data (sv_req ev))"

definition event_served :: "ready_event \<Rightarrow> bool" where
  "event_served ev \<longleftrightarrow> (if sv_fd ev = 0 then acceptable ev else sv_hup_err ev \<or> rq_ret (sv_req ev) = 8 \<and> rq_written (sv_req ev) = 8)"

definition after_event :: "(nat \<Rightarrow> int) \<Rightarrow> ready_event \<Rightarrow> server_state \<Rightarrow> server_state" where
  "after_event clock ev s =
     s\<lparr>watched := watched_after ev (watched s),
       readings := (if readable ev then spin_end clock (spin_time ev) (readings s) else readings s),
       replies := replies s @ (if readable ev then [(sv_fd ev, reply_bytes)] else [])\<rparr>"

lemma server_event_eq_Inr:
  "server_event clock ev s = Some (Inr s') \<longleftrightarrow>
     event_served ev \<and> (readable ev \<longrightarrow> clock_lasts clock [spin_time ev] (readings s)) \<and> s' = after_event clock ev s"
  by (auto simp: server_event_def event_served_def readable_def after_event_def watched_after_def spin_time_def
      accept_client_eq_Inr process_req_eq_Inr spin_eq_Inr c_result_simps)

lemma server_events_eq_Inr:
  "server_events clock evs s = Some (Inr s') \<longleftrightarrow>
     list_all event_served evs \<and> clock_lasts clock (map spin_time (filter readable evs)) (readings s)
     \<and> s' = fold (after_event clock) evs s"
proof (induction evs arbitrary: s)
  case (Cons ev evs)
  show ?case by (auto simp: c_result_simps server_event_eq_Inr Cons.IH after_event_def)
qed auto

lemma fold_after_event:
  "replies (fold (after_event clock) evs s) = replies s @ map (\<lambda>ev. (sv_fd ev, reply_bytes)) (filter readable evs)
   \<and> watched (fold (after_event clock) evs s) = fold watched_after evs (watched s)
   \<and> readings (fold (after_event clock) evs s) = fold (spin_end clock) (map spin_time (filter readable evs)) (readings s)"
  by (induction evs arbitrary: s) (simp_all add: after_event_def)

text \<open>
  C22. A turn of the server's loop succeeds exactly when every new connection could be set up, every
  readable connection delivered its eight bytes in one read and took the eight bytes of the answer, and
  the clock ran on long enough; then every readable connection has been answered once, in the order of
  the events, and the descriptors watched are those accepted and not hung up. In particular a client
  that closes its connection in the normal way (a read of 0 bytes) ends the server.
\<close>

theorem server_iter_answers_all:
  "server_iter clock nfds evs s = Some (Inr s') \<longleftrightarrow>
     0 < nfds \<and> list_all event_served (take (nat nfds) evs)
     \<and> clock_lasts clock (map spin_time (filter readable (take (nat nfds) evs))) (readings s)
     \<and> replies s' = replies s @ map (\<lambda>ev. (sv_fd ev, reply_bytes)) (filter readable (take (nat nfds) evs))
     \<and> watched s' = fold watched_after (take (nat nfds) evs) (watched s)
     \<and> readings s' = fold (spin_end clock) (map spin_time (filter readable (take (nat nfds) evs))) (readings s)"
  using fold_after_event [of clock "take (nat nfds) evs" s]
  by (auto simp: server_iter_def c_result_simps server_events_eq_Inr intro: server_state.equality)

text \<open>A client on descriptor 7 asks for one microsecond, and closes its connection afterwards.\<close>

definition ex_request :: ready_event where
  "ex_request = \<lparr>sv_fd = 7, sv_hup_err = False, sv_accept = 0, sv_getfl = 0, sv_setfl = 0, sv_nodelay = 0, sv_add = 0,
     sv_req = whole_exchange (long_bytes 1)\<rparr>"

definition ex_close :: ready_event where
  "ex_close = ex_request\<lparr>sv_req := \<lparr>rq_ret = 0, rq_data = [], rq_written = 8\<rparr>\<rparr>"

theorem server_iter_answers_all_witness:
  "(\<exists>s'. server_iter int 1 [ex_request] \<lparr>watched = [7], readings = 0, replies = []\<rparr> = Some (Inr s')
     \<and> replies s' = [(7, reply_bytes)])
   \<and> (\<nexists>s'. server_iter int 1 [ex_close] \<lparr>watched = [7], readings = 0, replies = []\<rparr> = Some (Inr s'))"
proof
  let ?s = "\<lparr>watched = [7], readings = 0, replies = []\<rparr>"
  have time: "spin_time ex_request = 1"
    by (simp add: spin_time_def ex_request_def whole_exchange_def bytes_roundtrip)
  have "\<exists>j > 0. (1 :: int) \<le> int j" by (rule exI [of _ 1]) simp
  then have "clock_lasts int [spin_time ex_request] 0" by (simp add: time)
  then show "\<exists>s'. server_iter int 1 [ex_request] ?s = Some (Inr s') \<and> replies s' = [(7, reply_bytes)]"
    by (intro exI [of _ "\<lparr>watched = [7], readings = spin_end int 1 0, replies = [(7, reply_bytes)]\<rparr>"])
      (subst server_iter_answers_all,
       simp add: time readable_def event_served_def watched_after_def, simp add: ex_request_def whole_exchange_def)
  show "\<nexists>s'. server_iter int 1 [ex_close] ?s = Some (Inr s')"
    by (simp add: server_iter_answers_all event_served_def ex_close_def ex_request_def)
qed

end
