(* ===== verification/Clocks.thy ===== *)
theory Clocks
  imports Timespec "HOL-Library.Log_Nat"
begin

unbundle bit_operations_syntax

text \<open>
  \<open>misc.h\<close>: the clocks. \<open>time_ns\<close> computes its nanoseconds in a \<open>double\<close>, so unlike elsewhere in the
  development the rounding of a \<open>double\<close> matters and is modelled: to the nearest number with 53
  significant bits, ties to even. What the clients need of it is the locale \<open>double_rounding\<close>.
\<close>

subsection \<open>Rounding\<close>

locale double_rounding =
  fixes rnd :: "int \<Rightarrow> int"
  assumes exact: "0 \<le> m \<Longrightarrow> m \<le> 2 ^ 53 \<Longrightarrow> rnd (m * 2 ^ k) = m * 2 ^ k"
    and mono: "0 \<le> a \<Longrightarrow> a \<le> b \<Longrightarrow> rnd a \<le> rnd b"
    and error: "0 \<le> a \<Longrightarrow> \<bar>rnd a - a\<bar> * 2 ^ 53 \<le> a"
begin

text \<open>Whole seconds in nanoseconds are multiples of \<open>2\<^sup>9\<close>, hence exact for 146 years.\<close>

lemma seconds_exact:
  assumes "0 \<le> s" and "s < 2 ^ 32"
  shows "rnd (rnd s * 10 ^ 9) = s * 10 ^ 9" and "0 \<le> n \<Longrightarrow> n \<le> 10 ^ 9 \<Longrightarrow> rnd n = n"
proof -
  have "rnd s = s" using exact [of s 0] assms by simp
  moreover have "rnd ((s * 5 ^ 9) * 2 ^ 9) = (s * 5 ^ 9) * 2 ^ 9" using assms by (intro exact) simp_all
  ultimately show "rnd (rnd s * 10 ^ 9) = s * 10 ^ 9" by (simp add: mult.commute)
  show "rnd n = n" if "0 \<le> n" "n \<le> 10 ^ 9" using exact [of n 0] that by simp
qed

lemma reading_is_rounded:
  assumes "timespec_ok t" and "0 \<le> tv_sec t" and "tv_sec t < 2 ^ 32"
  shows "rnd (rnd (tv_nsec t) + rnd (rnd (tv_sec t) * 10 ^ 9)) = rnd (timespec_ns t)"
proof -
  have "rnd (tv_nsec t) = tv_nsec t" using assms(1) by (intro seconds_exact(2) [of 0]) (simp_all add: timespec_ok_def)
  then show ?thesis using seconds_exact(1) [OF assms(2,3)] by (simp only: timespec_ns_def add.commute)
qed

end

text \<open>The rounding of a natural number: \<open>bits\<close> is the number of bits below the 53 leading ones.\<close>

definition low_bits :: "nat \<Rightarrow> nat" where
  "low_bits n = floorlog 2 n - 53"

definition div_half_even :: "nat \<Rightarrow> nat \<Rightarrow> nat" where
  "div_half_even n d = (if 2 * (n mod d) < d \<or> 2 * (n mod d) = d \<and> even (n div d) then n div d else n div d + 1)"

definition round53 :: "nat \<Rightarrow> nat" where
  "round53 n = div_half_even n (2 ^ low_bits n) * 2 ^ low_bits n"

definition round_to_double :: "int \<Rightarrow> int" where
  "round_to_double z = sgn z * int (round53 (nat \<bar>z\<bar>))"

lemma div_half_even_le: "0 < d \<Longrightarrow> n \<le> k * d \<Longrightarrow> div_half_even n d \<le> k"
proof -
  assume d: "0 < d" and n: "n \<le> k * d"
  show ?thesis
  proof (cases "n mod d = 0")
    case True
    then show ?thesis using d n by (auto simp: div_half_even_def elim!: dvdE)
  next
    case False
    then have "n < k * d" using n by (cases "n = k * d") auto
    then have "n div d < k" using d by (simp add: div_less_iff_less_mult)
    then show ?thesis by (simp add: div_half_even_def)
  qed
qed

lemma div_half_even_ge: "0 < d \<Longrightarrow> k * d \<le> n \<Longrightarrow> k \<le> div_half_even n d"
  using less_eq_div_iff_mult_less_eq [of d k n] by (simp add: div_half_even_def)

lemma div_half_even_mono:
  assumes "0 < d" and "a \<le> b"
  shows "div_half_even a d \<le> div_half_even b d"
proof (cases "a div d = b div d")
  case True
  have "a mod d \<le> b mod d" using assms(2) True by (metis add_le_cancel_left mult_div_mod_eq)
  then show ?thesis using True by (auto simp: div_half_even_def)
next
  case False
  then have less: "a div d + 1 \<le> b div d" using div_le_mono [OF assms(2), of d] by simp
  have "div_half_even a d \<le> a div d + 1" "b div d \<le> div_half_even b d" by (simp_all add: div_half_even_def)
  with less show ?thesis by linarith
qed

lemma div_half_even_error:
  assumes "0 < d"
  shows "2 * \<bar>int (div_half_even n d * d) - int n\<bar> \<le> int d"
proof -
  have n: "int n = int (n div d * d) + int (n mod d)" using div_mult_mod_eq [of n d] by (metis of_nat_add)
  have "n mod d < d" using assms by simp
  then show ?thesis unfolding n by (auto simp: div_half_even_def algebra_simps)
qed

lemma floorlog_bounds:
  assumes "0 < n"
  shows "2 ^ (floorlog 2 n - 1) \<le> n" and "n < 2 ^ floorlog 2 n"
  using floorlog_bounds [of n 2] assms by simp_all

lemma round53_small: "n \<le> 2 ^ 53 \<Longrightarrow> round53 n = n"
proof (cases "n = 2 ^ 53")
  case True
  have "floorlog 2 (1 * 2 ^ 53) = 54" by (subst floorlog_power) (simp_all add: floorlog_def)
  then show ?thesis using True by (simp add: round53_def low_bits_def div_half_even_def)
next
  case False
  assume "n \<le> 2 ^ 53"
  with False have "n < 2 ^ 53" by simp
  then have "floorlog 2 n \<le> 53" by (intro floorlog_leI) simp_all
  then show ?thesis by (simp add: round53_def low_bits_def div_half_even_def)
qed

text \<open>A number with low bits lies between two powers of two, and so does its rounding.\<close>

lemma round53_binade:
  assumes "0 < low_bits n"
  shows "2 ^ (low_bits n + 52) \<le> n" and "n < 2 ^ (low_bits n + 53)"
    and "2 ^ (low_bits n + 52) \<le> round53 n" and "round53 n \<le> 2 ^ (low_bits n + 53)"
proof -
  have f: "floorlog 2 n = low_bits n + 53" using assms by (simp add: low_bits_def)
  have n: "0 < n" using assms by (cases "n = 0") (simp_all add: low_bits_def floorlog_def)
  from floorlog_bounds [OF n] f show le: "2 ^ (low_bits n + 52) \<le> n" and less: "n < 2 ^ (low_bits n + 53)"
    by (simp_all add: add.commute)
  have "2 ^ 52 * 2 ^ low_bits n \<le> n" "n \<le> 2 ^ 53 * 2 ^ low_bits n" using le less by (simp_all add: power_add)
  then have "2 ^ 52 \<le> div_half_even n (2 ^ low_bits n)" "div_half_even n (2 ^ low_bits n) \<le> 2 ^ 53"
    by (simp_all add: div_half_even_ge div_half_even_le)
  then have "2 ^ 52 * 2 ^ low_bits n \<le> round53 n" "round53 n \<le> 2 ^ 53 * 2 ^ low_bits n"
    by (simp_all add: round53_def)
  then show "2 ^ (low_bits n + 52) \<le> round53 n" "round53 n \<le> 2 ^ (low_bits n + 53)" by (simp_all add: power_add mult.commute)
qed

lemma round53_mono:
  assumes "a \<le> b"
  shows "round53 a \<le> round53 b"
proof -
  have le: "low_bits a \<le> low_bits b"
    using floorlog_mono [OF assms, of 2] by (simp add: low_bits_def)
  consider "low_bits a = low_bits b" | "low_bits a < low_bits b" using le by linarith
  then show ?thesis
  proof cases
    case 1
    then show ?thesis using div_half_even_mono [OF _ assms] by (simp add: round53_def)
  next
    case 2
    have "round53 a \<le> 2 ^ (low_bits a + 53)"
    proof (cases "low_bits a")
      case 0
      have "a < 2 ^ 53"
      proof (cases "a = 0")
        case False
        then have "a < 2 ^ floorlog 2 a" using floorlog_bounds(2) by simp
        also have "\<dots> \<le> 2 ^ 53" using 0 by (intro power_increasing) (simp_all add: low_bits_def)
        finally show ?thesis .
      qed simp
      then show ?thesis using 0 round53_small [of a] by simp
    next
      case (Suc k)
      then show ?thesis using round53_binade(4) [of a] by simp
    qed
    also have "(2::nat) ^ (low_bits a + 53) \<le> 2 ^ (low_bits b + 52)" using 2 by (intro power_increasing) simp_all
    also have "\<dots> \<le> round53 b" using 2 by (intro round53_binade(3)) simp
    finally show ?thesis .
  qed
qed

lemma round53_error: "\<bar>int (round53 n) - int n\<bar> * 2 ^ 53 \<le> int n"
proof (cases "low_bits n")
  case 0
  then show ?thesis by (simp add: round53_def div_half_even_def)
next
  case (Suc k)
  have "2 * \<bar>int (round53 n) - int n\<bar> \<le> 2 ^ low_bits n"
    using div_half_even_error [of "2 ^ low_bits n" n] by (simp add: round53_def)
  then have "2 * \<bar>int (round53 n) - int n\<bar> * 2 ^ 52 \<le> 2 ^ low_bits n * 2 ^ 52"
    by (rule mult_right_mono) simp
  also have "(2::int) ^ low_bits n * 2 ^ 52 \<le> int n"
  proof -
    have "int (2 ^ (low_bits n + 52)) \<le> int n" using round53_binade(1) [of n] Suc by (simp only: of_nat_le_iff)
    then show ?thesis by (simp add: power_add)
  qed
  finally show ?thesis by simp
qed

lemma round53_exact:
  assumes "m \<le> 2 ^ 53"
  shows "round53 (m * 2 ^ k) = m * 2 ^ k"
proof (cases "low_bits (m * 2 ^ k)")
  case 0
  then show ?thesis by (simp add: round53_def div_half_even_def)
next
  case (Suc j)
  let ?n = "m * 2 ^ k" and ?e = "low_bits (m * 2 ^ k)"
  have "2 ^ (?e + 52) \<le> ?n" "?n \<le> 2 ^ (53 + k)" using round53_binade(1) [of ?n] Suc assms
    by (simp_all add: power_add)
  then have "(2::nat) ^ (?e + 52) \<le> 2 ^ (53 + k)" by (rule order_trans)
  then have "?e + 52 \<le> 53 + k" by (rule power_le_imp_le_exp [rotated]) simp
  then consider "?e \<le> k" | "?e = k + 1" by linarith
  then have "2 ^ ?e dvd ?n"
  proof cases
    case 1
    then show ?thesis by (simp add: le_imp_power_dvd)
  next
    case 2
    then have "2 ^ 53 * 2 ^ k \<le> m * 2 ^ k" using \<open>2 ^ (?e + 52) \<le> ?n\<close> by (simp add: power_add)
    then have "m = 2 ^ 53" using assms by simp
    then have "?n = 2 ^ (53 + k)" by (simp add: power_add)
    moreover have "(2::nat) ^ (k + 1) dvd 2 ^ (53 + k)" by (intro le_imp_power_dvd) simp
    ultimately show ?thesis unfolding 2 by simp
  qed
  then show ?thesis by (simp add: round53_def div_half_even_def dvd_imp_mod_0)
qed

lemma round_to_double_nonneg: "round_to_double (int n) = int (round53 n)"
  by (cases "n = 0") (simp_all add: round_to_double_def round53_small)

interpretation dr: double_rounding round_to_double
proof
  fix m :: int and k
  assume "0 \<le> m" "m \<le> 2 ^ 53"
  then obtain n where n: "m = int n" "n \<le> 2 ^ 53" by (metis nat_0_le nat_le_eq_zle nat_int of_nat_numeral of_nat_power zero_le_numeral zero_le_power)
  have "round_to_double (int (n * 2 ^ k)) = int (n * 2 ^ k)" by (simp only: round_to_double_nonneg round53_exact [OF n(2)])
  then show "round_to_double (m * 2 ^ k) = m * 2 ^ k" by (simp add: n(1))
next
  fix a b :: int
  assume a: "0 \<le> a"
  then obtain n where n: "a = int n" by (metis nat_0_le)
  show "\<bar>round_to_double a - a\<bar> * 2 ^ 53 \<le> a" unfolding n round_to_double_nonneg by (rule round53_error)
  assume "a \<le> b"
  then obtain k where k: "b = int k" "n \<le> k" using n by (metis nat_0_le nat_int nat_mono a order_trans)
  show "round_to_double a \<le> round_to_double b"
    unfolding n k(1) round_to_double_nonneg using round53_mono [OF k(2)] by simp
qed

subsection \<open>The clocks\<close>

record timeval =
  tv_seconds :: int
  tv_usec :: int

definition in_long :: "int \<Rightarrow> int c_result" where
  "in_long z = (if - (2 ^ 63) \<le> z \<and> z < 2 ^ 63 then Inr z else Inl Undefined)"

definition time_us :: "timeval \<Rightarrow> int c_result" where
  "time_us tv = c_bind (in_long (tv_seconds tv * 1000000)) (\<lambda>s. in_long (s + tv_usec tv))"

text \<open>\<open>r\<close> and \<open>ts\<close>: what \<open>clock_gettime\<close> returned and wrote.\<close>

definition time_ns :: "int \<Rightarrow> timespec \<Rightarrow> int c_result" where
  "time_ns r ts =
     c_bind (c_assert (r = 0)) (\<lambda>_.
     in_long (round_to_double (round_to_double (tv_nsec ts)
       + round_to_double (round_to_double (tv_sec ts) * 10 ^ 9))))"

definition time_ns_to_ts :: "int \<Rightarrow> timespec \<Rightarrow> timespec c_result" where
  "time_ns_to_ts r ts = c_bind (c_assert (r = 0)) (\<lambda>_. Inr ts)"

definition rdtsc :: "u32 \<Rightarrow> u32 \<Rightarrow> u64" where
  "rdtsc a d = ucast a OR push_bit 32 (ucast d)"

lemma timespec_ns_nonneg: "timespec_ok t \<Longrightarrow> 0 \<le> tv_sec t \<Longrightarrow> 0 \<le> timespec_ns t"
  by (simp add: timespec_ns_def timespec_ok_def)

lemma round_to_double_bounds:
  assumes "0 \<le> a"
  shows "0 \<le> round_to_double a" and "round_to_double a \<le> 2 * a"
proof -
  have "round_to_double 0 = 0" by (simp add: round_to_double_def)
  then show "0 \<le> round_to_double a" using dr.mono [of 0 a] assms by simp
  have "\<bar>round_to_double a - a\<bar> \<le> \<bar>round_to_double a - a\<bar> * 2 ^ 53" by simp
  also have "\<dots> \<le> a" by (rule dr.error [OF assms])
  finally show "round_to_double a \<le> 2 * a" by linarith
qed

lemma time_ns_eq:
  assumes "timespec_ok t" and "0 \<le> tv_sec t" and "tv_sec t < 2 ^ 32"
  shows "time_ns 0 t = Inr (round_to_double (timespec_ns t))"
proof -
  have "0 \<le> timespec_ns t" by (rule timespec_ns_nonneg [OF assms(1,2)])
  moreover have "timespec_ns t < 2 ^ 62" using assms by (simp add: timespec_ns_def timespec_ok_def)
  ultimately have "in_long (round_to_double (timespec_ns t)) = Inr (round_to_double (timespec_ns t))"
    using round_to_double_bounds [of "timespec_ns t"] by (simp add: in_long_def)
  then show ?thesis unfolding time_ns_def dr.reading_is_rounded [OF assms] by simp
qed

text \<open>
  C30. The clock of the schedules never runs backwards: for times up to 136 years after the start of the
  machine, \<open>time_ns\<close> succeeds, is monotone, and is exact for the first 2^53 nanoseconds (104 days).
  After that it is off by at most one part in 2^53, because the sum is computed in a \<open>double\<close>.
\<close>

theorem time_ns_monotone_and_close:
  assumes "timespec_ok s" and "timespec_ok t" and "0 \<le> tv_sec s" and "s \<le> t" and "tv_sec t < 2 ^ 32"
  shows "\<exists>x y. time_ns 0 s = Inr x \<and> time_ns 0 t = Inr y \<and> x \<le> y
    \<and> (timespec_ns t \<le> 2 ^ 53 \<longrightarrow> y = timespec_ns t) \<and> \<bar>y - timespec_ns t\<bar> * 2 ^ 53 \<le> timespec_ns t"
proof -
  have sec: "tv_sec s \<le> tv_sec t" using assms(4) by (auto simp: less_eq_timespec_def)
  then have t: "0 \<le> tv_sec t" "tv_sec s < 2 ^ 32" using assms(3,5) by simp_all
  note s0 = timespec_ns_nonneg [OF assms(1,3)] and t0 = timespec_ns_nonneg [OF assms(2) t(1)]
  have "timespec_ns s \<le> timespec_ns t" using timespec_ns_mono [OF assms(1,2)] assms(4) by simp
  from dr.mono [OF s0 this] dr.error [OF t0] dr.exact [OF t0, of 0] show ?thesis
    by (simp add: time_ns_eq [OF assms(1,3) t(2)] time_ns_eq [OF assms(2) t(1) assms(5)])
qed

theorem time_ns_monotone_and_close_witness:
  "\<exists>x y. time_ns 0 (Timespec 5 10) = Inr x \<and> time_ns 0 (Timespec 9007199 254740993) = Inr y
     \<and> x \<le> y \<and> \<bar>y - 9007199254740993\<bar> \<le> 1"
  using time_ns_monotone_and_close [of "Timespec 5 10" "Timespec 9007199 254740993"]
  by (auto simp: timespec_ok_def less_eq_timespec_def timespec_ns_def)

text \<open>The first reading that is not exact.\<close>

lemma time_ns_inexact: "time_ns 0 (Timespec 9007199 254740993) = Inr 9007199254740992"
proof -
  have "floorlog 2 (9007199254740993 :: nat) = 54" by (intro antisym floorlog_leI floorlog_geI) simp_all
  then have "round_to_double 9007199254740993 = 9007199254740992"
    by (simp add: round_to_double_def round53_def low_bits_def div_half_even_def)
  then show ?thesis by (simp add: time_ns_eq timespec_ok_def timespec_ns_def)
qed

end
