(* ===== verification/Cpp_Rand.thy ===== *)
theory Cpp_Rand
  imports Rand_Gen
begin

text \<open>
  \<open>cpp_rand.cc\<close>: the C++ objects behind the lognormal and the gamma generator, and the calls of
  \<open>rand_gen.c\<close> that draw from them. The algorithms of the C++ distributions are left to the
  implementation by the standard, so they are arguments: \<open>mt\<close> is the state of \<open>std::mt19937\<close> after seeding,
  \<open>nrm\<close> and \<open>gam\<close> map the states of a distribution and of an engine to a number and the new states.
\<close>

subsection \<open>Objects\<close>

text \<open>What the two \<open>void *\<close> of \<open>struct cpp_gen\<close> may point to.\<close>

datatype ('e, 's) cpp_object =
    Normal_distribution 's
  | Gamma_distribution dbl dbl 's
  | Engine 'e

record ('e, 's) cpp_gen =
  cg_d :: "('e, 's) cpp_object"
  cg_gen :: "('e, 's) cpp_object"

definition new_normal_gen :: "(u32 \<Rightarrow> 'e) \<Rightarrow> 's \<Rightarrow> u32 \<Rightarrow> ('e, 's) cpp_gen" where
  "new_normal_gen mt fresh rd = \<lparr>cg_d = Normal_distribution fresh, cg_gen = Engine (mt rd)\<rparr>"

definition new_gamma_gen :: "(u32 \<Rightarrow> 'e) \<Rightarrow> 's \<Rightarrow> u32 \<Rightarrow> dbl \<Rightarrow> dbl \<Rightarrow> ('e, 's) cpp_gen" where
  "new_gamma_gen mt fresh rd alpha beta =
     \<lparr>cg_d = Gamma_distribution alpha beta fresh, cg_gen = Engine (mt rd)\<rparr>"

text \<open>A pointer cast to a type its object does not have is undefined when it is used.\<close>

definition get_normal_rand ::
  "('s \<Rightarrow> 'e \<Rightarrow> dbl \<times> 's \<times> 'e) \<Rightarrow> ('e, 's) cpp_gen \<Rightarrow> (dbl \<times> ('e, 's) cpp_gen) c_result" where
  "get_normal_rand nrm ng =
     (case (cg_d ng, cg_gen ng) of
        (Normal_distribution s, Engine e) \<Rightarrow>
          let (x, s', e') = nrm s e in Inr (x, \<lparr>cg_d = Normal_distribution s', cg_gen = Engine e'\<rparr>)
      | _ \<Rightarrow> Inl Undefined)"

text \<open>The distribution is read from \<open>gg->gen\<close>, as is the engine.\<close>

definition get_gamma_rand ::
  "(dbl \<Rightarrow> dbl \<Rightarrow> 's \<Rightarrow> 'e \<Rightarrow> dbl \<times> 's \<times> 'e) \<Rightarrow> ('e, 's) cpp_gen \<Rightarrow> (dbl \<times> ('e, 's) cpp_gen) c_result" where
  "get_gamma_rand gam gg =
     (let d = cg_gen gg; gen = cg_gen gg in
      case (d, gen) of
        (Gamma_distribution a b s, Engine e) \<Rightarrow>
          let (x, s', e') = gam a b s e in Inr (x, gg\<lparr>cg_gen := Engine e'\<rparr>)
      | _ \<Rightarrow> Inl Undefined)"

subsection \<open>The generators that use them\<close>

definition lognorm_draw ::
  "('s \<Rightarrow> 'e \<Rightarrow> dbl \<times> 's \<times> 'e) \<Rightarrow> lognorm_params \<Rightarrow> ('e, 's) cpp_gen \<Rightarrow> (dbl \<times> ('e, 's) cpp_gen) c_result" where
  "lognorm_draw nrm p ng = c_bind (get_normal_rand nrm ng) (\<lambda>(y, ng'). Inr (lognorm_generate p y, ng'))"

definition gamma_draw_from ::
  "(dbl \<Rightarrow> dbl \<Rightarrow> 's \<Rightarrow> 'e \<Rightarrow> dbl \<times> 's \<times> 'e) \<Rightarrow> ('e, 's) cpp_gen \<Rightarrow> (dbl \<times> ('e, 's) cpp_gen) c_result" where
  "gamma_draw_from gam gg =
     c_bind (get_gamma_rand gam gg) (\<lambda>(g, gg'). c_bind (gamma_generate (Inr g)) (\<lambda>x. Inr (x, gg')))"

text \<open>
  With the library's number as the draw these are \<open>generate\<close>: a lognormal generator returns the number made
  of its next normal variate, a gamma generator none, since one object is not of two types.
\<close>

lemma lognorm_draw_generates:
  "get_normal_rand nrm ng = Inr (y, ng') \<Longrightarrow> lognorm_draw nrm p ng = Inr (x, ng') \<longleftrightarrow>
     generate (Lognormal_gen p) (d\<lparr>normal_draw := y\<rparr>) = Inr x"
  by (simp add: lognorm_draw_def)

lemma gamma_draw_generates: "gamma_draw_from gam gg = Inl e \<longleftrightarrow> generate (Gamma_gen a b) d = Inl e"
  by (auto simp: gamma_draw_from_def get_gamma_rand_def gamma_generate_def Let_def split: cpp_object.split)

end
