(* ===== verification/Client_Spec.thy ===== *)
theory Client_Spec
  imports Timespec C_Double "HOL-Library.Multiset"
begin

text \<open>
  What a load-generating client promises, without buffers, rings or counters: a queue of send times per
  connection. A response answers the oldest request of its connection. When \<open>k\<close> responses of one
  connection are read together, one response time is measured, that of the last of them.
\<close>

subsection \<open>One client\<close>

text \<open>
  What happens on the wire: a request on a connection at a time; \<open>k\<close> responses on a connection, read at a
  time, with the random number that decides whether the response time is sampled.
\<close>

datatype wire_event =
    Sent nat timespec
  | Answered nat nat timespec dbl

type_synonym outstanding = "timespec list list"

type_synonym response_time = "dbl \<times> int"

definition MAX_OUTSTANDING :: nat where "MAX_OUTSTANDING = 16"

fun client_step :: "wire_event \<Rightarrow> outstanding \<Rightarrow> (outstanding \<times> response_time list) option" where
  "client_step (Sent c t) os =
     (if c < length os \<and> length (os ! c) < MAX_OUTSTANDING then Some (os[c := os ! c @ [t]], []) else None)"
| "client_step (Answered c k t rnd) os =
     (if c < length os \<and> 0 < k \<and> k \<le> length (os ! c)
      then Some (os[c := drop k (os ! c)], [(rnd, timespec_ns t - timespec_ns (os ! c ! (k - 1)))])
      else None)"

fun client_run :: "wire_event list \<Rightarrow> outstanding \<Rightarrow> (outstanding \<times> response_time list) option" where
  "client_run [] os = Some (os, [])"
| "client_run (w # ws) os =
     Option.bind (client_step w os) (\<lambda>(os1, xs). Option.bind (client_run ws os1) (\<lambda>(os2, ys). Some (os2, xs @ ys)))"

lemma client_run_append:
  "client_run (ws @ ws') os =
     Option.bind (client_run ws os) (\<lambda>(os1, xs). Option.bind (client_run ws' os1) (\<lambda>(os2, ys). Some (os2, xs @ ys)))"
  by (induction ws arbitrary: os) (auto simp: Option.bind_eq_Some_conv split: Option.bind_splits prod.splits)

lemma client_run_trans:
  "client_run ws os = Some (os1, xs) \<Longrightarrow> client_run ws' os1 = Some (os2, ys) \<Longrightarrow> client_run (ws @ ws') os = Some (os2, xs @ ys)"
  by (simp add: client_run_append)

lemma client_run_length: "client_run ws os = Some (os', xs) \<Longrightarrow> length os' = length os"
proof (induction ws arbitrary: os xs)
  case (Cons w ws)
  then obtain os1 xs1 ys where step: "client_step w os = Some (os1, xs1)" "client_run ws os1 = Some (os', ys)"
    by (auto simp: Option.bind_eq_Some_conv)
  then have "length os1 = length os" by (cases w) (auto split: if_splits)
  with Cons.IH [OF step(2)] show ?case by simp
qed simp

text \<open>Requests are neither lost nor invented: what was sent has been answered or is outstanding.\<close>

fun sent_count :: "wire_event \<Rightarrow> nat" where
  "sent_count (Sent c t) = 1"
| "sent_count (Answered c k t rnd) = 0"

fun answered_count :: "wire_event \<Rightarrow> nat" where
  "answered_count (Sent c t) = 0"
| "answered_count (Answered c k t rnd) = k"

definition total_outstanding :: "outstanding \<Rightarrow> nat" where
  "total_outstanding os = (\<Sum>q\<leftarrow>os. length q)"

lemma total_outstanding_update:
  "c < length os \<Longrightarrow> total_outstanding (os[c := q]) + length (os ! c) = total_outstanding os + length q"
proof (induction os arbitrary: c)
  case (Cons p ps)
  then show ?case by (cases c) (auto simp: total_outstanding_def)
qed simp

lemma client_step_conserves:
  assumes "client_step w os = Some (os', xs)"
  shows "total_outstanding os' + answered_count w = total_outstanding os + sent_count w"
proof (cases w)
  case (Sent c t)
  then show ?thesis using assms total_outstanding_update [of c os "os ! c @ [t]"] by (auto split: if_splits)
next
  case (Answered c k t rnd)
  then show ?thesis using assms total_outstanding_update [of c os "drop k (os ! c)"] by (auto split: if_splits)
qed

lemma client_run_conserves:
  "client_run ws os = Some (os', xs) \<Longrightarrow>
   total_outstanding os' + (\<Sum>w\<leftarrow>ws. answered_count w) = total_outstanding os + (\<Sum>w\<leftarrow>ws. sent_count w)"
proof (induction ws arbitrary: os xs)
  case (Cons w ws)
  then obtain os1 xs1 ys where step: "client_step w os = Some (os1, xs1)" "client_run ws os1 = Some (os', ys)"
    by (auto simp: Option.bind_eq_Some_conv)
  from client_step_conserves [OF step(1)] Cons.IH [OF step(2)] show ?case by simp
qed simp

subsection \<open>Several clients\<close>

text \<open>
  The threads of an agent are clients of their own connections; what they do is interleaved. \<open>run\<close> is what
  the client of one thread does, \<open>client_run\<close> above or that of another kind of agent.
\<close>

fun clients_run ::
  "('e list \<Rightarrow> 'c \<Rightarrow> ('c \<times> response_time list) option) \<Rightarrow> (nat \<times> 'e list) list \<Rightarrow> 'c list
   \<Rightarrow> ('c list \<times> (nat \<times> response_time) list) option" where
  "clients_run run [] os = Some (os, [])"
| "clients_run run ((i, ws) # rest) os =
     (if i < length os then
        Option.bind (run ws (os ! i)) (\<lambda>(o1, xs).
        Option.bind (clients_run run rest (os[i := o1])) (\<lambda>(os2, ys). Some (os2, map (Pair i) xs @ ys)))
      else None)"

text \<open>
  The transmit times that become known in the run: \<open>sent\<close> gives those of the client of one thread.
\<close>

fun clients_sent ::
  "('e list \<Rightarrow> 'c \<Rightarrow> ('c \<times> response_time list) option) \<Rightarrow> ('e list \<Rightarrow> 'c \<Rightarrow> timespec list) \<Rightarrow> (nat \<times> 'e list) list
   \<Rightarrow> 'c list \<Rightarrow> (nat \<times> timespec) list" where
  "clients_sent run sent [] os = []"
| "clients_sent run sent ((i, ws) # rest) os =
     map (Pair i) (sent ws (os ! i)) @
     (case run ws (os ! i) of None \<Rightarrow> [] | Some (o1, xs) \<Rightarrow> clients_sent run sent rest (os[i := o1]))"

definition sent_by :: "nat \<Rightarrow> (nat \<times> timespec) list \<Rightarrow> timespec list" where
  "sent_by j zs = map snd (filter (\<lambda>z. fst z = j) zs)"

lemma sent_by_simps [simp]:
  "sent_by j [] = []" "sent_by j (ys @ zs) = sent_by j ys @ sent_by j zs"
  "sent_by j (map (Pair i) ts) = (if j = i then ts else [])"
proof -
  show "sent_by j (map (Pair i) ts) = (if j = i then ts else [])"
    unfolding sent_by_def by (induction ts) auto
qed (simp_all add: sent_by_def)

text \<open>All threads below \<open>n\<close> together.\<close>

lemma sent_by_all: "\<forall>z \<in> set zs. fst z < n \<Longrightarrow> mset (concat (map (\<lambda>j. sent_by j zs) [0 ..< n])) = mset (map snd zs)"
proof (induction zs)
  case (Cons z zs)
  obtain i t where z: "z = (i, t)" by (cases z)
  have "mset (sent_by j (z # zs)) = (if j = i then {#t#} else {#}) + mset (sent_by j zs)" for j by (simp add: sent_by_def z)
  then have "mset (concat (map (\<lambda>j. sent_by j (z # zs)) [0 ..< n]))
      = (\<Sum>j\<leftarrow>[0 ..< n]. (if j = i then {#t#} else {#}) + mset (sent_by j zs))"
    by (simp only: mset_concat map_map comp_def)
  also have "\<dots> = (\<Sum>j\<leftarrow>[0 ..< n]. (if j = i then {#t#} else {#})) + mset (concat (map (\<lambda>j. sent_by j zs) [0 ..< n]))"
    by (simp add: sum_list_addf mset_concat comp_def)
  also have "(\<Sum>j\<leftarrow>[0 ..< n]. (if j = i then {#t#} else {#})) = {#t#}"
    using Cons.prems by (simp add: z sum_list_distinct_conv_sum_set)
  finally show ?case using Cons by (simp add: z)
qed simp

subsection \<open>Sampling\<close>

text \<open>The response times that are kept at a sampling rate, as 64-bit numbers.\<close>

definition kept :: "dbl \<Rightarrow> response_time list \<Rightarrow> u64 list" where
  "kept rate xs = map (\<lambda>x. word_of_int (snd x)) (filter (\<lambda>x. \<not> rate < fst x) xs)"

lemma kept_append [simp]: "kept rate (xs @ ys) = kept rate xs @ kept rate ys"
  by (simp add: kept_def)

lemma kept_Nil [simp]: "kept rate [] = []"
  by (simp add: kept_def)

definition kept_of :: "dbl \<Rightarrow> nat \<Rightarrow> (nat \<times> response_time) list \<Rightarrow> u64 list" where
  "kept_of rate i ys = kept rate (map snd (filter (\<lambda>y. fst y = i) ys))"

lemma kept_of_simps [simp]:
  "kept_of rate j [] = []" "kept_of rate j (ys @ zs) = kept_of rate j ys @ kept_of rate j zs"
  "kept_of rate j (map (Pair i) xs) = (if j = i then kept rate xs else [])"
proof -
  have "map snd (filter (\<lambda>y. fst y = j) (map (Pair i) xs)) = (if j = i then xs else [])"
    by (induction xs) auto
  then show "kept_of rate j (map (Pair i) xs) = (if j = i then kept rate xs else [])" by (simp add: kept_of_def)
qed (simp_all add: kept_of_def)

lemma length_kept_of: "length (kept_of rate i ys) \<le> length ys"
proof -
  have "length (kept_of rate i ys) \<le> length (filter (\<lambda>y. fst y = i) ys)"
    using length_filter_le [of "\<lambda>x. \<not> rate < fst x" "map snd (filter (\<lambda>y. fst y = i) ys)"] by (simp add: kept_of_def kept_def)
  then show ?thesis using length_filter_le order_trans by blast
qed

lemma clients_run_Cons:
  "clients_run run [(i, ws)] os = Some (os1, xs) \<Longrightarrow> clients_run run rest os1 = Some (os2, ys) \<Longrightarrow>
   clients_run run ((i, ws) # rest) os = Some (os2, xs @ ys)"
  by (auto simp: Option.bind_eq_Some_conv split: if_split_asm)

lemma clients_sent_Cons:
  "clients_run run [(i, ws)] os = Some (os1, xs) \<Longrightarrow>
   clients_sent run sent ((i, ws) # rest) os = clients_sent run sent [(i, ws)] os @ clients_sent run sent rest os1"
  by (auto simp: Option.bind_eq_Some_conv split: if_split_asm)

lemma clients_sent_threads:
  "clients_run run ws os = Some r \<Longrightarrow> \<forall>z \<in> set (clients_sent run sent ws os). fst z < length os"
proof (induction ws arbitrary: os r)
  case (Cons w ws)
  obtain i vs where w: "w = (i, vs)" by (cases w)
  then obtain o1 xs r1 where step: "i < length os" "run vs (os ! i) = Some (o1, xs)" "clients_run run ws (os[i := o1]) = Some r1"
    using Cons.prems by (auto simp: Option.bind_eq_Some_conv split: if_split_asm)
  with Cons.IH [OF step(3)] w show ?case by auto
qed simp

end
