(* ===== verification/Transmit_Log.thy ===== *)
theory Transmit_Log
  imports Measurement
begin

text \<open>
  The transmit times that the threads stamp during a measurement, and where the check of the load finds
  them: each thread's log holds the thread's times in order, as long as they fit.
\<close>

fun stamps_of :: "nat \<Rightarrow> recording list \<Rightarrow> timespec list" where
  "stamps_of j [] = []"
| "stamps_of j (Stamp i t # rs) = (if i = j then t # stamps_of j rs else stamps_of j rs)"
| "stamps_of j (_ # rs) = stamps_of j rs"

fun transmissions :: "recording list \<Rightarrow> timespec list" where
  "transmissions [] = []"
| "transmissions (Stamp i t # rs) = t # transmissions rs"
| "transmissions (_ # rs) = transmissions rs"

lemma transmissions_append: "transmissions (rs @ rs') = transmissions rs @ transmissions rs'"
  by (induction rs rule: transmissions.induct) simp_all

lemma stamps_of_append: "stamps_of j (rs @ rs') = stamps_of j rs @ stamps_of j rs'"
  by (induction j rs rule: stamps_of.induct) simp_all

lemma stamps_of_thread: "\<forall>r \<in> set rs. thread_of r = i \<Longrightarrow> stamps_of j rs = (if j = i then transmissions rs else [])"
  by (induction rs rule: transmissions.induct) auto

lemma record_call_stamps:
  assumes "record_call r s = Inr s'" and "agents_should_measure s"
  shows "length (all_tx (mg_stats s')) = length (all_tx (mg_stats s)) \<and> reference_ia (mg_stats s') = reference_ia (mg_stats s)
    \<and> (\<forall>j < length (all_tx (mg_stats s)). all_tx (mg_stats s') ! j = foldl tx_push (all_tx (mg_stats s) ! j) (stamps_of j [r]))"
  using assms by (cases r) (auto simp: on_thread_def c_result_simps nth_list_update add_tx_timestamp_def)

lemma record_calls_stamps:
  "record_calls rs s = Inr s' \<Longrightarrow> agents_should_measure s \<Longrightarrow>
   length (all_tx (mg_stats s')) = length (all_tx (mg_stats s)) \<and> reference_ia (mg_stats s') = reference_ia (mg_stats s)
    \<and> (\<forall>j < length (all_tx (mg_stats s)). all_tx (mg_stats s') ! j = foldl tx_push (all_tx (mg_stats s) ! j) (stamps_of j rs))"
proof (induction rs arbitrary: s)
  case (Cons r rs)
  then obtain s1 where s1: "record_call r s = Inr s1" "record_calls rs s1 = Inr s'" by (auto simp: c_result_simps)
  have "agents_should_measure s1" using record_call_keeps [OF s1(1)] Cons.prems(2) by auto
  moreover have "stamps_of j (r # rs) = stamps_of j [r] @ stamps_of j rs" for j by (cases r) simp_all
  ultimately show ?case using record_call_stamps [OF s1(1) Cons.prems(2)] Cons.IH [OF s1(2)] by simp
qed simp

text \<open>After the calls of a measurement the check of the load reads exactly the times stamped in it.\<close>

lemma measured_transmissions:
  assumes "sys_inv cfg s" and "agents_should_measure s1"
    and "all_tx (mg_stats s1) = all_tx (clear_all_stats atype (mg_stats s))" and "record_calls rs s1 = Inr s2"
    and "\<forall>j. length (stamps_of j rs) \<le> MAX_PER_THREAD_TX_SAMPLES"
  shows "recorded_tx (mg_stats s2) = concat (map (\<lambda>j. stamps_of j rs) [0 ..< nat (cfg_thread_count cfg)])"
    and "\<forall>t \<in> set (all_tx (mg_stats s2)). tx_wf t" and "reference_ia (mg_stats s2) = reference_ia (mg_stats s1)"
proof -
  let ?n = "length (all_tx (mg_stats s1))"
  have n: "?n = nat (cfg_thread_count cfg)" using assms(1) by (simp add: assms(3) clear_all_stats_def sys_inv_def stats_wf_def)
  have start: "tx_wf (all_tx (mg_stats s1) ! j)" "unat (txs_count (all_tx (mg_stats s1) ! j)) = 0" if "j < ?n" for j
    using assms(1) that by (simp_all add: assms(3) clear_all_stats_def sys_inv_def stats_wf_def tx_wf_def)
  note calls = record_calls_stamps [OF assms(4,2)]
  then show "reference_ia (mg_stats s2) = reference_ia (mg_stats s1)" by simp
  have fits: "length (stamps_of j rs) < 2 ^ 32" "length (stamps_of j rs) \<le> MAX_PER_THREAD_TX_SAMPLES" for j
    using assms(5) [rule_format, of j] by (simp_all add: stats_sizes)
  have ok: "tx_wf (all_tx (mg_stats s2) ! j)" "take (tx_used (all_tx (mg_stats s2) ! j)) (txs_samples (all_tx (mg_stats s2) ! j)) = stamps_of j rs"
    if "j < ?n" for j
    using calls that tx_ring.run_ok [OF start [OF that] fits(1)] tx_ring.run_count [OF start [OF that] fits(1)]
      tx_ring.run_prefix [OF start [OF that] fits] fits(2) [of j] by (simp_all add: tx_used_def)
  have "\<forall>j < length (all_tx (mg_stats s2)). tx_wf (all_tx (mg_stats s2) ! j)" using ok(1) calls by simp
  then show "\<forall>t \<in> set (all_tx (mg_stats s2)). tx_wf t" by (simp add: all_set_conv_all_nth)
  have "map (\<lambda>t. take (tx_used t) (txs_samples t)) (all_tx (mg_stats s2)) = map (\<lambda>j. stamps_of j rs) [0 ..< ?n]"
    using calls ok(2) by (intro nth_equalityI) simp_all
  then show "recorded_tx (mg_stats s2) = concat (map (\<lambda>j. stamps_of j rs) [0 ..< nat (cfg_thread_count cfg)])"
    by (simp only: recorded_tx_def n)
qed

end
