(* ===== verification/Client.thy ===== *)
theory Client
  imports Client_Spec Recording_Steps Transmit_Log
begin

text \<open>
  An iteration of the symmetric agent's main loop refines the client of \<open>Client_Spec\<close>: the rings of
  transmit times are its queues, what the iteration sends and receives are its events, and the
  latencies it records are the client's response times.
\<close>

subsection \<open>Abstraction\<close>

definition outstanding :: "thread_state \<Rightarrow> outstanding" where
  "outstanding s = map unread_times (conn_tx s)"

text \<open>What happens on the wire in the sending part, for one event, for all events, and in an iteration.\<close>

definition sent_obs :: "agent_config \<Rightarrow> send_env list \<Rightarrow> thread_state \<Rightarrow> wire_event list" where
  "sent_obs cfg es s =
     (case es of
        [] \<Rightarrow> []
      | e # _ \<Rightarrow>
          if 0 \<le> se_now e - next_tx s \<and> \<not> (se_ret e < 0 \<and> \<not> se_block e) then
            (case pick_conn cfg (se_rands e) (connections s) of Inr (Some i) \<Rightarrow> [Sent i (se_time e)] | _ \<Rightarrow> [])
          else [])"

definition event_obs :: "nat \<Rightarrow> thread_state \<Rightarrow> epoll_event \<Rightarrow> wire_event list" where
  "event_obs m s ev =
     (if 0 < ev_ret ev
      then [Answered (ev_idx ev) (arrived (connections s ! ev_idx ev) ev div m) (ev_time ev) (ev_rnd ev)] else [])"

fun events_obs :: "nat \<Rightarrow> agent_config \<Rightarrow> stats_state \<Rightarrow> epoll_event list \<Rightarrow> thread_state \<Rightarrow> wire_event list" where
  "events_obs m cfg st [] s = []"
| "events_obs m cfg st (ev # evs) s =
     event_obs m s ev @ (case user_event cfg st ev s of Inr (Go s') \<Rightarrow> events_obs m cfg st evs s' | _ \<Rightarrow> [])"

definition iter_obs :: "nat \<Rightarrow> agent_config \<Rightarrow> stats_state \<Rightarrow> iter_env \<Rightarrow> thread_state \<Rightarrow> wire_event list" where
  "iter_obs m cfg st e s =
     (if \<not> ie_load e then []
      else sent_obs cfg (ie_sends e) s @
        (case one_send User_stamp cfg (ie_sends e) s of
           Inr (Go s') \<Rightarrow> events_obs m cfg st (ie_events e) s' | _ \<Rightarrow> []))"

lemma outstanding_fields:
  "outstanding (s\<lparr>connections := cs, avail_reqs := a, next_tx := n, thr_stats := ts, thr_tx := txs, thr_arg := arg\<rparr>) = outstanding s"
  "rings_ok s \<Longrightarrow> length (outstanding s) = length (connections s)"
  "rings_ok s \<Longrightarrow> i < length (connections s) \<Longrightarrow> outstanding s ! i = unread_times (conn_tx s ! i)"
  "rings_ok s \<Longrightarrow> i < length (connections s) \<Longrightarrow> length (outstanding s ! i) = unat (tc_pending (connections s ! i))"
  by (simp_all add: outstanding_def rings_ok_def length_unread)

subsection \<open>Recording calls that store given latencies\<close>

definition records_latencies ::
  "stats_state \<Rightarrow> nat \<Rightarrow> u64 list \<Rightarrow> latency_stats \<times> tx_samples \<Rightarrow> latency_stats \<times> tx_samples \<Rightarrow> bool" where
  "records_latencies st i xs v v' \<longleftrightarrow>
     (\<exists>rs. (\<forall>r \<in> set rs. thread_of r = i) \<and> latencies (sampling_rate st) rs = xs \<and> local_calls st True rs v = Inr v')"

lemma latencies_append: "latencies rate (rs @ rs') = latencies rate rs @ latencies rate rs'"
  by (induction rate rs rule: latencies.induct) simp_all

lemma records_latencies_Nil: "records st True THROUGHPUT_AGENT i v v' \<Longrightarrow> records_latencies st i [] v v'"
proof -
  have "\<forall>r \<in> set rs. thread_calls THROUGHPUT_AGENT r \<Longrightarrow> latencies rate rs = []" for rate rs
    by (induction rate rs rule: latencies.induct) simp_all
  then show "records st True THROUGHPUT_AGENT i v v' \<Longrightarrow> ?thesis"
    unfolding records_def records_latencies_def by blast
qed

lemma records_latencies_refl: "records_latencies st i [] v v"
  by (rule records_latencies_Nil) simp

lemma records_latencies_trans:
  assumes "records_latencies st i xs v v'" and "records_latencies st i ys v' v''"
  shows "records_latencies st i (xs @ ys) v v''"
proof -
  obtain rs rs' where "\<forall>r \<in> set rs. thread_of r = i" "latencies (sampling_rate st) rs = xs" "local_calls st True rs v = Inr v'"
    and "\<forall>r \<in> set rs'. thread_of r = i" "latencies (sampling_rate st) rs' = ys" "local_calls st True rs' v' = Inr v''"
    using assms unfolding records_latencies_def by blast
  then show ?thesis
    unfolding records_latencies_def by (intro exI [of _ "rs @ rs'"]) (auto simp: latencies_append local_calls_append)
qed

text \<open>Calls that store the latencies \<open>xs\<close> and the transmit times \<open>ts\<close>.\<close>

definition records_measured ::
  "stats_state \<Rightarrow> nat \<Rightarrow> u64 list \<Rightarrow> timespec list \<Rightarrow> latency_stats \<times> tx_samples \<Rightarrow> latency_stats \<times> tx_samples \<Rightarrow> bool" where
  "records_measured st i xs ts v v' \<longleftrightarrow>
     (\<exists>rs. (\<forall>r \<in> set rs. thread_of r = i) \<and> latencies (sampling_rate st) rs = xs \<and> transmissions rs = ts
        \<and> local_calls st True rs v = Inr v')"

lemma records_measured_refl: "records_measured st i [] [] v v"
  unfolding records_measured_def by (rule exI [of _ "[]"]) simp

lemma records_measured_trans:
  assumes "records_measured st i xs ts v v'" and "records_measured st i xs' ts' v' v''"
  shows "records_measured st i (xs @ xs') (ts @ ts') v v''"
proof -
  obtain rs rs' where "\<forall>r \<in> set rs. thread_of r = i" "latencies (sampling_rate st) rs = xs" "transmissions rs = ts"
      "local_calls st True rs v = Inr v'"
    and "\<forall>r \<in> set rs'. thread_of r = i" "latencies (sampling_rate st) rs' = xs'" "transmissions rs' = ts'"
      "local_calls st True rs' v' = Inr v''"
    using assms unfolding records_measured_def by blast
  then show ?thesis
    unfolding records_measured_def
    by (intro exI [of _ "rs @ rs'"]) (auto simp: latencies_append transmissions_append local_calls_append)
qed

lemma records_measured_stamps:
  "records_measured st i [] ts (l, txs) (l, fold (add_tx_timestamp True) ts txs)"
proof -
  have "local_calls st True (map (Stamp i) ts) (l, txs) = Inr (l, fold (add_tx_timestamp True) ts txs)"
    by (induction ts arbitrary: txs) simp_all
  moreover have "latencies rate (map (Stamp i) ts) = []" for rate by (induction ts) simp_all
  moreover have "transmissions (map (Stamp i) ts) = ts" by (induction ts) simp_all
  ultimately show ?thesis unfolding records_measured_def by (intro exI [of _ "map (Stamp i) ts"]) auto
qed

lemma records_measured_counts:
  "records_measured st i [] [] (l, txs) (add_throughput_rx_sample True p l, txs)"
  "records_measured st i [] [] (l, txs) (add_throughput_tx_sample True p l, txs)"
  unfolding records_measured_def by (rule exI [of _ "[Count_rx i p]"], simp) (rule exI [of _ "[Count_tx i p]"], simp)

lemma records_latencies_measured: "records_latencies st i xs v v' \<longleftrightarrow> (\<exists>ts. records_measured st i xs ts v v')"
  unfolding records_latencies_def records_measured_def by blast

subsection \<open>Sending\<close>

lemma sent_refines:
  assumes "thread_ok m s" and "rings_ok s" and "rings_young s" and "i < length (connections s)"
    and "unat (tc_pending (connections s ! i)) < MAX_PENDING_REQS"
  shows "let p = push_complete_tx_timestamp b t (conn_tx s ! i, thr_tx s);
             s' = sent_on (s\<lparr>conn_tx := (conn_tx s)[i := fst p], thr_tx := snd p\<rparr>) i e arg ia
         in thread_ok m s' \<and> rings_ok s' \<and> client_step (Sent i t) (outstanding s) = Some (outstanding s', [])"
proof -
  let ?q = "conn_tx s ! i" and ?p = "push_complete_tx_timestamp b t (conn_tx s ! i, thr_tx s)"
  let ?s1 = "s\<lparr>conn_tx := (conn_tx s)[i := fst ?p], thr_tx := snd ?p\<rparr>"
  let ?s' = "sent_on ?s1 i e arg ia"
  have q: "complete_wf ?q" "in_flight ?q = unat (tc_pending (connections s ! i))" "i < length (conn_tx s)"
    using assms(2,4) by (simp_all add: rings_ok_def)
  have "unat (pq_head ?q) + 1 < 2 ^ 32" using assms(3) q(3) by (simp only: rings_young_def nth_mem)
  then have room: "has_room ?q" using q(2) assms(5) by (simp add: has_room_def)
  have "thread_ok m ?s1" using assms(1) by (simp add: thread_ok_def)
  then have ok: "thread_ok m ?s'" by (rule thread_ok_sent) (use assms(4,5) in simp_all)
  have rings: "rings_ok ?s'" by (rule user_sent_rings [OF assms(2-5)]) (simp_all add: sent_on_def)
  have "outstanding ?s' = (outstanding s)[i := unread_times ?q @ [t]]"
    by (simp add: outstanding_def sent_on_def map_update unread_times_push [OF q(1) room])
  then have "client_step (Sent i t) (outstanding s) = Some (outstanding ?s', [])"
    using assms(4,5) outstanding_fields(2-4) [OF assms(2)] by (simp add: MAX_OUTSTANDING_def MAX_PENDING_REQS_def)
  with ok rings show ?thesis by simp
qed

lemma one_send_refines:
  assumes "thread_ok m s" and "rings_ok s" and "rings_young s" and "threads_conns cfg s" and "\<forall>e \<in> set es. send_ok cfg s e"
  shows "\<exists>r. one_send User_stamp cfg es s = Inr r \<and> thread_ok m (step_state r) \<and> rings_ok (step_state r)
    \<and> client_run (sent_obs cfg es s) (outstanding s) = Some (outstanding (step_state r), [])"
proof (cases "\<exists>e es'. es = e # es' \<and> 0 \<le> se_now e - next_tx s")
  case False
  then show ?thesis using assms(1,2) by (cases es) (auto simp: one_send_def sent_obs_def)
next
  case True
  then obtain e es' where es: "es = e # es'" "0 \<le> se_now e - next_tx s" by blast
  obtain p where p: "pick_conn cfg (se_rands e) (connections s) = Inr p"
    and pick: "\<And>i. p = Some i \<Longrightarrow> i < length (connections s) \<and> unat (tc_pending (connections s ! i)) < MAX_PENDING_REQS"
    using pick_conn_ok [OF assms(4)] by blast
  show ?thesis
  proof (cases p)
    case None
    then show ?thesis using p assms(1,2) es by (simp add: one_send_def try_send_def sent_obs_def)
  next
    case (Some i)
    have i: "i < length (connections s)" "unat (tc_pending (connections s ! i)) < MAX_PENDING_REQS"
      using pick [OF Some] by auto
    have e: "send_ok cfg s e" "i < length (conn_tx s)" using assms(2,5) es i by (simp_all add: rings_ok_def)
    then obtain req arg ia where req: "prepare_request cfg (se_req e) (thr_arg s) = Inr (req, arg)"
      and ret: "se_ret e = int (request_bytes req) \<or> se_ret e < 0 \<and> \<not> se_block e" and ia: "get_ia cfg (se_ia e) = Inr ia"
      by (auto simp: send_ok_def)
    show ?thesis
    proof (cases "se_ret e < 0 \<and> \<not> se_block e")
      case True
      then have "one_send User_stamp cfg es s = Inr (Stop (s\<lparr>thr_arg := arg\<rparr>))"
        using es p Some req by (simp add: one_send_def try_send_def send_on_def Let_def)
      then show ?thesis
        using True es assms(1,2) by (auto simp: thread_ok_arg rings_ok_def sent_obs_def outstanding_def)
    next
      case False
      let ?p = "push_complete_tx_timestamp (se_measuring e) (se_time e) (conn_tx s ! i, thr_tx s)"
      let ?s' = "sent_on (s\<lparr>conn_tx := (conn_tx s)[i := fst ?p], thr_tx := snd ?p\<rparr>) i e arg ia"
      have "one_send User_stamp cfg es s = Inr (Go ?s')"
        using False ret es p Some req ia e(2) i(1)
        by (auto simp: one_send_def try_send_def send_on_def Let_def sent_on_def case_prod_unfold)
      moreover have "sent_obs cfg es s = [Sent i (se_time e)]" using False es p Some by (auto simp: sent_obs_def)
      ultimately show ?thesis
        using sent_refines [OF assms(1-3) i, of "se_measuring e" "se_time e" e arg ia] by (simp add: Let_def)
    qed
  qed
qed

subsection \<open>Receiving\<close>

lemma event_refines:
  assumes "app_ready cfg m" and "thread_ok m s" and "rings_ok s" and "ev_idx ev < length (connections s)"
    and "user_event_okay m st s ev"
  shows "\<exists>r xs. user_event cfg st ev s = Inr r \<and> thread_ok m (step_state r) \<and> rings_ok (step_state r)
    \<and> client_run (event_obs m s ev) (outstanding s) = Some (outstanding (step_state r), xs)
    \<and> (ev_measuring ev \<longrightarrow> records_latencies st k (kept (sampling_rate st) xs) (stats_view s) (stats_view (step_state r)))"
proof (cases "ev_ret ev = 0 \<or> ev_ret ev < 0 \<and> \<not> ev_block ev")
  case True
  have ev: "ev_in ev" using assms(5) by (simp add: user_event_okay_def)
  define r where "r = (if ev_ret ev = 0 then Go (close_conn s (ev_idx ev)) else Stop s)"
  have "user_event cfg st ev s = Inr r"
    using on_readable_no_data [OF assms(4) True] ev by (simp add: user_event_def r_def)
  moreover have "rings_ok (close_conn s (ev_idx ev))"
    using assms(3,4) by (simp add: rings_ok_def close_conn_def nth_list_update)
  then have "thread_ok m (step_state r) \<and> rings_ok (step_state r)"
    using assms(2,3) thread_ok_close [OF assms(2,4)] by (simp add: r_def)
  moreover have "outstanding (step_state r) = outstanding s" "stats_view (step_state r) = stats_view s"
    by (simp_all add: r_def close_conn_def outstanding_def stats_view_def)
  moreover have "event_obs m s ev = []" using True by (auto simp: event_obs_def)
  ultimately show ?thesis using records_latencies_refl by (intro exI [of _ r] exI [of _ "[]"]) simp
next
  case False
  let ?i = "ev_idx ev" and ?c = "connections s ! ev_idx ev" and ?n = "arrived (connections s ! ev_idx ev) ev div m"
  have m: "0 < m" using assms(1) by (simp add: app_ready_def)
  have serve: "serves m ?c ev" "m dvd arrived ?c ev" "timely m s ev"
    "ev_measuring ev \<longrightarrow> lat_wf (word_of_int (per_thread_samples st)) (thr_stats s)"
    using False assms(5) unfolding user_event_okay_def by blast+
  obtain s' c' q' r where run: "user_event cfg st ev s = Inr (Go s')" and ok: "thread_ok m s'" "rings_ok s'"
    and got: "received_ok m ?c ev c' r" and q': "conn_tx s' = (conn_tx s)[?i := q']" "unread_times q' = drop ?n (unread_times (conn_tx s ! ?i))"
    and stats: "thr_tx s' = thr_tx s" "thr_stats s' = add_throughput_rx_sample (ev_measuring ev) r (after_user_match m st s ev)"
    using user_event_serves [OF assms(1-4) serve] by blast
  have "conn_ok m ?c" using assms(2,4) by (simp add: thread_ok_def)
  note pend = received_pending [OF got serve(1) this m]
  have n: "unat (br_reqs r) = ?n" using got by (simp add: received_ok_def)
  let ?d = "timespec_ns (ev_time ev) - timespec_ns (matched_time m s ev)"
  have "outstanding s' = (outstanding s)[?i := drop ?n (unread_times (conn_tx s ! ?i))]"
    by (simp add: outstanding_def q' map_update)
  moreover have "0 < ev_ret ev" using serve(1) by (simp add: serves_def)
  ultimately have obs: "client_run (event_obs m s ev) (outstanding s) = Some (outstanding s', [(ev_rnd ev, ?d)])"
    using assms(4) outstanding_fields(2-4) [OF assms(3)] pend n by (simp add: event_obs_def matched_time_def)
  have "records_latencies st k (kept (sampling_rate st) [(ev_rnd ev, ?d)]) (stats_view s) (stats_view s')" if "ev_measuring ev"
  proof -
    have "lat_wf (word_of_int (per_thread_samples st)) (thr_stats s)" using serve(4) that by simp
    from add_latency_sample_wf [OF this] that
    have "local_calls st True [Sample k (ev_rnd ev) ?d (Some (matched_time m s ev)), Count_rx k r] (stats_view s) = Inr (stats_view s')"
      by (simp add: stats_view_def stats after_user_match_def)
    then show ?thesis
      unfolding records_latencies_def
      by (intro exI [of _ "[Sample k (ev_rnd ev) ?d (Some (matched_time m s ev)), Count_rx k r]"]) (simp add: kept_def)
  qed
  with run ok obs show ?thesis by (intro exI [of _ "Go s'"] exI [of _ "[(ev_rnd ev, ?d)]"]) simp
qed

lemma events_refine:
  assumes "app_ready cfg m" and "thread_ok m s" and "rings_ok s" and "user_events_okay m cfg st evs s"
  shows "\<exists>r xs. event_loop (user_event cfg st) evs s = Inr r \<and> thread_ok m (step_state r) \<and> rings_ok (step_state r)
    \<and> client_run (events_obs m cfg st evs s) (outstanding s) = Some (outstanding (step_state r), xs)
    \<and> ((\<forall>ev \<in> set evs. ev_measuring ev) \<longrightarrow>
        records_latencies st k (kept (sampling_rate st) xs) (stats_view s) (stats_view (step_state r)))"
  using assms(2-4)
proof (induction evs arbitrary: s)
  case Nil
  then show ?case using records_latencies_refl by (intro exI [of _ "Go s"] exI [of _ "[]"]) simp
next
  case (Cons ev evs)
  obtain r1 xs where r1: "user_event cfg st ev s = Inr r1" "thread_ok m (step_state r1)" "rings_ok (step_state r1)"
    and obs1: "client_run (event_obs m s ev) (outstanding s) = Some (outstanding (step_state r1), xs)"
    and rec1: "ev_measuring ev \<longrightarrow> records_latencies st k (kept (sampling_rate st) xs) (stats_view s) (stats_view (step_state r1))"
    using event_refines [OF assms(1) Cons.prems(1,2), of ev st k] Cons.prems(3) by auto
  show ?case
  proof (cases r1)
    case (Stop s')
    then show ?thesis using r1 obs1 rec1 by (intro exI [of _ r1] exI [of _ xs]) simp
  next
    case (Go s')
    then have "user_events_okay m cfg st evs s'" using Cons.prems(3) r1(1) by simp
    with Cons.IH [of s'] r1 Go obtain r ys where r: "event_loop (user_event cfg st) evs s' = Inr r"
      "thread_ok m (step_state r)" "rings_ok (step_state r)"
      and obs: "client_run (events_obs m cfg st evs s') (outstanding s') = Some (outstanding (step_state r), ys)"
      and rec: "(\<forall>ev \<in> set evs. ev_measuring ev) \<longrightarrow>
        records_latencies st k (kept (sampling_rate st) ys) (stats_view s') (stats_view (step_state r))" by auto
    have "client_run (events_obs m cfg st (ev # evs) s) (outstanding s) = Some (outstanding (step_state r), xs @ ys)"
      using client_run_trans [OF obs1] obs r1(1) Go by simp
    moreover have "records_latencies st k (kept (sampling_rate st) (xs @ ys)) (stats_view s) (stats_view (step_state r))"
      if "\<forall>e \<in> set (ev # evs). ev_measuring e"
      using that rec1 rec Go records_latencies_trans by (simp add: kept_append)
    ultimately show ?thesis using r r1(1) Go by (intro exI [of _ r] exI [of _ "xs @ ys"]) simp
  qed
qed

subsection \<open>An iteration\<close>

text \<open>What the peer and the system do in an iteration: sends are accepted whole, responses are whole and timely.\<close>

definition iter_obeys :: "nat \<Rightarrow> agent_config \<Rightarrow> stats_state \<Rightarrow> iter_env \<Rightarrow> thread_state \<Rightarrow> bool" where
  "iter_obeys m cfg st e s \<longleftrightarrow> rings_young s \<and> (\<forall>x \<in> set (ie_sends e). send_ok cfg s x)
     \<and> (case one_send User_stamp cfg (ie_sends e) s of
          Inr (Go s1) \<Rightarrow> user_events_okay m cfg st (ie_events e) s1 | _ \<Rightarrow> True)"

lemma user_iter_refines:
  assumes "app_ready cfg m" and "thread_ok m s" and "rings_ok s" and "threads_conns cfg s" and "iter_obeys m cfg st e s"
  shows "\<exists>r xs. user_iter cfg st e s = Inr r \<and> thread_ok m (step_state r) \<and> rings_ok (step_state r)
    \<and> client_run (iter_obs m cfg st e s) (outstanding s) = Some (outstanding (step_state r), xs)
    \<and> (same_flag True e \<longrightarrow>
        records_latencies st k (kept (sampling_rate st) xs) (stats_view s) (stats_view (step_state r)))"
proof (cases "ie_load e")
  case False
  let ?s' = "s\<lparr>next_tx := ie_idle_now e\<rparr>"
  have "thread_ok m ?s'" "rings_ok ?s'" using assms(2,3) by (simp_all add: thread_ok_def rings_ok_def)
  then show ?thesis
    using False records_latencies_refl
    by (intro exI [of _ "Go ?s'"] exI [of _ "[]"]) (simp add: user_iter_def iter_obs_def outstanding_def stats_view_def)
next
  case True
  have obeys: "rings_young s" "\<forall>x \<in> set (ie_sends e). send_ok cfg s x" using assms(5) by (simp_all add: iter_obeys_def)
  obtain r1 where r1: "one_send User_stamp cfg (ie_sends e) s = Inr r1" "thread_ok m (step_state r1)" "rings_ok (step_state r1)"
    and obs1: "client_run (sent_obs cfg (ie_sends e) s) (outstanding s) = Some (outstanding (step_state r1), [])"
    using one_send_refines [OF assms(2,3) obeys(1) assms(4) obeys(2)] by blast
  have rec1: "records_latencies st k [] (stats_view s) (stats_view (step_state r1))" if "same_flag True e"
    using one_send_records [OF r1(1)] that by (intro records_latencies_Nil) (simp add: same_flag_def)
  show ?thesis
  proof (cases r1)
    case (Stop s1)
    then show ?thesis
      using True r1 obs1 rec1 by (intro exI [of _ r1] exI [of _ "[]"]) (simp add: user_iter_def then_events_def iter_obs_def)
  next
    case (Go s1)
    have "user_events_okay m cfg st (ie_events e) s1" using assms(5) r1(1) Go by (simp add: iter_obeys_def)
    with events_refine [OF assms(1)] r1 Go obtain r xs where r: "event_loop (user_event cfg st) (ie_events e) s1 = Inr r"
      "thread_ok m (step_state r)" "rings_ok (step_state r)"
      and obs: "client_run (events_obs m cfg st (ie_events e) s1) (outstanding s1) = Some (outstanding (step_state r), xs)"
      and rec: "(\<forall>ev \<in> set (ie_events e). ev_measuring ev) \<longrightarrow>
        records_latencies st k (kept (sampling_rate st) xs) (stats_view s1) (stats_view (step_state r))" by force
    have "records_latencies st k (kept (sampling_rate st) xs) (stats_view s) (stats_view (step_state r))" if "same_flag True e"
      using records_latencies_trans [OF rec1 [OF that]] rec that Go by (simp add: same_flag_def)
    then show ?thesis
      using True r r1(1) Go client_run_trans [OF obs1] obs
      by (intro exI [of _ r] exI [of _ xs]) (simp add: user_iter_def then_events_def iter_obs_def)
  qed
qed

text \<open>
  C14. The symmetric agent is a correct client: an iteration of its main loop on a well-behaved peer never
  fails, keeps its bookkeeping, and is a run of the abstract client. Every request goes behind the
  outstanding ones of its connection, every response answers the oldest of them, and the latencies
  that the iteration records while measuring are exactly the client's response times, as far as they
  are sampled.
\<close>

theorem user_iter_refines_client:
  assumes "app_ready cfg m" and "thread_ok m s" and "rings_ok s" and "threads_conns cfg s" and "iter_obeys m cfg st e s"
  shows "\<exists>r xs. user_iter cfg st e s = Inr r \<and> thread_ok m (step_state r) \<and> rings_ok (step_state r)
    \<and> client_run (iter_obs m cfg st e s) (outstanding s) = Some (outstanding (step_state r), xs)
    \<and> (same_flag True e \<longrightarrow> (\<exists>rs. local_calls st True rs (stats_view s) = Inr (stats_view (step_state r))
          \<and> latencies (sampling_rate st) rs = kept (sampling_rate st) xs))"
  using user_iter_refines [OF assms, of 0] unfolding records_latencies_def by meson

text \<open>The request sent at 5 s 10 ns is answered at 5 s 40 ns.\<close>

lemma ex_obeys: "iter_obeys 8 ex_cfg ex_st ex_env ex_thread"
  using ex_ready(4) ex_timely ex_rings(2)
  by (auto simp: iter_obeys_def ex_env_def one_send_def user_event_okay_def ex_conn split: sum.splits step.splits)

theorem user_iter_refines_client_witness:
  "\<exists>r. user_iter ex_cfg ex_st ex_env ex_thread = Inr r \<and> outstanding (step_state r) = [[]]
     \<and> client_run [Answered 0 1 (Timespec 5 40) (Fin 0)] [[Timespec 5 10]] = Some ([[]], [(Fin 0, 30)])"
proof -
  have "user_event ex_cfg ex_st ex_event ex_thread = user_event ex_cfg ex_st ex_event ex_thread
      \<and> iter_obs 8 ex_cfg ex_st ex_env ex_thread = [Answered 0 1 (Timespec 5 40) (Fin 0)]"
    by (auto simp: iter_obs_def ex_env_def sent_obs_def one_send_def event_obs_def ex_conn split: sum.splits step.splits)
      (simp_all add: ex_event_def)
  moreover have "outstanding ex_thread = [[Timespec 5 10]]"
    using ex_rings(3) by (simp add: outstanding_def) (simp add: ex_thread_def)
  ultimately show ?thesis
    using user_iter_refines_client [OF ex_ready(1,2) ex_rings(1) ex_ready(3) ex_obeys]
    by (auto simp: timespec_ns_def)
qed

end
