(* ===== verification/Card_Spec.thy ===== *)
theory Card_Spec
  imports Client_Spec
begin

text \<open>
  What a client promises whose times come from the network card. The card reports the transmission of a
  request some time after it was sent, one report covers all requests up to an offset of the stream, and
  a report can come after the response, or never. The abstract connection therefore keeps every request it
  has sent, with its offset and its transmit time once that is known. Matching a response means looking
  up the request it answers; nothing is ever skipped or shifted.
\<close>

subsection \<open>Connections\<close>

record card_conn =
  cc_requests :: "(nat \<times> timespec option) list"
  cc_answered :: nat

definition new_card_conn :: card_conn where
  "new_card_conn = \<lparr>cc_requests = [], cc_answered = 0\<rparr>"

definition last_offset :: "card_conn \<Rightarrow> nat" where
  "last_offset c = (if cc_requests c = [] then 0 else fst (last (cc_requests c)))"

definition unanswered :: "card_conn \<Rightarrow> nat" where
  "unanswered c = length (cc_requests c) - cc_answered c"

definition add_request :: "nat \<Rightarrow> card_conn \<Rightarrow> card_conn" where
  "add_request n c = c\<lparr>cc_requests := cc_requests c @ [(last_offset c + n, None)]\<rparr>"

definition is_covered :: "nat \<Rightarrow> nat \<times> timespec option \<Rightarrow> bool" where
  "is_covered a r \<longleftrightarrow> snd r = None \<and> fst r \<le> a"

text \<open>A report for the bytes up to offset \<open>a\<close>: the requests it covers get its time.\<close>

definition add_report :: "nat \<Rightarrow> timespec \<Rightarrow> card_conn \<Rightarrow> card_conn" where
  "add_report a t c =
     c\<lparr>cc_requests := map (\<lambda>r. if is_covered a r then (fst r, Some t) else r) (cc_requests c)\<rparr>"

definition reported_times :: "nat \<Rightarrow> timespec \<Rightarrow> card_conn \<Rightarrow> timespec list" where
  "reported_times a t c = map (\<lambda>_. t) (filter (is_covered a) (cc_requests c))"

definition add_answers :: "nat \<Rightarrow> card_conn \<Rightarrow> card_conn" where
  "add_answers k c = c\<lparr>cc_answered := cc_answered c + k\<rparr>"

text \<open>The transmit time of the request that the \<open>k\<close>-th next response answers, if it is known.\<close>

definition answered_time :: "nat \<Rightarrow> card_conn \<Rightarrow> timespec option" where
  "answered_time k c = snd (cc_requests c ! (cc_answered c + k - 1))"

subsection \<open>Steps\<close>

text \<open>
  A request of \<open>n\<close> bytes on a connection; a report for a connection; \<open>k\<close> responses on a connection, the
  last byte of which the card received at \<open>t\<close>, with the number that decides whether it is sampled.
\<close>

datatype card_event =
    Requested nat nat
  | Reported nat nat timespec
  | Responded nat nat timespec dbl

text \<open>What is measured: response times, and transmit times for the check of the load.\<close>

type_synonym measured = "response_time list \<times> timespec list"

fun card_step :: "card_event \<Rightarrow> card_conn list \<Rightarrow> (card_conn list \<times> measured) option" where
  "card_step (Requested i n) cs =
     (if i < length cs \<and> 0 < n \<and> unanswered (cs ! i) < MAX_OUTSTANDING
      then Some (cs[i := add_request n (cs ! i)], [], []) else None)"
| "card_step (Reported i a t) cs =
     (if i < length cs then Some (cs[i := add_report a t (cs ! i)], [], reported_times a t (cs ! i)) else None)"
| "card_step (Responded i k t rnd) cs =
     (if i < length cs \<and> 0 < k \<and> k \<le> unanswered (cs ! i)
      then Some (cs[i := add_answers k (cs ! i)],
             (case answered_time k (cs ! i) of None \<Rightarrow> [] | Some tx \<Rightarrow> [(rnd, timespec_ns t - timespec_ns tx)]), [])
      else None)"

fun card_run :: "card_event list \<Rightarrow> card_conn list \<Rightarrow> (card_conn list \<times> measured) option" where
  "card_run [] cs = Some (cs, [], [])"
| "card_run (w # ws) cs =
     Option.bind (card_step w cs) (\<lambda>(cs1, xs, ts).
     Option.bind (card_run ws cs1) (\<lambda>(cs2, xs', ts'). Some (cs2, xs @ xs', ts @ ts')))"

lemma card_run_trans:
  "card_run ws cs = Some (cs1, xs, ts) \<Longrightarrow> card_run ws' cs1 = Some (cs2, xs', ts') \<Longrightarrow>
   card_run (ws @ ws') cs = Some (cs2, xs @ xs', ts @ ts')"
proof (induction ws arbitrary: cs xs ts)
  case (Cons w ws)
  then show ?case by (auto simp: Option.bind_eq_Some_conv)
qed simp

lemma card_run_length: "card_run ws cs = Some (cs', xs, ts) \<Longrightarrow> length cs' = length cs"
proof (induction ws arbitrary: cs xs ts)
  case (Cons w ws)
  then obtain cs1 xs1 ts1 xs2 ts2 where step: "card_step w cs = Some (cs1, xs1, ts1)" "card_run ws cs1 = Some (cs', xs2, ts2)"
    by (auto simp: Option.bind_eq_Some_conv)
  then have "length cs1 = length cs" by (cases w) (auto split: if_splits)
  with Cons.IH [OF step(2)] show ?case by simp
qed simp

text \<open>The client as far as response times are concerned.\<close>

definition card_client :: "card_event list \<Rightarrow> card_conn list \<Rightarrow> (card_conn list \<times> response_time list) option" where
  "card_client ws cs = map_option (\<lambda>(cs', xs, ts). (cs', xs)) (card_run ws cs)"

text \<open>The transmit times it learns in a run.\<close>

definition card_sent :: "card_event list \<Rightarrow> card_conn list \<Rightarrow> timespec list" where
  "card_sent ws cs = (case card_run ws cs of None \<Rightarrow> [] | Some (cs', xs, ts) \<Rightarrow> ts)"

subsection \<open>What a connection looks like\<close>

lemma add_simps [simp]:
  "cc_answered (add_request n c) = cc_answered c" "cc_answered (add_report a t c) = cc_answered c"
  "length (cc_requests (add_request n c)) = Suc (length (cc_requests c))"
  "length (cc_requests (add_report a t c)) = length (cc_requests c)"
  "cc_requests (add_answers k c) = cc_requests c" "cc_answered (add_answers k c) = cc_answered c + k"
  "add_answers j (add_answers k c) = add_answers (k + j) c" "add_answers 0 c = c"
  "add_report a t (add_answers k c) = add_answers k (add_report a t c)"
  "reported_times a t (add_answers k c) = reported_times a t c"
  by (simp_all add: add_request_def add_report_def add_answers_def reported_times_def)

lemma offsets_add_report [simp]: "map fst (cc_requests (add_report a t c)) = map fst (cc_requests c)"
  by (simp add: add_report_def o_def if_distrib)

lemma last_offset_simps [simp]:
  "last_offset (add_request n c) = last_offset c + n" "last_offset (add_report a t c) = last_offset c"
  "last_offset (add_answers k c) = last_offset c"
proof -
  show "last_offset (add_request n c) = last_offset c + n" by (simp add: last_offset_def add_request_def)
  have "fst (last (cc_requests (add_report a t c))) = fst (last (cc_requests c))" if "cc_requests c \<noteq> []"
    using that by (simp add: add_report_def last_map)
  moreover have "cc_requests (add_report a t c) = [] \<longleftrightarrow> cc_requests c = []" by (simp add: add_report_def)
  ultimately show "last_offset (add_report a t c) = last_offset c" by (simp add: last_offset_def)
qed (simp add: last_offset_def)

text \<open>Offsets grow along the connection.\<close>

definition offsets_grow :: "card_conn \<Rightarrow> bool" where
  "offsets_grow c \<longleftrightarrow> sorted_wrt (<) (map fst (cc_requests c)) \<and> (\<forall>r \<in> set (cc_requests c). fst r \<le> last_offset c)"

lemma offsets_grow_add:
  assumes "offsets_grow c"
  shows "0 < n \<Longrightarrow> offsets_grow (add_request n c)" and "offsets_grow (add_report a t c)" and "offsets_grow (add_answers k c)"
proof -
  show "0 < n \<Longrightarrow> offsets_grow (add_request n c)"
    using assms by (fastforce simp: offsets_grow_def sorted_wrt_append add_request_def [of n c] last_offset_def)
  have "fst r \<le> last_offset c" if r: "r \<in> set (cc_requests (add_report a t c))" for r
  proof -
    have "fst r \<in> set (map fst (cc_requests (add_report a t c)))" unfolding list.set_map using r by (rule imageI)
    then have "fst r \<in> fst ` set (cc_requests c)" by (simp only: offsets_add_report list.set_map)
    then show ?thesis using assms by (auto simp: offsets_grow_def)
  qed
  then show "offsets_grow (add_report a t c)" using assms by (simp add: offsets_grow_def)
  show "offsets_grow (add_answers k c)" using assms by (simp add: offsets_grow_def)
qed

lemma offsets_less: "offsets_grow c \<Longrightarrow> j < k \<Longrightarrow> k < length (cc_requests c) \<Longrightarrow> fst (cc_requests c ! j) < fst (cc_requests c ! k)"
  using sorted_wrt_nth_less [of "(<)" "map fst (cc_requests c)" j k] by (simp add: offsets_grow_def)

end
