(* ===== verification/Card_Ring.thy ===== *)
theory Card_Ring
  imports Card_Spec Transport_Latency
begin

text \<open>
  The ring of a connection with hardware timestamps represents a connection of \<open>Card_Spec\<close>: its counters
  count the requests, the reports and the answers, and its 16 slots hold the last 16 requests. Each
  operation on the ring is the operation of the specification.
\<close>

subsection \<open>Representation\<close>

text \<open>The slots: what is stored for the requests that still can be in the ring.\<close>

definition slots_hold :: "pending_tx \<Rightarrow> card_conn \<Rightarrow> bool" where
  "slots_hold q c \<longleftrightarrow> length (pq_pending q) = MAX_PENDING_REQS \<and>
     (\<forall>k < length (cc_requests c). length (cc_requests c) \<le> k + MAX_PENDING_REQS \<longrightarrow>
        unat (ti_optid (entry q k)) = fst (cc_requests c ! k)
        \<and> (\<forall>t. snd (cc_requests c ! k) = Some t \<longrightarrow> ti_time (entry q k) = t))"

text \<open>The counters: the first \<open>tail\<close> requests are the ones reported.\<close>

definition counters_match :: "pending_tx \<Rightarrow> card_conn \<Rightarrow> bool" where
  "counters_match q c \<longleftrightarrow> unat (pq_head q) = length (cc_requests c) \<and> unat (pq_consumed q) = cc_answered c
     \<and> cc_answered c \<le> length (cc_requests c) \<and> unanswered c \<le> MAX_PENDING_REQS
     \<and> unat (pq_tail q) \<le> length (cc_requests c) \<and> length (cc_requests c) \<le> unat (pq_tail q) + MAX_PENDING_REQS
     \<and> unat (tx_byte_counter q) = last_offset c
     \<and> (\<forall>k < length (cc_requests c). snd (cc_requests c ! k) = None \<longleftrightarrow> unat (pq_tail q) \<le> k)"

definition times_known :: "card_conn \<Rightarrow> bool" where
  "times_known c \<longleftrightarrow> (\<forall>r \<in> set (cc_requests c). \<forall>t. snd r = Some t \<longrightarrow> tv_sec t \<noteq> 0)"

definition represents :: "pending_tx \<Rightarrow> card_conn \<Rightarrow> bool" where
  "represents q c \<longleftrightarrow> slots_hold q c \<and> counters_match q c \<and> offsets_grow c \<and> times_known c"

lemma represents_pq_wf: "represents q c \<Longrightarrow> pq_wf q"
  by (auto simp: represents_def slots_hold_def counters_match_def pq_wf_def unanswered_def word_le_nat_alt)

lemma represents_in_flight: "represents q c \<Longrightarrow> in_flight q = unanswered c"
  by (simp add: represents_def counters_match_def in_flight_def unanswered_def)

lemma represents_new: "represents zero_pending new_card_conn"
  by (simp add: represents_def slots_hold_def counters_match_def offsets_grow_def times_known_def new_card_conn_def
      zero_pending_def unanswered_def last_offset_def)

subsection \<open>A request\<close>

text \<open>The ring has room for a request of \<open>n\<close> bytes: the card has reported all but the last 15, and the counters do not wrap.\<close>

definition ring_room :: "pending_tx \<Rightarrow> nat \<Rightarrow> bool" where
  "ring_room q n \<longleftrightarrow> 0 < n \<and> unat (pq_head q) - unat (pq_tail q) < MAX_PENDING_REQS
     \<and> unat (pq_head q) + 1 < 2 ^ 32 \<and> unat (tx_byte_counter q) + n < 2 ^ 32"

lemma unat_add_of_nat_u32: "unat (w :: u32) + n < 2 ^ 32 \<Longrightarrow> unat (w + word_of_nat n) = unat w + n"
proof -
  assume sum: "unat w + n < 2 ^ 32"
  then have "unat (word_of_nat n :: u32) = n" by (intro unat_of_nat_u32) linarith
  with sum show ?thesis by (simp add: unat_add_lem [THEN iffD1])
qed

lemma add_pending_fields:
  "pq_head (add_pending_tx_timestamp q b) = pq_head q + 1" "pq_tail (add_pending_tx_timestamp q b) = pq_tail q"
  "pq_consumed (add_pending_tx_timestamp q b) = pq_consumed q"
  "tx_byte_counter (add_pending_tx_timestamp q b) = tx_byte_counter q + b"
  "length (pq_pending (add_pending_tx_timestamp q b)) = length (pq_pending q)"
  by (simp_all add: add_pending_tx_timestamp_def Let_def)

lemma entry_add_pending:
  assumes "length (pq_pending q) = MAX_PENDING_REQS"
  shows "entry (add_pending_tx_timestamp q b) (unat (pq_head q)) = (entry q (unat (pq_head q)))\<lparr>ti_optid := tx_byte_counter q + b\<rparr>"
    and "k < unat (pq_head q) \<Longrightarrow> unat (pq_head q) < k + MAX_PENDING_REQS \<Longrightarrow> entry (add_pending_tx_timestamp q b) k = entry q k"
  using assms slot_neq_window [of k "unat (pq_head q)"]
  by (simp_all add: add_pending_tx_timestamp_def Let_def entry_def slot_def)

lemma represents_request:
  assumes "represents q c" and "ring_room q n" and "unanswered c < MAX_PENDING_REQS"
  shows "represents (add_pending_tx_timestamp q (word_of_nat n)) (add_request n c)"
proof -
  let ?q = "add_pending_tx_timestamp q (word_of_nat n)" and ?c = "add_request n c" and ?n = "length (cc_requests c)"
  have slots: "slots_hold q c" and counters: "counters_match q c" and grow: "offsets_grow c" and known: "times_known c"
    using assms(1) by (simp_all add: represents_def)
  have head: "unat (pq_head q) = ?n" and len: "length (pq_pending q) = MAX_PENDING_REQS"
    and off: "unat (tx_byte_counter q) = last_offset c"
    using slots counters by (simp_all add: slots_hold_def counters_match_def)
  have count: "unat (tx_byte_counter q + word_of_nat n) = last_offset c + n"
    using assms(2) off by (simp add: ring_room_def unat_add_of_nat_u32)
  have Suc: "unat (pq_head q + 1) = Suc ?n" using assms(2) head by (simp add: ring_room_def unat_Suc_u32)
  have old: "cc_requests ?c ! k = cc_requests c ! k" if "k < ?n" for k
    using that by (simp add: add_request_def nth_append)
  have new: "cc_requests ?c ! ?n = (last_offset c + n, None)" by (simp add: add_request_def)
  have "unat (ti_optid (entry ?q k)) = fst (cc_requests ?c ! k) \<and> (\<forall>t. snd (cc_requests ?c ! k) = Some t \<longrightarrow> ti_time (entry ?q k) = t)"
    if k: "k < Suc ?n" "Suc ?n \<le> k + MAX_PENDING_REQS" for k
  proof (cases "k = ?n")
    case True
    then show ?thesis using entry_add_pending(1) [OF len, of "word_of_nat n"] new count head by simp
  next
    case False
    then have "k < ?n" "?n < k + MAX_PENDING_REQS" using k by simp_all
    then show ?thesis using entry_add_pending(2) [OF len, of k] slots old head by (simp add: slots_hold_def)
  qed
  then have "slots_hold ?q ?c" using len by (simp add: slots_hold_def add_pending_fields)
  moreover have "counters_match ?q ?c"
    using counters assms(2,3) Suc head count off old new
    by (auto simp: counters_match_def add_pending_fields unanswered_def ring_room_def less_Suc_eq)
  moreover have "offsets_grow ?c" using offsets_grow_add(1) [OF grow] assms(2) by (simp add: ring_room_def)
  moreover have "times_known ?c" using known by (simp add: times_known_def add_request_def)
  ultimately show ?thesis by (simp add: represents_def)
qed

subsection \<open>Answers\<close>

lemma represents_answers:
  assumes "represents q c" and "k \<le> unanswered c"
  shows "represents (consumed_by k q) (add_answers k c)"
proof -
  have "unat (pq_consumed (consumed_by k q)) = unat (pq_consumed q) + k"
    using unat_consumed_by [OF _ represents_pq_wf [OF assms(1)]] assms by (simp add: represents_in_flight)
  moreover have "offsets_grow (add_answers k c)" using offsets_grow_add(3) assms(1) by (simp add: represents_def)
  ultimately show ?thesis
    using assms
    by (auto simp: represents_def slots_hold_def counters_match_def unanswered_def times_known_def entry_def consumed_by_def)
qed

lemma represents_pop:
  assumes "represents q c" and "0 < unanswered c"
  shows "pop_pending_tx_timestamps q = Inr (if answered_time (Suc 0) c = None then (None, q)
    else (Some (entry q (cc_answered c)), consumed_by (Suc 0) q))"
    and "answered_time (Suc 0) c = Some t \<Longrightarrow> ti_time (entry q (cc_answered c)) = t"
proof -
  have counters: "counters_match q c" and slots: "slots_hold q c" using assms(1) by (simp_all add: represents_def)
  have le: "pq_consumed q \<le> pq_head q" using represents_pq_wf [OF assms(1)] by (simp add: pq_wf_def)
  have k: "cc_answered c < length (cc_requests c)" "length (cc_requests c) \<le> cc_answered c + MAX_PENDING_REQS"
    using counters assms(2) by (auto simp: counters_match_def unanswered_def le_diff_conv2)
  have "pq_consumed q < pq_tail q \<longleftrightarrow> answered_time (Suc 0) c \<noteq> None"
    using counters k(1) by (auto simp: counters_match_def answered_time_def word_less_nat_alt not_le)
  then show "pop_pending_tx_timestamps q = Inr (if answered_time (Suc 0) c = None then (None, q)
      else (Some (entry q (cc_answered c)), consumed_by (Suc 0) q))"
    using le counters by (simp add: pop_pending_tx_timestamps_def entry_def slot_def consumed_by_def counters_match_def)
  show "answered_time (Suc 0) c = Some t \<Longrightarrow> ti_time (entry q (cc_answered c)) = t"
    using slots k by (simp add: slots_hold_def answered_time_def)
qed

subsection \<open>A report\<close>

text \<open>
  A report that can be handled: it has a hardware time and covers at least the oldest request without one.
  At offset \<open>2^31\<close> the addition of one to the signed \<open>received_opid\<close> overflows.
\<close>

definition report_okay :: "pending_tx \<Rightarrow> (nat \<times> control_msg list) option \<Rightarrow> bool" where
  "report_okay q errs \<longleftrightarrow> errs = None \<or> (\<exists>t d. errs = nic_report t d \<and> tv_sec t \<noteq> 0 \<and> pq_tail q < pq_head q
     \<and> unat (ti_optid (entry q (unat (pq_tail q)))) \<le> unat d + 1 \<and> unat d + 1 < 2 ^ 32 \<and> unat d + 1 \<noteq> 2 ^ 31)"

fun card_report :: "(nat \<times> control_msg list) option \<Rightarrow> (nat \<times> timespec) option" where
  "card_report (Some (n, [Scm_timestamping [t0, t1, t], Ip_recverr e org d])) = Some (unat d + 1, t)"
| "card_report errs = None"

definition after_report :: "(nat \<times> timespec) option \<Rightarrow> card_conn \<Rightarrow> card_conn" where
  "after_report r c = (case r of None \<Rightarrow> c | Some (a, t) \<Rightarrow> add_report a t c)"

definition times_of_report :: "(nat \<times> timespec) option \<Rightarrow> card_conn \<Rightarrow> timespec list" where
  "times_of_report r c = (case r of None \<Rightarrow> [] | Some (a, t) \<Rightarrow> reported_times a t c)"

lemma report_simps [simp]:
  "after_report None c = c" "after_report (Some (a, t)) c = add_report a t c"
  "times_of_report None c = []" "times_of_report (Some (a, t)) c = reported_times a t c"
  "card_report (nic_report t d) = Some (unat d + 1, t)"
  by (simp_all add: after_report_def times_of_report_def nic_report_def)

lemma represents_increasing:
  assumes "represents q c"
  shows "increasing_offsets q"
proof -
  have slots: "slots_hold q c" and counters: "counters_match q c" and grow: "offsets_grow c"
    using assms by (simp_all add: represents_def)
  have "ti_optid (entry q j) < ti_optid (entry q k)" if "unat (pq_tail q) \<le> j" "j < k" "k < unat (pq_head q)" for j k
    using that slots counters offsets_less [OF grow that(2)] by (simp add: slots_hold_def counters_match_def word_less_nat_alt)
  then show ?thesis by (simp add: increasing_offsets_def sorted_wrt_iff_nth_less)
qed

text \<open>The requests a report covers are the next ones in the ring.\<close>

lemma represents_covered:
  assumes "represents q c" and "k < length (cc_requests c)"
  shows "is_covered (unat a) (cc_requests c ! k) \<longleftrightarrow> unat (pq_tail q) \<le> k \<and> k < unat (pq_tail q) + covered a q"
proof (cases "unat (pq_tail q) \<le> k")
  case True
  have "unat (pq_head q) = length (cc_requests c)" "length (cc_requests c) \<le> k + MAX_PENDING_REQS"
    "snd (cc_requests c ! k) = None"
    using assms True by (auto simp: represents_def counters_match_def)
  then show ?thesis
    using covered_iff [OF represents_increasing [OF assms(1)] True, of a] assms True
    by (simp add: is_covered_def represents_def slots_hold_def word_le_nat_alt)
next
  case False
  then show ?thesis using assms by (auto simp: is_covered_def represents_def counters_match_def)
qed

lemma covered_count:
  assumes "represents q c"
  shows "reported_times (unat a) t c = replicate (covered a q) t"
    and "unat (pq_tail q) + covered a q \<le> length (cc_requests c)"
proof -
  let ?n = "length (cc_requests c)" and ?T = "unat (pq_tail q)"
  have head: "unat (pq_head q) = ?n" "?T \<le> ?n" using assms by (simp_all add: represents_def counters_match_def)
  show le: "?T + covered a q \<le> ?n" using covered_le [of a q] head by simp
  have "{k. k < ?n \<and> is_covered (unat a) (cc_requests c ! k)} = {?T ..< ?T + covered a q}"
    using represents_covered [OF assms, of _ a] le by auto
  then have "length (filter (is_covered (unat a)) (cc_requests c)) = covered a q" by (simp add: length_filter_conv_card)
  then show "reported_times (unat a) t c = replicate (covered a q) t" by (simp add: reported_times_def map_replicate_const)
qed

lemma entry_stamp_below:
  assumes "k < unat (pq_tail q)" and "unat (pq_tail q) + n \<le> k + MAX_PENDING_REQS"
    and "length (pq_pending q) = MAX_PENDING_REQS"
  shows "entry (stamp_next t n q) k = entry q k"
proof -
  have "j mod MAX_PENDING_REQS \<noteq> k mod MAX_PENDING_REQS" if "j \<in> {unat (pq_tail q) ..< unat (pq_tail q) + n}" for j
    using that assms(1,2) slot_neq_window [of k j] by simp
  then show ?thesis using assms(3) by (simp add: entry_def stamp_next_def nth_stamp)
qed

lemma nth_add_report:
  "k < length (cc_requests c) \<Longrightarrow> cc_requests (add_report a t c) ! k
    = (if is_covered a (cc_requests c ! k) then (fst (cc_requests c ! k), Some t) else cc_requests c ! k)"
  by (simp add: add_report_def)

lemma represents_report:
  assumes "represents q c" and "tv_sec t \<noteq> 0"
  shows "represents (stamp_next t (covered a q) q) (add_report (unat a) t c)"
proof -
  let ?q = "stamp_next t (covered a q) q" and ?c = "add_report (unat a) t c" and ?n = "length (cc_requests c)" and ?T = "unat (pq_tail q)"
  have slots: "slots_hold q c" and counters: "counters_match q c" and grow: "offsets_grow c" and known: "times_known c"
    using assms(1) by (simp_all add: represents_def)
  have head: "unat (pq_head q) = ?n" "?T \<le> ?n" "?n \<le> ?T + MAX_PENDING_REQS" and len: "length (pq_pending q) = MAX_PENDING_REQS"
    and le: "?T + covered a q \<le> ?n"
    using slots counters covered_count(2) [OF assms(1)] by (simp_all add: slots_hold_def counters_match_def)
  have tail: "unat (pq_tail ?q) = ?T + covered a q" using unat_tail_stamp_next [of q "covered a q" t] le head(1) by simp
  note cov = represents_covered [OF assms(1), of _ a] and nth = nth_add_report [of _ c "unat a" t]
  have entry: "entry ?q k = (if is_covered (unat a) (cc_requests c ! k) then (entry q k)\<lparr>ti_time := t\<rparr> else entry q k)"
    if k: "k < ?n" "?n \<le> k + MAX_PENDING_REQS" for k
  proof (cases "?T \<le> k")
    case True
    then show ?thesis
      using entry_stamp_next [OF True, of "covered a q" t] cov [OF k(1)] k(1) head le len by simp
  next
    case False
    then have "entry ?q k = entry q k" using k(2) le len by (intro entry_stamp_below) simp_all
    then show ?thesis using False cov [OF k(1)] by simp
  qed
  have "slots_hold ?q ?c" using slots by (auto simp: slots_hold_def entry nth)
  moreover have "snd (cc_requests ?c ! k) = None \<longleftrightarrow> ?T + covered a q \<le> k" if "k < ?n" for k
    using that counters nth [OF that] cov [OF that] by (auto simp: counters_match_def)
  then have "counters_match ?q ?c"
    using counters le tail by (simp add: counters_match_def unanswered_def stamp_next_def [of t _ q, THEN arg_cong [where f = tx_byte_counter]])
  moreover have "times_known ?c" using known assms(2) by (auto simp: times_known_def add_report_def)
  ultimately show ?thesis using offsets_grow_add(2) [OF grow] by (simp add: represents_def)
qed

text \<open>Reading the error queue is the report of the specification.\<close>

lemma represents_get_tx:
  assumes "represents q c" and "report_okay q errs"
  shows "\<exists>ret opid' q'. get_tx_timestamp b errs opid (q, txs)
      = Inr (ret, opid', q', fold (add_tx_timestamp b) (times_of_report (card_report errs) c) txs)
    \<and> represents q' (after_report (card_report errs) c) \<and> pq_consumed q' = pq_consumed q"
proof (cases errs)
  case None
  then show ?thesis using assms(1) by (simp add: get_tx_timestamp_def)
next
  case (Some m)
  obtain t d where r: "errs = nic_report t d" and t: "tv_sec t \<noteq> 0" and pending: "pq_tail q < pq_head q"
    and first: "unat (ti_optid (entry q (unat (pq_tail q)))) \<le> unat d + 1" and d: "unat d + 1 < 2 ^ 32" "unat d + 1 \<noteq> 2 ^ 31"
    using assms(2) Some unfolding report_okay_def by blast
  have a: "unat (d + 1) = unat d + 1" using d(1) by (rule unat_Suc_u32)
  have "sint d \<noteq> 2 ^ 31 - 1"
  proof
    assume "sint d = 2 ^ 31 - 1"
    then have "word_of_int (sint d) = (word_of_int (2 ^ 31 - 1) :: u32)" by simp
    then have "d = 2147483647" by simp
    then show False using d(2) by simp
  qed
  moreover have "ti_optid (entry q (unat (pq_tail q))) \<le> d + 1" using first a by (simp add: word_le_nat_alt)
  moreover have "length (pq_pending q) = MAX_PENDING_REQS" using assms(1) by (simp add: represents_def slots_hold_def)
  ultimately obtain opid' where run: "get_tx_timestamp b (nic_report t d) opid (q, txs)
      = Inr (1, opid', stamp_next t (covered (d + 1) q) q, (add_tx_timestamp b t ^^ covered (d + 1) q) txs)"
    using get_tx_timestamp_nic [OF _ pending represents_increasing [OF assms(1)] t] by blast
  have "fold (add_tx_timestamp b) (replicate n t) txs = (add_tx_timestamp b t ^^ n) txs" for n
    by (induction n arbitrary: txs) (simp_all add: funpow_swap1)
  then show ?thesis
    using run covered_count(1) [OF assms(1), of "d + 1" t] represents_report [OF assms(1) t, of "d + 1"] by (simp add: r a)
qed

end
