(* ===== verification/Nic_Client.thy ===== *)
theory Nic_Client
  imports Card_Ring Client
begin

text \<open>
  An iteration of the main loop of the agent with hardware timestamps refines the specification of
  \<open>Card_Spec\<close>: requests, reports from the error queue and responses are its events, and the latencies and
  transmit times that the iteration records are those it measures.
\<close>

subsection \<open>Abstraction\<close>

definition nic_represents :: "thread_state \<Rightarrow> card_conn list \<Rightarrow> bool" where
  "nic_represents s cs \<longleftrightarrow> length (conn_tx s) = length (connections s) \<and> length cs = length (connections s)
     \<and> (\<forall>i < length cs. represents (conn_tx s ! i) (cs ! i) \<and> unanswered (cs ! i) = unat (tc_pending (connections s ! i)))"

lemma nic_represents_update:
  assumes "nic_represents s cs" and "i < length (connections s)" and "represents q c" and "unanswered c = unat (tc_pending d)"
    and "connections s' = (connections s)[i := d]" and "conn_tx s' = (conn_tx s)[i := q]"
  shows "nic_represents s' (cs[i := c])"
  using assms by (simp add: nic_represents_def nth_list_update)

lemma nic_represents_cong:
  "nic_represents s cs \<Longrightarrow> connections s' = connections s \<Longrightarrow> conn_tx s' = conn_tx s \<Longrightarrow> nic_represents s' cs"
  by (simp add: nic_represents_def)

text \<open>The transmit time the code finds for the \<open>k\<close>-th next response, the error queue holding \<open>r\<close>.\<close>

definition transmit_of :: "nat \<Rightarrow> pending_tx \<Rightarrow> (nat \<times> timespec) option \<Rightarrow> timespec option" where
  "transmit_of k q r =
     (if last_answered k q < unat (pq_tail q) then Some (ti_time (entry q (last_answered k q)))
      else case r of None \<Rightarrow> None
        | Some (a, t) \<Rightarrow> if unat (ti_optid (entry q (last_answered k q))) \<le> a then Some t else None)"

text \<open>The error queue is read only if the time is missing.\<close>

definition report_read :: "nat \<Rightarrow> pending_tx \<Rightarrow> epoll_event \<Rightarrow> (nat \<times> timespec) option" where
  "report_read k q ev = (if last_answered k q < unat (pq_tail q) then None else card_report (ev_errqueue ev))"

lemma answered_simps:
  assumes "represents q c" and "0 < k" and "k \<le> unanswered c"
  shows "last_answered k q = cc_answered c + k - 1" and "cc_answered c + k - 1 < length (cc_requests c)"
    and "length (cc_requests c) \<le> cc_answered c + k - 1 + MAX_PENDING_REQS"
    and "answered_time k c \<noteq> None \<longleftrightarrow> last_answered k q < unat (pq_tail q)"
proof -
  have counters: "counters_match q c" using assms(1) by (simp add: represents_def)
  then show last: "last_answered k q = cc_answered c + k - 1" by (simp add: counters_match_def last_answered_def)
  show less: "cc_answered c + k - 1 < length (cc_requests c)" using assms(2,3) by (auto simp: unanswered_def)
  show "length (cc_requests c) \<le> cc_answered c + k - 1 + MAX_PENDING_REQS"
    using counters assms(2) by (auto simp: counters_match_def unanswered_def)
  show "answered_time k c \<noteq> None \<longleftrightarrow> last_answered k q < unat (pq_tail q)"
    using counters less unfolding last answered_time_def counters_match_def by (metis not_le)
qed

lemma transmit_of_represents:
  assumes "represents q c" and "0 < k" and "k \<le> unanswered c"
  shows "transmit_of k q (card_report (ev_errqueue ev)) = answered_time k (after_report (report_read k q ev) c)"
proof -
  let ?j = "cc_answered c + k - 1"
  note s = answered_simps [OF assms]
  have slot: "unat (ti_optid (entry q ?j)) = fst (cc_requests c ! ?j)"
    "\<And>t. snd (cc_requests c ! ?j) = Some t \<Longrightarrow> ti_time (entry q ?j) = t"
    using assms(1) s(2,3) by (simp_all add: represents_def slots_hold_def)
  show ?thesis
  proof (cases "last_answered k q < unat (pq_tail q)")
    case True
    then obtain t where "answered_time k c = Some t" using s(4) by blast
    then show ?thesis using True slot(2) by (simp add: transmit_of_def report_read_def s(1) answered_time_def)
  next
    case False
    then have "snd (cc_requests c ! ?j) = None" using s(4) by (simp add: answered_time_def)
    then show ?thesis
      using False slot(1) s(1,2)
      by (cases "card_report (ev_errqueue ev)")
        (auto simp: transmit_of_def report_read_def answered_time_def nth_add_report is_covered_def)
  qed
qed

subsection \<open>Matching a response\<close>

lemma nic_pop_refines:
  assumes "represents q c" and "unat reqs = k" and "0 < k" and "k \<le> unanswered c"
    and "last_answered k q < unat (pq_tail q) \<or> report_okay q (ev_errqueue ev)"
  shows "\<exists>t q' opid. nic_pop ev (skip_but_last reqs q) s = Inr (t, q', s\<lparr>received_opid := opid,
        thr_tx := fold (add_tx_timestamp (ev_measuring ev)) (times_of_report (report_read k q ev) c) (thr_tx s)\<rparr>)
    \<and> map_option ti_time t = answered_time k (after_report (report_read k q ev) c)
    \<and> represents q' (add_answers k (after_report (report_read k q ev) c))"
proof -
  obtain j where j: "k = Suc j" using assms(3) by (cases k) simp_all
  have "unanswered c \<le> 16" using assms(1) by (simp add: represents_def counters_match_def MAX_PENDING_REQS_def)
  then have skip: "skip_but_last reqs q = consumed_by j q" using assms(2,4) j by (intro skip_but_last_consumed) simp_all
  let ?q = "consumed_by j q" and ?c = "add_answers j c" and ?e = "ev_errqueue ev"
  have rep: "represents ?q ?c" using assms(4) j by (intro represents_answers [OF assms(1)]) simp
  have un: "0 < unanswered ?c" using assms(4) j by (simp add: unanswered_def)
  have shift: "answered_time (Suc 0) (add_answers j d) = answered_time k d" for d by (simp add: answered_time_def j)
  have first: "answered_time k c \<noteq> None \<longleftrightarrow> last_answered k q < unat (pq_tail q)" by (rule answered_simps(4) [OF assms(1,3,4)])
  have one: "add_answers (Suc 0) (add_answers j d) = add_answers k d" for d by (simp add: j)
  show ?thesis
  proof (cases "answered_time k c")
    case (Some t)
    then have "nic_pop ev (skip_but_last reqs q) s = Inr (Some (entry ?q (cc_answered ?c)), consumed_by (Suc 0) ?q, s)"
      using represents_pop(1) [OF rep un] by (simp add: nic_pop_def skip shift)
    moreover have "represents (consumed_by (Suc 0) ?q) (add_answers k c)"
      using represents_answers [OF rep, of "Suc 0"] un one by simp
    ultimately show ?thesis
      using Some first represents_pop(2) [OF rep un, of t]
      by (intro exI [of _ "Some (entry ?q (cc_answered ?c))"] exI [of _ "consumed_by (Suc 0) ?q"] exI [of _ "received_opid s"])
        (simp add: report_read_def shift)
  next
    case None
    let ?r = "card_report ?e"
    have read: "report_read k q ev = ?r" using None first by (simp add: report_read_def)
    have "report_okay ?q ?e" using None first assms(5) by (simp add: report_okay_def entry_def)
    from represents_get_tx [OF rep this, of "ev_measuring ev" "received_opid s" "thr_tx s"]
    obtain ret opid q2 where get: "get_tx_timestamp (ev_measuring ev) ?e (received_opid s) (?q, thr_tx s)
        = Inr (ret, opid, q2, fold (add_tx_timestamp (ev_measuring ev)) (times_of_report ?r ?c) (thr_tx s))"
      and rep2: "represents q2 (after_report ?r ?c)" by blast
    have comm: "after_report ?r ?c = add_answers j (after_report ?r c)" "times_of_report ?r ?c = times_of_report ?r c"
      by (cases ?r; simp add: after_report_def times_of_report_def split: prod.split)+
    have un2: "0 < unanswered (after_report ?r ?c)" using un by (cases ?r) (auto simp: unanswered_def)
    let ?t = "if answered_time k (after_report ?r c) = None then None else Some (entry q2 (cc_answered (after_report ?r ?c)))"
    have pop: "pop_pending_tx_timestamps q2 = Inr (?t, if ?t = None then q2 else consumed_by (Suc 0) q2)"
      using represents_pop(1) [OF rep2 un2] shift [of "after_report ?r c"] by (simp add: comm)
    have "nic_pop ev (skip_but_last reqs q) s = Inr (?t, consumed_by (Suc 0) q2, s\<lparr>received_opid := opid,
        thr_tx := fold (add_tx_timestamp (ev_measuring ev)) (times_of_report ?r c) (thr_tx s)\<rparr>)"
      using represents_pop(1) [OF rep un] None get pop
      by (simp add: nic_pop_def skip shift comm(2) consumed_by_def [of "Suc 0" q2] split: if_split_asm)
    moreover have "represents (consumed_by (Suc 0) q2) (add_answers k (after_report ?r c))"
      using represents_answers [OF rep2, of "Suc 0"] un2 one by (simp add: comm)
    moreover have "map_option ti_time ?t = answered_time k (after_report ?r c)"
      using represents_pop(2) [OF rep2 un2] shift [of "after_report ?r c"]
      by (cases "answered_time k (after_report ?r c)") (simp_all add: comm)
    ultimately show ?thesis unfolding read by blast
  qed
qed

text \<open>The hardware receive time among the control messages.\<close>

fun card_time :: "control_msg list \<Rightarrow> timespec" where
  "card_time [Scm_timestamping [sw, legacy, t]] = t"
| "card_time ms = zero_timespec"

definition stamped_by_card :: "epoll_event \<Rightarrow> bool" where
  "stamped_by_card ev \<longleftrightarrow> (\<exists>sw legacy. ev_cmsgs ev = [Scm_timestamping [sw, legacy, card_time (ev_cmsgs ev)]])
     \<and> tv_sec (card_time (ev_cmsgs ev)) \<noteq> 0"

text \<open>What is measured for a response to a request sent at \<open>tx\<close>, and what becomes of the latencies.\<close>

definition response_times :: "epoll_event \<Rightarrow> timespec option \<Rightarrow> response_time list" where
  "response_times ev tx = (case tx of None \<Rightarrow> [] | Some t \<Rightarrow> [(ev_rnd ev, wire_time (card_time (ev_cmsgs ev)) t)])"

definition after_nic_match :: "stats_state \<Rightarrow> epoll_event \<Rightarrow> timespec option \<Rightarrow> latency_stats \<Rightarrow> latency_stats" where
  "after_nic_match st ev tx ts =
     (case tx of None \<Rightarrow> ts
      | Some t \<Rightarrow> if \<not> ev_measuring ev \<or> sampling_rate st < ev_rnd ev then ts
          else lat_store (word_of_int (per_thread_samples st)) ts (wire_time (card_time (ev_cmsgs ev)) t, Some t))"

lemma timestamp_recv_card:
  "ms = [Scm_timestamping [sw, legacy, t]] \<Longrightarrow> tv_sec t \<noteq> 0 \<Longrightarrow> 0 < n \<Longrightarrow>
   timestamp_recv n ms rx opid = Inr (n, zero_info\<lparr>ti_time := t\<rparr>, opid)"
  by (simp add: timestamp_recv_def extract_timestamps_def)

lemma receive_stamp_card:
  assumes "stamped_by_card ev" and "0 < ev_ret ev"
  shows "receive_stamp ev s = Inr (s\<lparr>thr_rx := zero_info\<lparr>ti_time := card_time (ev_cmsgs ev)\<rparr>\<rparr>)"
proof -
  have "\<exists>sw legacy. ev_cmsgs ev = [Scm_timestamping [sw, legacy, card_time (ev_cmsgs ev)]]" "tv_sec (card_time (ev_cmsgs ev)) \<noteq> 0"
    using assms(1) by (simp_all add: stamped_by_card_def)
  then have "timestamp_recv (ev_ret ev) (ev_cmsgs ev) (thr_rx s) (received_opid s)
      = Inr (ev_ret ev, zero_info\<lparr>ti_time := card_time (ev_cmsgs ev)\<rparr>, received_opid s)"
    using timestamp_recv_card [OF _ _ assms(2)] by blast
  then show ?thesis by (simp add: receive_stamp_def)
qed

lemma nic_match_refines:
  assumes "represents q c" and "unat reqs = k" and "0 < k" and "k \<le> unanswered c"
    and "last_answered k q < unat (pq_tail q) \<or> report_okay q (ev_errqueue ev)"
    and "ev_idx ev < length (conn_tx s)" and "conn_tx s ! ev_idx ev = q"
    and "ti_time (thr_rx s) = card_time (ev_cmsgs ev)" and "stamped_by_card ev"
    and "\<forall>tx. transmit_of k q (card_report (ev_errqueue ev)) = Some tx \<longrightarrow> \<bar>wire_time (card_time (ev_cmsgs ev)) tx\<bar> < 2 ^ 53"
    and "ev_measuring ev \<longrightarrow> lat_wf (word_of_int (per_thread_samples st)) (thr_stats s)"
    and "r = report_read k q ev" and "tx = answered_time k (after_report r c)"
  shows "\<exists>q' opid. nic_match st ev reqs s = Inr (s\<lparr>conn_tx := (conn_tx s)[ev_idx ev := q'], received_opid := opid,
        thr_tx := fold (add_tx_timestamp (ev_measuring ev)) (times_of_report r c) (thr_tx s),
        thr_stats := after_nic_match st ev tx (thr_stats s)\<rparr>)
    \<and> represents q' (add_answers k (after_report r c))"
proof -
  let ?rx = "card_time (ev_cmsgs ev)"
  have rx: "tv_sec ?rx \<noteq> 0" using assms(9) by (simp add: stamped_by_card_def)
  obtain t q' opid where pop: "nic_pop ev (skip_but_last reqs q) s = Inr (t, q', s\<lparr>received_opid := opid,
        thr_tx := fold (add_tx_timestamp (ev_measuring ev)) (times_of_report r c) (thr_tx s)\<rparr>)"
    and t: "map_option ti_time t = tx" and rep: "represents q' (add_answers k (after_report r c))"
    using nic_pop_refines [OF assms(1-5), of s] assms(12,13) by auto
  have wire: "\<exists>d. timespec_diff (Some ?rx) (Some t') = (0, Some d)
      \<and> dbl_to_long (dbl_of_int (tv_nsec d) + dbl_of_int (tv_sec d) * Fin (10 ^ 9)) = Inr (wire_time ?rx t')" if "tx = Some t'" for t'
  proof (rule wire_time_sample [OF rx])
    have "cc_answered c + k - 1 < length (cc_requests (after_report r c))"
      using answered_simps(2) [OF assms(1,3,4)] by (cases r) auto
    then have "cc_requests (after_report r c) ! (cc_answered c + k - 1) \<in> set (cc_requests (after_report r c))" by simp
    moreover have "cc_answered (after_report r c) = cc_answered c" by (cases r) auto
    ultimately show "tv_sec t' \<noteq> 0"
      using rep that assms(13) by (auto simp: represents_def times_known_def answered_time_def)
    show "\<bar>wire_time ?rx t'\<bar> < 2 ^ 53"
      using assms(10) transmit_of_represents [OF assms(1,3,4), of ev] that assms(12,13) by simp
  qed
  have "nic_match st ev reqs s = Inr (s\<lparr>conn_tx := (conn_tx s)[ev_idx ev := q'], received_opid := opid,
        thr_tx := fold (add_tx_timestamp (ev_measuring ev)) (times_of_report r c) (thr_tx s),
        thr_stats := after_nic_match st ev tx (thr_stats s)\<rparr>)"
  proof (cases tx)
    case None
    then show ?thesis using pop t assms(6,7) by (simp add: nic_match_def after_nic_match_def)
  next
    case (Some t')
    obtain d where "timespec_diff (Some ?rx) (Some t') = (0, Some d)"
      and "dbl_to_long (dbl_of_int (tv_nsec d) + dbl_of_int (tv_sec d) * Fin (10 ^ 9)) = Inr (wire_time ?rx t')"
      using wire [OF Some] by blast
    moreover obtain info where "t = Some info" "ti_time info = t'" using t Some by auto
    ultimately show ?thesis
      using pop assms(6-8) Some
      by (simp add: nic_match_def after_nic_match_def add_latency_if_wf [OF assms(11)] del: timespec_diff.simps dbl_to_long.simps)
  qed
  with rep show ?thesis by blast
qed

lemma records_nic_match:
  assumes "ev_measuring ev" and "lat_wf (word_of_int (per_thread_samples st)) l"
  shows "records_measured st i (kept (sampling_rate st) (response_times ev tx)) [] (l, txs) (after_nic_match st ev tx l, txs)"
proof (cases tx)
  case None
  then show ?thesis by (simp add: response_times_def after_nic_match_def records_measured_refl)
next
  case (Some t)
  let ?r = "Sample i (ev_rnd ev) (wire_time (card_time (ev_cmsgs ev)) t) (Some t)"
  have "local_call st True ?r (l, txs) = Inr (after_nic_match st ev tx l, txs)"
    using Some assms by (simp add: after_nic_match_def add_latency_if_wf)
  then show ?thesis
    unfolding records_measured_def
    by (intro exI [of _ "[?r]"]) (simp add: Some response_times_def kept_def)
qed

subsection \<open>Events\<close>

definition report_obs :: "nat \<Rightarrow> (nat \<times> timespec) option \<Rightarrow> card_event list" where
  "report_obs i r = (case r of None \<Rightarrow> [] | Some (a, t) \<Rightarrow> [Reported i a t])"

definition nic_event_obs :: "nat \<Rightarrow> thread_state \<Rightarrow> epoll_event \<Rightarrow> card_event list" where
  "nic_event_obs m s ev =
     (let i = ev_idx ev; k = arrived (connections s ! i) ev div m in
      if ev_in ev then
        (if 0 < ev_ret ev
         then report_obs i (report_read k (conn_tx s ! i) ev) @ [Responded i k (card_time (ev_cmsgs ev)) (ev_rnd ev)] else [])
      else if ev_err ev then report_obs i (card_report (ev_errqueue ev)) else [])"

text \<open>
  The peer and the card: data is whole responses to requests, stamped by the card less than 104 days after
  the request; reports come in order; or the connection ends.
\<close>

definition nic_data_okay :: "nat \<Rightarrow> stats_state \<Rightarrow> thread_state \<Rightarrow> epoll_event \<Rightarrow> bool" where
  "nic_data_okay m st s ev \<longleftrightarrow>
     (let c = connections s ! ev_idx ev; q = conn_tx s ! ev_idx ev; k = arrived c ev div m in
      serves m c ev \<and> m dvd arrived c ev \<and> stamped_by_card ev
      \<and> (last_answered k q < unat (pq_tail q) \<or> report_okay q (ev_errqueue ev))
      \<and> (\<forall>tx. transmit_of k q (card_report (ev_errqueue ev)) = Some tx \<longrightarrow> \<bar>wire_time (card_time (ev_cmsgs ev)) tx\<bar> < 2 ^ 53)
      \<and> (ev_measuring ev \<longrightarrow> lat_wf (word_of_int (per_thread_samples st)) (thr_stats s)))"

definition nic_event_okay :: "nat \<Rightarrow> stats_state \<Rightarrow> thread_state \<Rightarrow> epoll_event \<Rightarrow> bool" where
  "nic_event_okay m st s ev \<longleftrightarrow> ev_idx ev < length (connections s) \<and>
     (if ev_in ev then ev_ret ev = 0 \<or> ev_ret ev < 0 \<and> \<not> ev_block ev \<or> nic_data_okay m st s ev
      else if ev_err ev then report_okay (conn_tx s ! ev_idx ev) (ev_errqueue ev) else \<not> ev_hup ev)"

lemma report_run:
  "i < length cs \<Longrightarrow> card_run (report_obs i r) cs = Some (cs[i := after_report r (cs ! i)], [], times_of_report r (cs ! i))"
  by (cases r) (auto simp: report_obs_def)

lemma unanswered_after_report [simp]: "unanswered (after_report r c) = unanswered c"
  by (cases r) (auto simp: unanswered_def)

lemma responded_run:
  assumes "i < length cs" and "0 < k" and "k \<le> unanswered (cs ! i)"
  shows "card_run (report_obs i r @ [Responded i k (card_time (ev_cmsgs ev)) (ev_rnd ev)]) cs
    = Some (cs[i := add_answers k (after_report r (cs ! i))],
        response_times ev (answered_time k (after_report r (cs ! i))), times_of_report r (cs ! i))"
proof -
  let ?c = "after_report r (cs ! i)"
  have "card_run [Responded i k (card_time (ev_cmsgs ev)) (ev_rnd ev)] (cs[i := ?c])
      = Some (cs[i := add_answers k ?c], response_times ev (answered_time k ?c), [])"
    using assms by (cases "answered_time k ?c") (simp_all add: response_times_def wire_time_def)
  from card_run_trans [OF report_run [OF assms(1)] this] show ?thesis by simp
qed

lemma nic_data_refines:
  assumes "app_ready cfg m" and "thread_ok m s" and "nic_represents s cs" and "ev_idx ev < length (connections s)"
    and "ev_in ev" and "nic_data_okay m st s ev"
  shows "\<exists>s' cs' xs ts. nic_event cfg st ev s = Inr (Go s') \<and> thread_ok m s' \<and> nic_represents s' cs'
    \<and> card_run (nic_event_obs m s ev) cs = Some (cs', xs, ts)
    \<and> (ev_measuring ev \<longrightarrow> records_measured st n (kept (sampling_rate st) xs) ts (stats_view s) (stats_view s'))
    \<and> (\<exists>d p. received_ok m (connections s ! ev_idx ev) ev d p \<and> connections s' = (connections s)[ev_idx ev := d]
        \<and> next_tx s' = next_tx s \<and> avail_reqs s' = avail_reqs (after_receive s (ev_idx ev) d p))"
proof -
  let ?i = "ev_idx ev" and ?d = "connections s ! ev_idx ev" and ?q = "conn_tx s ! ev_idx ev"
  let ?k = "arrived ?d ev div m" and ?rx = "card_time (ev_cmsgs ev)"
  define r where "r = report_read ?k ?q ev"
  define c where "c = cs ! ?i"
  define tx where "tx = answered_time ?k (after_report r c)"
  have m: "0 < m" using assms(1) by (simp add: app_ready_def)
  have rep: "represents ?q c" "unanswered c = unat (tc_pending ?d)" and i: "?i < length (conn_tx s)" "?i < length cs"
    using assms(3,4) by (simp_all add: nic_represents_def c_def)
  have okay: "serves m ?d ev" "m dvd arrived ?d ev" "stamped_by_card ev"
    "last_answered ?k ?q < unat (pq_tail ?q) \<or> report_okay ?q (ev_errqueue ev)"
    "\<forall>tx. transmit_of ?k ?q (card_report (ev_errqueue ev)) = Some tx \<longrightarrow> \<bar>wire_time ?rx tx\<bar> < 2 ^ 53"
    "ev_measuring ev \<longrightarrow> lat_wf (word_of_int (per_thread_samples st)) (thr_stats s)"
    using assms(6) unfolding nic_data_okay_def Let_def by blast+
  have conn: "conn_ok m ?d" using assms(2,4) by (simp add: thread_ok_def)
  have ret: "0 < ev_ret ev" using okay(1) by (simp add: serves_def)
  let ?s0 = "s\<lparr>thr_rx := zero_info\<lparr>ti_time := ?rx\<rparr>\<rparr>"
  have s0: "thread_ok m ?s0" "?i < length (connections ?s0)" "serves m (connections ?s0 ! ?i) ev"
    using assms(2,4) okay(1) by (simp_all add: thread_ok_def)
  obtain d' p where got: "received_ok m ?d ev d' p"
    and run: "on_readable True (nic_match st) cfg ev ?s0
      = c_bind (nic_match st ev (br_reqs p) (after_receive ?s0 ?i d' p)) (\<lambda>s2.
          Inr (Go (s2\<lparr>thr_stats := add_throughput_rx_sample (ev_measuring ev) p (thr_stats s2)\<rparr>)))"
    using on_readable_serves [OF assms(1) s0, where whole = True and after = "nic_match st"] okay(2) by auto
  note pend = received_pending [OF got okay(1) conn m]
  have k: "unat (br_reqs p) = ?k" using got by (simp add: received_ok_def)
  then have bounds: "0 < ?k" "?k \<le> unanswered c" using pend(1,2) rep(2) by simp_all
  let ?s1 = "after_receive ?s0 ?i d' p"
  have s1: "conn_tx ?s1 = conn_tx s" "thr_stats ?s1 = thr_stats s" "connections ?s1 = (connections s)[?i := d']" "thr_tx ?s1 = thr_tx s"
    "ti_time (thr_rx ?s1) = ?rx"
    by (simp_all add: after_receive_def)
  obtain q' opid where match: "nic_match st ev (br_reqs p) ?s1 = Inr (?s1\<lparr>conn_tx := (conn_tx s)[?i := q'], received_opid := opid,
        thr_tx := fold (add_tx_timestamp (ev_measuring ev)) (times_of_report r c) (thr_tx s),
        thr_stats := after_nic_match st ev tx (thr_stats s)\<rparr>)"
    and rep': "represents q' (add_answers ?k (after_report r c))"
    using nic_match_refines [OF rep(1) k bounds okay(4) _ _ _ okay(3,5), of ?s1 st r tx] i(1) okay(6)
    unfolding r_def tx_def by (simp add: s1) blast
  let ?s' = "?s1\<lparr>conn_tx := (conn_tx s)[?i := q'], received_opid := opid,
        thr_tx := fold (add_tx_timestamp (ev_measuring ev)) (times_of_report r c) (thr_tx s),
        thr_stats := add_throughput_rx_sample (ev_measuring ev) p (after_nic_match st ev tx (thr_stats s))\<rparr>"
  have "nic_event cfg st ev s = Inr (Go ?s')"
    using run match assms(5) receive_stamp_card [OF okay(3) ret] by (simp add: nic_event_def)
  moreover have "thread_ok m ?s'"
    by (rule thread_ok_cong [OF thread_ok_receive [OF assms(2,4) m got okay(1)]]) (simp_all add: after_receive_def)
  moreover have "nic_represents ?s' (cs[?i := add_answers ?k (after_report r c)])"
  proof (rule nic_represents_update [OF assms(3,4) rep'])
    have "unanswered (after_report r c) = unat (tc_pending ?d)" using rep(2) by simp
    then show "unanswered (add_answers ?k (after_report r c)) = unat (tc_pending d')" using pend(3) k by (simp add: unanswered_def)
  qed (simp_all add: s1)
  moreover have "card_run (nic_event_obs m s ev) cs = Some (cs[?i := add_answers ?k (after_report r c)], response_times ev tx, times_of_report r c)"
    using responded_run [OF i(2) bounds(1), of r ev] bounds(2) assms(5) ret
    by (simp add: nic_event_obs_def Let_def r_def c_def tx_def)
  moreover have "records_measured st n (kept (sampling_rate st) (response_times ev tx)) (times_of_report r c) (stats_view s) (stats_view ?s')"
    if b: "ev_measuring ev"
  proof -
    have "lat_wf (word_of_int (per_thread_samples st)) (thr_stats s)" using okay(6) b by simp
    note calls = records_measured_trans [OF records_measured_stamps [of st n "times_of_report r c" "thr_stats s" "thr_tx s"]
        records_measured_trans [OF records_nic_match [OF b this] records_measured_counts(1) [where p = p]]]
    show ?thesis using calls b by (simp add: stats_view_def)
  qed
  moreover have "connections ?s' = (connections s)[?i := d']" "next_tx ?s' = next_tx s" "avail_reqs ?s' = avail_reqs (after_receive s ?i d' p)"
    by (simp_all add: after_receive_def)
  ultimately show ?thesis using got by blast
qed

lemma nic_event_refines:
  assumes "app_ready cfg m" and "thread_ok m s" and "nic_represents s cs" and "nic_event_okay m st s ev"
  shows "\<exists>r cs' xs ts. nic_event cfg st ev s = Inr r \<and> thread_ok m (step_state r) \<and> nic_represents (step_state r) cs'
    \<and> card_run (nic_event_obs m s ev) cs = Some (cs', xs, ts)
    \<and> (ev_measuring ev \<longrightarrow> records_measured st n (kept (sampling_rate st) xs) ts (stats_view s) (stats_view (step_state r)))"
proof -
  let ?i = "ev_idx ev" and ?e = "ev_errqueue ev"
  have idx: "?i < length (connections s)" "?i < length (conn_tx s)" "?i < length cs" and rep: "represents (conn_tx s ! ?i) (cs ! ?i)"
    "unanswered (cs ! ?i) = unat (tc_pending (connections s ! ?i))"
    using assms(3,4) by (simp_all add: nic_event_okay_def nic_represents_def)
  consider (no_data) "ev_in ev" "ev_ret ev = 0 \<or> ev_ret ev < 0 \<and> \<not> ev_block ev" | (data) "ev_in ev" "nic_data_okay m st s ev"
    | (report) "\<not> ev_in ev" "ev_err ev" "report_okay (conn_tx s ! ?i) ?e" | (none) "\<not> ev_in ev" "\<not> ev_err ev" "\<not> ev_hup ev"
    using assms(4) unfolding nic_event_okay_def by meson
  then show ?thesis
  proof cases
    case no_data
    let ?r = "if ev_ret ev = 0 then Go (close_conn s ?i) else Stop s"
    have "receive_stamp ev s = Inr s" using no_data(2) by (auto simp: receive_stamp_def timestamp_recv_def)
    then have "nic_event cfg st ev s = Inr ?r" using on_readable_no_data [OF idx(1) no_data(2)] no_data(1) by (simp add: nic_event_def)
    moreover have "nic_represents (close_conn s ?i) cs"
      using nic_represents_update [OF assms(3) idx(1) rep(1), of "(connections s ! ?i)\<lparr>tc_closed := True\<rparr>" "close_conn s ?i"] rep(2)
      by (simp add: close_conn_def)
    moreover have "nic_event_obs m s ev = []" using no_data by (auto simp: nic_event_obs_def Let_def)
    moreover have "stats_view (close_conn s ?i) = stats_view s" by (simp add: close_conn_def stats_view_def)
    ultimately show ?thesis
      using assms(2,3) thread_ok_close [OF assms(2) idx(1)]
      by (intro exI [of _ ?r] exI [of _ cs] exI [of _ "[]"]) (simp add: records_measured_refl)
  next
    case data
    from nic_data_refines [OF assms(1-3) idx(1) data, of n] obtain s' cs' xs ts where
      "nic_event cfg st ev s = Inr (Go s')" "thread_ok m s'" "nic_represents s' cs'" "card_run (nic_event_obs m s ev) cs = Some (cs', xs, ts)"
      "ev_measuring ev \<longrightarrow> records_measured st n (kept (sampling_rate st) xs) ts (stats_view s) (stats_view s')" by blast
    then show ?thesis by (intro exI [of _ "Go s'"] exI [of _ cs'] exI [of _ xs] exI [of _ ts]) simp
  next
    case report
    let ?r = "card_report ?e"
    obtain ret opid q' where get: "get_tx_timestamp (ev_measuring ev) ?e (received_opid s) (conn_tx s ! ?i, thr_tx s)
        = Inr (ret, opid, q', fold (add_tx_timestamp (ev_measuring ev)) (times_of_report ?r (cs ! ?i)) (thr_tx s))"
      and rep': "represents q' (after_report ?r (cs ! ?i))"
      using represents_get_tx [OF rep(1) report(3)] by blast
    let ?s' = "s\<lparr>conn_tx := (conn_tx s)[?i := q'], received_opid := opid,
      thr_tx := fold (add_tx_timestamp (ev_measuring ev)) (times_of_report ?r (cs ! ?i)) (thr_tx s)\<rparr>"
    have "nic_event cfg st ev s = Inr (Go ?s')" using get idx report by (simp add: nic_event_def read_error_queue_def)
    moreover have "thread_ok m ?s'" using assms(2) by (simp add: thread_ok_def)
    moreover have "nic_represents ?s' (cs[?i := after_report ?r (cs ! ?i)])"
      by (rule nic_represents_update [OF assms(3) idx(1) rep', of "connections s ! ?i"]) (use rep(2) idx(1) in simp_all)
    moreover have "card_run (nic_event_obs m s ev) cs = Some (cs[?i := after_report ?r (cs ! ?i)], [], times_of_report ?r (cs ! ?i))"
      using report_run [OF idx(3), of ?r] report by (simp add: nic_event_obs_def Let_def)
    moreover have "records_measured st n [] (times_of_report ?r (cs ! ?i)) (stats_view s) (stats_view ?s')" if "ev_measuring ev"
      using records_measured_stamps [of st n "times_of_report ?r (cs ! ?i)" "thr_stats s" "thr_tx s"] that by (simp add: stats_view_def)
    ultimately show ?thesis
      by (intro exI [of _ "Go ?s'"] exI [of _ "cs[?i := after_report ?r (cs ! ?i)]"] exI [of _ "[]"]
          exI [of _ "times_of_report ?r (cs ! ?i)"]) simp
  next
    case none
    then have "nic_event cfg st ev s = Inr (Go s)" "nic_event_obs m s ev = []" by (simp_all add: nic_event_def nic_event_obs_def Let_def)
    then show ?thesis
      using assms(2,3) by (intro exI [of _ "Go s"] exI [of _ cs] exI [of _ "[]"]) (simp add: records_measured_refl)
  qed
qed

subsection \<open>Sending\<close>

text \<open>One attempt: the request it puts on a connection, if it does.\<close>

definition nic_send_obs :: "agent_config \<Rightarrow> send_env \<Rightarrow> thread_state \<Rightarrow> card_event list" where
  "nic_send_obs cfg e s =
     (case (try_send Nic_stamp cfg e s, pick_conn cfg (se_rands e) (connections s)) of
        (Inr (True, Go _), Inr (Some i)) \<Rightarrow> [Requested i (nat (se_ret e))]
      | _ \<Rightarrow> [])"

fun nic_sends_obs :: "agent_config \<Rightarrow> send_env list \<Rightarrow> thread_state \<Rightarrow> card_event list" where
  "nic_sends_obs cfg [] s = []"
| "nic_sends_obs cfg (e # es) s =
     (if 0 \<le> se_now e - next_tx s then
        nic_send_obs cfg e s @ (case try_send Nic_stamp cfg e s of Inr (True, Go s') \<Rightarrow> nic_sends_obs cfg es s' | _ \<Rightarrow> [])
      else [])"

text \<open>The system takes every request whole, and the card has reported enough of the earlier ones.\<close>

definition nic_send_okay :: "agent_config \<Rightarrow> send_env \<Rightarrow> thread_state \<Rightarrow> bool" where
  "nic_send_okay cfg e s \<longleftrightarrow> send_ok cfg s e \<and>
     (\<forall>i. pick_conn cfg (se_rands e) (connections s) = Inr (Some i) \<longrightarrow> 0 \<le> se_ret e \<longrightarrow> ring_room (conn_tx s ! i) (nat (se_ret e)))"

fun nic_sends_okay :: "agent_config \<Rightarrow> send_env list \<Rightarrow> thread_state \<Rightarrow> bool" where
  "nic_sends_okay cfg [] s = True"
| "nic_sends_okay cfg (e # es) s \<longleftrightarrow>
     (0 \<le> se_now e - next_tx s \<longrightarrow> nic_send_okay cfg e s \<and>
       (case try_send Nic_stamp cfg e s of Inr (True, Go s') \<Rightarrow> nic_sends_okay cfg es s' | _ \<Rightarrow> True))"

lemma nic_send_refines:
  assumes "thread_ok m s" and "nic_represents s cs" and "threads_conns cfg s" and "nic_send_okay cfg e s"
  shows "\<exists>p r cs'. try_send Nic_stamp cfg e s = Inr (p, r) \<and> thread_ok m (step_state r) \<and> nic_represents (step_state r) cs'
    \<and> threads_conns cfg (step_state r) \<and> card_run (nic_send_obs cfg e s) cs = Some (cs', [], [])
    \<and> (se_measuring e \<longrightarrow> records_measured st n [] [] (stats_view s) (stats_view (step_state r)))"
proof -
  obtain p where p: "pick_conn cfg (se_rands e) (connections s) = Inr p"
    and pick: "\<And>i. p = Some i \<Longrightarrow> i < length (connections s) \<and> unat (tc_pending (connections s ! i)) < MAX_PENDING_REQS"
    using pick_conn_ok [OF assms(3)] by blast
  show ?thesis
  proof (cases p)
    case None
    then have "try_send Nic_stamp cfg e s = Inr (False, Go s)" "nic_send_obs cfg e s = []"
      using p by (simp_all add: try_send_def nic_send_obs_def)
    then show ?thesis
      using assms(1-3) by (intro exI [of _ False] exI [of _ "Go s"] exI [of _ cs]) (simp add: records_measured_refl)
  next
    case (Some i)
    have i: "i < length (connections s)" "unat (tc_pending (connections s ! i)) < MAX_PENDING_REQS" using pick [OF Some] by auto
    have q: "represents (conn_tx s ! i) (cs ! i)" "unanswered (cs ! i) = unat (tc_pending (connections s ! i))"
      "i < length (conn_tx s)" "i < length cs"
      using assms(2) i(1) by (simp_all add: nic_represents_def)
    obtain req arg ia where req: "prepare_request cfg (se_req e) (thr_arg s) = Inr (req, arg)"
      and ret: "se_ret e = int (request_bytes req) \<or> se_ret e < 0 \<and> \<not> se_block e" and ia: "get_ia cfg (se_ia e) = Inr ia"
      using assms(4) by (auto simp: nic_send_okay_def send_ok_def)
    show ?thesis
    proof (cases "se_ret e < 0 \<and> \<not> se_block e")
      case True
      then have run: "try_send Nic_stamp cfg e s = Inr (True, Stop (s\<lparr>thr_arg := arg\<rparr>))"
        using p Some req by (simp add: try_send_def send_on_def Let_def)
      then have "nic_send_obs cfg e s = []" by (simp add: nic_send_obs_def)
      then show ?thesis
        using run assms(1-3)
        by (auto simp: thread_ok_arg nic_represents_def threads_conns_def stats_view_def records_measured_refl)
    next
      case False
      then have bytes: "se_ret e = int (request_bytes req)" using ret by blast
      have room: "ring_room (conn_tx s ! i) (request_bytes req)" using assms(4) p Some bytes by (simp add: nic_send_okay_def)
      let ?q = "add_pending_tx_timestamp (conn_tx s ! i) (word_of_nat (request_bytes req))"
      let ?s1 = "s\<lparr>conn_tx := (conn_tx s)[i := ?q]\<rparr>" and ?c = "add_request (request_bytes req) (cs ! i)"
      let ?s' = "sent_on ?s1 i e arg ia"
      have run: "try_send Nic_stamp cfg e s = Inr (True, Go ?s')"
        using False bytes p Some req ia q(3) i(1) by (simp add: try_send_def send_on_def Let_def sent_on_def)
      have "thread_ok m ?s'" by (rule thread_ok_sent) (use assms(1) i in \<open>simp_all add: thread_ok_def\<close>)
      moreover have un: "unanswered (cs ! i) < MAX_PENDING_REQS" using q(2) i(2) by simp
      have "cc_answered (cs ! i) \<le> length (cc_requests (cs ! i))" using q(1) by (simp add: represents_def counters_match_def)
      then have "unanswered ?c = Suc (unanswered (cs ! i))" by (simp add: unanswered_def)
      then have "nic_represents ?s' (cs[i := ?c])"
        by (intro nic_represents_update [OF assms(2) i(1) represents_request [OF q(1) room un]])
          (simp_all add: q(2) unat_pending_Suc [OF i(2)] sent_on_def)
      moreover have "card_run (nic_send_obs cfg e s) cs = Some (cs[i := ?c], [], [])"
        using run p Some q(4) un room bytes
        by (simp add: nic_send_obs_def MAX_OUTSTANDING_def MAX_PENDING_REQS_def ring_room_def)
      moreover have "threads_conns cfg ?s'" using assms(3) by (simp add: threads_conns_def sent_on_def)
      moreover have "records_measured st n [] [] (stats_view s) (stats_view ?s')" if "se_measuring e"
        using records_measured_counts(2) that by (simp add: stats_view_def sent_on_def)
      ultimately show ?thesis using run by (intro exI [of _ True] exI [of _ "Go ?s'"] exI [of _ "cs[i := ?c]"]) simp
    qed
  qed
qed

lemma nic_sends_refine:
  assumes "thread_ok m s" and "nic_represents s cs" and "threads_conns cfg s" and "nic_sends_okay cfg es s"
  shows "\<exists>r cs'. nic_send_loop cfg es s = Inr r \<and> thread_ok m (step_state r) \<and> nic_represents (step_state r) cs'
    \<and> card_run (nic_sends_obs cfg es s) cs = Some (cs', [], [])
    \<and> ((\<forall>e \<in> set es. se_measuring e) \<longrightarrow> records_measured st n [] [] (stats_view s) (stats_view (step_state r)))"
  using assms
proof (induction es arbitrary: s cs)
  case Nil
  then show ?case by (simp add: records_measured_refl)
next
  case (Cons e es)
  show ?case
  proof (cases "0 \<le> se_now e - next_tx s")
    case False
    then show ?thesis using Cons.prems by (simp add: records_measured_refl)
  next
    case True
    then have "nic_send_okay cfg e s" using Cons.prems(4) by simp
    from nic_send_refines [OF Cons.prems(1-3) this] obtain p r1 cs1 where r1: "try_send Nic_stamp cfg e s = Inr (p, r1)"
      "thread_ok m (step_state r1)" "nic_represents (step_state r1) cs1" "threads_conns cfg (step_state r1)"
      and obs1: "card_run (nic_send_obs cfg e s) cs = Some (cs1, [], [])"
      and rec1: "se_measuring e \<Longrightarrow> records_measured st n [] [] (stats_view s) (stats_view (step_state r1))" by blast
    show ?thesis
    proof (cases "\<exists>s1. r1 = Go s1 \<and> p")
      case False
      then have "nic_send_loop cfg (e # es) s = Inr r1" "nic_sends_obs cfg (e # es) s = nic_send_obs cfg e s"
        using True r1(1) by (cases r1; cases p; simp)+
      then show ?thesis using r1 obs1 rec1 by auto
    next
      case ok: True
      then obtain s1 where s1: "r1 = Go s1" p by blast
      then have "nic_sends_okay cfg es s1" using True r1(1) Cons.prems(4) by simp
      with Cons.IH [of s1 cs1] r1 s1 obtain r cs' where r: "nic_send_loop cfg es s1 = Inr r" "thread_ok m (step_state r)"
        "nic_represents (step_state r) cs'"
        and obs: "card_run (nic_sends_obs cfg es s1) cs1 = Some (cs', [], [])"
        and rec: "(\<forall>e \<in> set es. se_measuring e) \<Longrightarrow> records_measured st n [] [] (stats_view s1) (stats_view (step_state r))" by auto
      have "records_measured st n [] [] (stats_view s) (stats_view (step_state r))" if "\<forall>x \<in> set (e # es). se_measuring x"
      proof -
        have "records_measured st n [] [] (stats_view s) (stats_view s1)" using rec1 that s1(1) by simp
        from records_measured_trans [OF this rec] that show ?thesis by simp
      qed
      then show ?thesis
        using True r1(1) s1 r card_run_trans [OF obs1 obs] by (intro exI [of _ r] exI [of _ cs']) simp
    qed
  qed
qed

subsection \<open>An iteration\<close>

definition nic_iter_sends :: "agent_config \<Rightarrow> iter_env \<Rightarrow> thread_state \<Rightarrow> thread_state step c_result" where
  "nic_iter_sends cfg e s = (if avail_reqs s = 0 then Inr (Go s) else nic_send_loop cfg (ie_sends e) s)"

definition nic_iter_obs :: "nat \<Rightarrow> agent_config \<Rightarrow> stats_state \<Rightarrow> iter_env \<Rightarrow> thread_state \<Rightarrow> card_event list" where
  "nic_iter_obs m cfg st e s =
     (if \<not> ie_load e then []
      else (if avail_reqs s = 0 then [] else nic_sends_obs cfg (ie_sends e) s) @
        (case (nic_iter_sends cfg e s, ie_events e) of (Inr (Go s1), ev # _) \<Rightarrow> nic_event_obs m s1 ev | _ \<Rightarrow> []))"

definition nic_iter_obeys :: "nat \<Rightarrow> agent_config \<Rightarrow> stats_state \<Rightarrow> iter_env \<Rightarrow> thread_state \<Rightarrow> bool" where
  "nic_iter_obeys m cfg st e s \<longleftrightarrow> (avail_reqs s \<noteq> 0 \<longrightarrow> nic_sends_okay cfg (ie_sends e) s)
     \<and> (case (nic_iter_sends cfg e s, ie_events e) of (Inr (Go s1), ev # _) \<Rightarrow> nic_event_okay m st s1 ev | _ \<Rightarrow> True)"

lemma nic_iter_refines:
  assumes "app_ready cfg m" and "thread_ok m s" and "nic_represents s cs" and "threads_conns cfg s"
    and "nic_iter_obeys m cfg st e s"
  shows "\<exists>r cs' xs ts. nic_iter cfg st e s = Inr r \<and> thread_ok m (step_state r) \<and> nic_represents (step_state r) cs'
    \<and> card_run (nic_iter_obs m cfg st e s) cs = Some (cs', xs, ts)
    \<and> (same_flag True e \<longrightarrow> records_measured st n (kept (sampling_rate st) xs) ts (stats_view s) (stats_view (step_state r)))"
proof (cases "ie_load e")
  case False
  let ?s' = "s\<lparr>next_tx := ie_idle_now e\<rparr>"
  have "thread_ok m ?s'" "nic_represents ?s' cs" using assms(2,3) by (simp_all add: thread_ok_def nic_represents_def)
  then show ?thesis
    using False
    by (intro exI [of _ "Go ?s'"] exI [of _ cs] exI [of _ "[]"]) (simp add: nic_iter_def nic_iter_obs_def stats_view_def records_measured_refl)
next
  case True
  have iter: "nic_iter cfg st e s = c_bind (nic_iter_sends cfg e s) (then_events (nic_event cfg st) (take 1 (ie_events e)))"
    using True by (simp add: nic_iter_def nic_iter_sends_def)
  obtain r1 cs1 where r1: "nic_iter_sends cfg e s = Inr r1" "thread_ok m (step_state r1)" "nic_represents (step_state r1) cs1"
    and obs1: "card_run (if avail_reqs s = 0 then [] else nic_sends_obs cfg (ie_sends e) s) cs = Some (cs1, [], [])"
    and rec1: "same_flag True e \<Longrightarrow> records_measured st n [] [] (stats_view s) (stats_view (step_state r1))"
  proof (cases "avail_reqs s = 0")
    case True
    then show ?thesis using that [of "Go s" cs] assms(2,3) by (simp add: nic_iter_sends_def records_measured_refl)
  next
    case False
    then have "nic_sends_okay cfg (ie_sends e) s" using assms(5) by (simp add: nic_iter_obeys_def)
    from nic_sends_refine [OF assms(2-4) this, of st n] False that show ?thesis
      by (auto simp: nic_iter_sends_def same_flag_def)
  qed
  show ?thesis
  proof (cases "\<exists>s1 ev evs. r1 = Go s1 \<and> ie_events e = ev # evs")
    case False
    then have "nic_iter cfg st e s = Inr r1"
      using r1(1) unfolding iter by (cases r1; cases "ie_events e") (auto simp: then_events_def)
    moreover have "nic_iter_obs m cfg st e s = (if avail_reqs s = 0 then [] else nic_sends_obs cfg (ie_sends e) s)"
      using False True r1(1) by (cases r1; cases "ie_events e") (auto simp: nic_iter_obs_def)
    ultimately show ?thesis
      using r1 obs1 rec1 by (intro exI [of _ r1] exI [of _ cs1] exI [of _ "[]"]) simp
  next
    case more: True
    then obtain s1 ev evs where s1: "r1 = Go s1" "ie_events e = ev # evs" by blast
    have "nic_event_okay m st s1 ev" using assms(5) r1(1) s1 by (simp add: nic_iter_obeys_def)
    with nic_event_refines [OF assms(1) _ _ this, of cs1 n] r1 s1 obtain r cs' xs ts where
      r: "nic_event cfg st ev s1 = Inr r" "thread_ok m (step_state r)" "nic_represents (step_state r) cs'"
      and obs: "card_run (nic_event_obs m s1 ev) cs1 = Some (cs', xs, ts)"
      and rec: "ev_measuring ev \<Longrightarrow> records_measured st n (kept (sampling_rate st) xs) ts (stats_view s1) (stats_view (step_state r))"
      by auto
    have "nic_iter cfg st e s = Inr r"
      using r1(1) s1 r(1) unfolding iter by (cases r) (simp_all add: then_events_def)
    moreover have "card_run (nic_iter_obs m cfg st e s) cs = Some (cs', xs, ts)"
      using card_run_trans [OF obs1 obs] True r1(1) s1 by (simp add: nic_iter_obs_def)
    moreover have "records_measured st n (kept (sampling_rate st) xs) ts (stats_view s) (stats_view (step_state r))" if "same_flag True e"
    proof -
      have "records_measured st n [] [] (stats_view s) (stats_view s1)" using rec1 [OF that] s1(1) by simp
      from records_measured_trans [OF this rec] that s1(2) show ?thesis by (simp add: same_flag_def)
    qed
    ultimately show ?thesis using r(2,3) by blast
  qed
qed

text \<open>
  C13. The agent with hardware timestamps is a correct client of the network card. Its state represents the
  full history of every connection: which requests were sent, at which offsets of the stream, and which
  transmit times the card has reported. An iteration of its main loop (any number of requests, then
  one event) on a well-behaved peer and card never fails and is a run of that specification. Reports may
  come before or after the response, cover several requests at once, or stay away; each response is
  matched with the request it answers all the same. The latencies and transmit times that the
  iteration records while measuring are exactly those of the run.
\<close>

theorem nic_iter_refines_card:
  assumes "app_ready cfg m" and "thread_ok m s" and "nic_represents s cs" and "threads_conns cfg s"
    and "nic_iter_obeys m cfg st e s"
  shows "\<exists>r cs' xs ts. nic_iter cfg st e s = Inr r \<and> thread_ok m (step_state r) \<and> nic_represents (step_state r) cs'
    \<and> card_run (nic_iter_obs m cfg st e s) cs = Some (cs', xs, ts)
    \<and> (same_flag True e \<longrightarrow> (\<exists>rs. local_calls st True rs (stats_view s) = Inr (stats_view (step_state r))
          \<and> latencies (sampling_rate st) rs = kept (sampling_rate st) xs \<and> transmissions rs = ts))"
proof -
  obtain r cs' xs ts where "nic_iter cfg st e s = Inr r" "thread_ok m (step_state r)" "nic_represents (step_state r) cs'"
    "card_run (nic_iter_obs m cfg st e s) cs = Some (cs', xs, ts)"
    "same_flag True e \<longrightarrow> records_measured st 0 (kept (sampling_rate st) xs) ts (stats_view s) (stats_view (step_state r))"
    using nic_iter_refines [OF assms] by blast
  then show ?thesis unfolding records_measured_def by (intro exI conjI) auto
qed

text \<open>
  One request of 8 bytes is in flight and not yet reported. Its response arrives at 6 s 5 ns; the error
  queue, read while the response is matched, holds the report that it was sent at 5 s 10 ns.
\<close>

definition ex_late_thread :: thread_state where
  "ex_late_thread = ex_thread\<lparr>conn_tx := [add_pending_tx_timestamp zero_pending 8]\<rparr>"

definition ex_late_event :: epoll_event where
  "ex_late_event = ex_nic_event\<lparr>ev_errqueue := nic_report (Timespec 5 10) 7\<rparr>"

definition ex_late_env :: iter_env where
  "ex_late_env = \<lparr>ie_load = True, ie_idle_now = 0, ie_sends = [], ie_events = [ex_late_event]\<rparr>"

definition ex_late_conn :: card_conn where
  "ex_late_conn = add_request 8 new_card_conn"

lemma ex_late_fields:
  "connections ex_late_thread = [zero_connection\<lparr>tc_pending := 1\<rparr>]" "avail_reqs ex_late_thread = 15"
  "conn_tx ex_late_thread = [add_pending_tx_timestamp zero_pending 8]" "thr_stats ex_late_thread = thr_stats ex_thread"
  "ev_idx ex_late_event = 0" "ev_in ex_late_event" "0 < ev_ret ex_late_event" "ev_rnd ex_late_event = Fin 0"
  "arrived (zero_connection\<lparr>tc_pending := 1\<rparr>) ex_late_event = 8" "ev_errqueue ex_late_event = nic_report (Timespec 5 10) 7"
  "ev_cmsgs ex_late_event = [Scm_timestamping [zero_timespec, zero_timespec, Timespec 6 5]]"
  "ev_measuring ex_late_event"
  by (simp_all add: ex_late_thread_def ex_late_event_def ex_nic_event_def ex_thread_def ex_event_def arrived_def zero_connection_def)

lemma ex_late_ring:
  "represents (add_pending_tx_timestamp zero_pending 8) ex_late_conn" "unanswered ex_late_conn = 1"
  "last_answered (Suc 0) (add_pending_tx_timestamp zero_pending 8) = 0" "pq_tail (add_pending_tx_timestamp zero_pending 8) = 0"
  "pq_head (add_pending_tx_timestamp zero_pending 8) = 1"
  "ti_optid (entry (add_pending_tx_timestamp zero_pending 8) 0) = 8"
proof -
  have "ring_room zero_pending 8" by (simp add: ring_room_def zero_pending_def MAX_PENDING_REQS_def)
  from represents_request [OF represents_new this]
  show "represents (add_pending_tx_timestamp zero_pending 8) ex_late_conn"
    by (simp add: ex_late_conn_def unanswered_def new_card_conn_def MAX_PENDING_REQS_def)
qed (simp_all add: ex_late_conn_def unanswered_def add_request_def new_card_conn_def last_answered_def
    add_pending_tx_timestamp_def Let_def zero_pending_def slot_def entry_def MAX_PENDING_REQS_def)

lemma ex_late_obeys: "nic_iter_obeys 8 ex_cfg ex_st ex_late_env ex_late_thread"
proof -
  let ?q = "add_pending_tx_timestamp zero_pending 8"
  have "serves 8 (zero_connection\<lparr>tc_pending := 1\<rparr>) ex_late_event"
    using ex_ready(4) by (simp add: serves_def ex_conn ex_late_fields arrived_def) (simp add: ex_late_event_def ex_nic_event_def ex_event_def)
  moreover have "report_okay ?q (ev_errqueue ex_late_event)"
    unfolding report_okay_def by (intro disjI2 exI [of _ "Timespec 5 10"] exI [of _ 7]) (simp add: ex_late_fields ex_late_ring)
  moreover have "transmit_of 1 ?q (card_report (ev_errqueue ex_late_event)) = Some (Timespec 5 10)"
    by (simp add: transmit_of_def ex_late_fields ex_late_ring)
  ultimately have "nic_data_okay 8 ex_st ex_late_thread ex_late_event"
    using ex_timely(2)
    by (simp add: nic_data_okay_def Let_def ex_late_fields stamped_by_card_def wire_time_def timespec_ns_def)
  then have "nic_event_okay 8 ex_st ex_late_thread ex_late_event" by (simp add: nic_event_okay_def ex_late_fields)
  then show ?thesis by (simp add: nic_iter_obeys_def nic_iter_sends_def ex_late_env_def)
qed

theorem nic_iter_refines_card_witness:
  "\<exists>r rs. nic_iter ex_cfg ex_st ex_late_env ex_late_thread = Inr r
     \<and> local_calls ex_st True rs (stats_view ex_late_thread) = Inr (stats_view (step_state r))
     \<and> latencies (Fin 1) rs = [999999995] \<and> transmissions rs = [Timespec 5 10]"
proof -
  have "thread_ok 8 ex_late_thread" "threads_conns ex_cfg ex_late_thread"
    using ex_ready(2,3) by (simp_all add: thread_ok_def threads_conns_def ex_late_thread_def)
  moreover have "nic_represents ex_late_thread [ex_late_conn]"
    using ex_late_ring(1,2) by (simp add: nic_represents_def ex_late_fields)
  moreover have "nic_iter_obs 8 ex_cfg ex_st ex_late_env ex_late_thread
      = [Reported 0 8 (Timespec 5 10), Responded 0 1 (Timespec 6 5) (Fin 0)]"
    by (simp add: nic_iter_obs_def nic_iter_sends_def ex_late_env_def nic_event_obs_def Let_def ex_late_fields report_read_def
        ex_late_ring report_obs_def)
  moreover have "card_run [Reported 0 8 (Timespec 5 10), Responded 0 1 (Timespec 6 5) (Fin 0)] [ex_late_conn]
      = Some ([add_answers 1 (add_report 8 (Timespec 5 10) ex_late_conn)], [(Fin 0, 999999995)], [Timespec 5 10])"
    using ex_late_ring(2)
    by (simp add: unanswered_def answered_time_def ex_late_conn_def add_request_def add_report_def reported_times_def
        is_covered_def new_card_conn_def last_offset_def timespec_ns_def)
  moreover have "same_flag True ex_late_env" by (simp add: same_flag_def ex_late_env_def ex_late_fields)
  moreover have "kept (Fin 1) [(Fin 0, 999999995)] = [999999995]" by (simp add: kept_def)
  moreover have "sampling_rate ex_st = Fin 1" by (simp add: ex_st_def)
  ultimately show ?thesis
    using nic_iter_refines_card [OF ex_ready(1) _ _ _ ex_late_obeys, of "[ex_late_conn]"] by auto
qed

end
