(* ===== verification/Steady_Load.thy ===== *)
theory Steady_Load
  imports Transmit_Log Client_Spec
begin

text \<open>
  When the check of the load returns, in terms of what happens on the wire, and what its verdict says.
\<close>

text \<open>
  The load goes on: the transmissions the card reports are real times, no second passes without one, and
  there are few enough of them for the logs.
\<close>

definition steady_load :: "(nat \<times> timespec) list \<Rightarrow> bool" where
  "steady_load zs \<longleftrightarrow> 2 \<le> length zs \<and> length zs \<le> tx_room \<and> (\<forall>i. length (sent_by i zs) \<le> MAX_PER_THREAD_TX_SAMPLES)
     \<and> clock_times (map snd zs) \<and> (\<forall>g \<in> set (gaps (sort (map snd zs))). g < 10 ^ 9)"

text \<open>The logs of the threads hold the run's transmit times, in another order.\<close>

lemma sort_of_same: "mset xs = mset ys \<Longrightarrow> sort (xs :: timespec list) = sort ys"
  by (rule properties_for_sort) simp_all

lemma steady_check:
  assumes "steady_load zs" and "\<forall>z \<in> set zs. fst z < n"
    and "\<forall>t \<in> set (all_tx st). tx_wf t" and "recorded_tx st = concat (map (\<lambda>i. sent_by i zs) [0 ..< n])"
  shows "\<exists>v. check_ia st = Inr v \<and> fst v \<in> {0, 1} \<and> (close_values (reference_ia st) \<and> reference_ia st \<noteq> [] \<and> fst v = 1 \<longrightarrow>
    ks_statistic (reference_ia st) (map word_of_int (gaps (sort (map snd zs)))) < ia_threshold (length zs - 1))"
proof -
  have same: "mset (recorded_tx st) = mset (map snd zs)" using sent_by_all [OF assms(2)] assms(4) by simp
  note sorted = sort_of_same [OF same]
  have len: "length (recorded_tx st) = length zs" and "set (recorded_tx st) = set (map snd zs)"
    using mset_eq_length [OF same] mset_eq_setD [OF same] by simp_all
  then have clock: "clock_times (recorded_tx st)" using assms(1) by (simp add: steady_load_def clock_times_def)
  have size: "length (recorded_tx st) \<le> tx_room" "2 \<le> length (recorded_tx st)" "recorded_tx st \<noteq> []"
    and gaps: "\<forall>g \<in> set (gaps (sort (recorded_tx st))). g < 10 ^ 9"
    using assms(1) len sorted by (auto simp: steady_load_def)
  have "\<exists>v. check_ia st = Inr v \<and> fst v \<in> {0, 1}" using check_ia_eq [OF assms(3) size(1) clock size(3)] gaps by simp
  then show ?thesis
    using check_ia_value [OF assms(3) size(1) clock size(2) gaps] by (auto simp: sorted len split: if_splits)
qed

end
