(* ===== verification/Agent_Loop.thy ===== *)
theory Agent_Loop
  imports Client Steady_Load Transport_Main
begin

text \<open>
  A measuring agent as a whole: its threads, each with its connections, run the iterations of their main
  loop in any order, interleaved with the messages of the coordinator. All of them work on the same
  statistics. What holds of the whole agent rests on what its loop promises; that contract is the locale
  \<open>measuring_loop\<close>, and all four kinds of agent fulfil it.
\<close>

subsection \<open>The running agent\<close>

text \<open>
  A kind of agent: its type, what its threads are when their connections are open and what they keep up (for
  messages of a given length), the iteration of its main loop, whether an iteration sees given values of the
  manager's flags, what is asked of the peer and the system in it, and what is seen of it on the wire.
\<close>

record ('v, 'e) agent_loop =
  al_type :: agent_type
  al_opened :: "agent_config \<Rightarrow> thread_state step \<Rightarrow> bool"
  al_ok :: "nat \<Rightarrow> thread_state \<Rightarrow> bool"
  al_iter :: "agent_config \<Rightarrow> stats_state \<Rightarrow> 'v \<Rightarrow> thread_state \<Rightarrow> thread_state step c_result"
  al_flags :: "bool \<Rightarrow> bool \<Rightarrow> 'v \<Rightarrow> bool"
  al_obeys :: "nat \<Rightarrow> agent_config \<Rightarrow> stats_state \<Rightarrow> 'v \<Rightarrow> thread_state \<Rightarrow> bool"
  al_obs :: "nat \<Rightarrow> agent_config \<Rightarrow> stats_state \<Rightarrow> 'v \<Rightarrow> thread_state \<Rightarrow> 'e list"

text \<open>The manager's state with the shared statistics, and for every thread what it has made of its last iteration.\<close>

type_synonym agent = "manager_state \<times> thread_state step list"

definition load_view :: "nat \<Rightarrow> manager_state \<Rightarrow> thread_state \<Rightarrow> thread_state" where
  "load_view i S t = t\<lparr>thr_stats := fst (element i S), thr_tx := snd (element i S)\<rparr>"

text \<open>An iteration of thread \<open>i\<close>; a thread that has returned from its main function does nothing.\<close>

fun agent_iter :: "('v, 'e) agent_loop \<Rightarrow> nat \<times> 'v \<Rightarrow> agent \<Rightarrow> agent c_result" where
  "agent_iter L (i, e) (S, ts) =
     c_bind (c_read ts i) (\<lambda>t.
     case t of
       Stop _ \<Rightarrow> Inr (S, ts)
     | Go s \<Rightarrow>
         c_bind (al_iter L (mg_cfg S) (mg_stats S) e (load_view i S s)) (\<lambda>r.
         Inr (put i (stats_view (step_state r)) S, ts[i := r])))"

fun agent_iters :: "('v, 'e) agent_loop \<Rightarrow> (nat \<times> 'v) list \<Rightarrow> agent \<Rightarrow> agent c_result" where
  "agent_iters L [] A = Inr A"
| "agent_iters L (x # xs) A = c_bind (agent_iter L x A) (agent_iters L xs)"

text \<open>An iteration sees the manager's flags, and the peer and the system behave in it.\<close>

fun turn_obeys :: "('v, 'e) agent_loop \<Rightarrow> nat \<Rightarrow> nat \<times> 'v \<Rightarrow> agent \<Rightarrow> bool" where
  "turn_obeys L m (i, e) (S, ts) \<longleftrightarrow> i < length ts \<and>
     (case ts ! i of
        Stop _ \<Rightarrow> True
      | Go s \<Rightarrow> al_flags L (should_load S) (should_measure S) e
          \<and> al_obeys L m (mg_cfg S) (mg_stats S) e (load_view i S s))"

fun turns_obey :: "('v, 'e) agent_loop \<Rightarrow> nat \<Rightarrow> (nat \<times> 'v) list \<Rightarrow> agent \<Rightarrow> bool" where
  "turns_obey L m [] A = True"
| "turns_obey L m (x # xs) A \<longleftrightarrow> turn_obeys L m x A \<and> (case agent_iter L x A of Inr A' \<Rightarrow> turns_obey L m xs A' | Inl _ \<Rightarrow> True)"

text \<open>What happens on the wire.\<close>

fun turn_obs :: "('v, 'e) agent_loop \<Rightarrow> nat \<Rightarrow> nat \<times> 'v \<Rightarrow> agent \<Rightarrow> 'e list" where
  "turn_obs L m (i, e) (S, ts) =
     (case ts ! i of Stop _ \<Rightarrow> [] | Go s \<Rightarrow> al_obs L m (mg_cfg S) (mg_stats S) e (load_view i S s))"

fun turns_obs :: "('v, 'e) agent_loop \<Rightarrow> nat \<Rightarrow> (nat \<times> 'v) list \<Rightarrow> agent \<Rightarrow> (nat \<times> 'e list) list" where
  "turns_obs L m [] A = []"
| "turns_obs L m (x # xs) A = (fst x, turn_obs L m x A) # (case agent_iter L x A of Inr A' \<Rightarrow> turns_obs L m xs A' | Inl _ \<Rightarrow> [])"


subsection \<open>Reachable agents\<close>

text \<open>A configuration with which the agent can work, and a thread of an open-loop agent whose connections are open.\<close>

definition loop_ready :: "('v, 'e) agent_loop \<Rightarrow> nat \<Rightarrow> agent_config \<Rightarrow> bool" where
  "loop_ready L m cfg \<longleftrightarrow> cfg_atype cfg = al_type L \<and> app_ready cfg m \<and> cfg_targets cfg \<noteq> []
     \<and> 0 < cfg_thread_count cfg \<and> cfg_thread_count cfg \<le> cfg_conn_count cfg
     \<and> cfg_conn_count cfg div cfg_thread_count cfg < 2 ^ 26"

definition opened :: "agent_config \<Rightarrow> thread_state step \<Rightarrow> bool" where
  "opened cfg t \<longleftrightarrow> (\<exists>s s' dests now. throughput_open_connections cfg True (\<lambda>_. Setup_ok) s = Inr (0, s', dests)
     \<and> t = Go (s'\<lparr>next_tx := now\<rparr>))"

text \<open>What an open-loop iteration sees of the flags.\<close>

definition sees_flags :: "bool \<Rightarrow> bool \<Rightarrow> iter_env \<Rightarrow> bool" where
  "sees_flags load measuring e \<longleftrightarrow> ie_load e = load \<and> same_flag measuring e"

text \<open>The coordinator asks for no report before its first \<open>START_MEASURE\<close>.\<close>

inductive agent_reach :: "('v, 'e) agent_loop \<Rightarrow> (dbl \<Rightarrow> byte list) \<Rightarrow> nat \<Rightarrow> agent_config \<Rightarrow> agent \<Rightarrow> bool" for L enc m cfg where
  start: "register_threads js initial_stats = Inr st \<Longrightarrow> length js = nat (cfg_thread_count cfg) \<Longrightarrow>
    \<forall>j \<in> set js. length (lt_samples j) = MAX_PER_THREAD_SAMPLES \<Longrightarrow> length ts = nat (cfg_thread_count cfg) \<Longrightarrow>
    \<forall>t \<in> set ts. al_opened L cfg t \<Longrightarrow> agent_reach L enc m cfg (initial_manager junk cfg st, ts)"
| turn: "agent_reach L enc m cfg A \<Longrightarrow> turn_obeys L m x A \<Longrightarrow> agent_iter L x A = Inr A' \<Longrightarrow> agent_reach L enc m cfg A'"
| message: "agent_reach L enc m cfg (S, ts) \<Longrightarrow> manager_message enc env S = Inr (Continue, out, S') \<Longrightarrow>
    (agents_should_measure S' \<longrightarrow> 0 < per_thread_samples (mg_stats S')) \<Longrightarrow> agent_reach L enc m cfg (S', ts)"

subsection \<open>The invariant\<close>

definition same_wire :: "agent_config \<Rightarrow> agent_config \<Rightarrow> bool" where
  "same_wire cfg cfg' \<longleftrightarrow> cfg_app_proto cfg' = cfg_app_proto cfg \<and> cfg_conn_count cfg' = cfg_conn_count cfg
     \<and> cfg_thread_count cfg' = cfg_thread_count cfg"

lemma same_wire_ready:
  "same_wire cfg cfg' \<Longrightarrow> app_ready cfg' m = app_ready cfg m" "same_wire cfg cfg' \<Longrightarrow> threads_conns cfg' s = threads_conns cfg s"
  by (simp_all add: same_wire_def app_ready_def threads_conns_def per_thread_conn_def)

definition thread_inv :: "('v, 'e) agent_loop \<Rightarrow> nat \<Rightarrow> agent_config \<Rightarrow> thread_state \<Rightarrow> bool" where
  "thread_inv L m cfg s \<longleftrightarrow> al_ok L m s \<and> threads_conns cfg s"

definition agent_inv :: "('v, 'e) agent_loop \<Rightarrow> nat \<Rightarrow> agent_config \<Rightarrow> agent \<Rightarrow> bool" where
  "agent_inv L m cfg A \<longleftrightarrow> sys_inv cfg (fst A) \<and> same_wire cfg (mg_cfg (fst A))
     \<and> length (snd A) = nat (cfg_thread_count cfg) \<and> (\<forall>t \<in> set (snd A). thread_inv L m cfg (step_state t))
     \<and> (agents_should_measure (fst A) \<longrightarrow> 0 < per_thread_samples (mg_stats (fst A)))"

lemma open_connections_fresh:
  assumes "throughput_open_connections cfg ok setup s = Inr (0, s', dests)"
    and "cfg_atype cfg \<in> {SYMMETRIC_NIC_TIMESTAMP_AGENT, SYMMETRIC_AGENT}"
  shows "\<exists>n. connections s' = replicate n zero_connection \<and> conn_tx s' = replicate n zero_pending"
  using assms by (auto simp: throughput_open_connections_def c_result_simps Let_def split: if_splits)

lemma opened_inv:
  assumes "loop_ready L m cfg" and "al_ok L = thread_ok" and "opened cfg t"
  shows "thread_inv L m cfg (step_state t)"
proof -
  let ?n = "nat (cfg_conn_count cfg div cfg_thread_count cfg)"
  obtain s s' dests now where s': "throughput_open_connections cfg True (\<lambda>_. Setup_ok) s = Inr (0, s', dests)"
    and t: "t = Go (s'\<lparr>next_tx := now\<rparr>)" using assms(3) by (auto simp: opened_def)
  have cfg: "0 < cfg_thread_count cfg" "cfg_thread_count cfg \<le> cfg_conn_count cfg" "app_ready cfg m" "cfg_targets cfg \<noteq> []"
    "?n < 2 ^ 26"
    using assms(1) by (auto simp: loop_ready_def nat_less_iff)
  have pos: "0 < cfg_conn_count cfg div cfg_thread_count cfg"
    using cfg(1,2) by (simp add: pos_imp_zdiv_pos_iff)
  have ok: "length (connections s') = ?n" "thread_ok m s'"
    using open_connections_ok [OF cfg(4,1) _ cfg(3) refl cfg(5), of s] s' cfg by auto
  have "per_thread_conn cfg = Inr (int ?n)"
    using cfg(1,2) pos by (auto simp: per_thread_conn_def c_div_def sgn_if)
  then have "threads_conns cfg (s'\<lparr>next_tx := now\<rparr>)" using ok(1) pos by (auto simp: threads_conns_def)
  then show ?thesis using ok by (simp add: thread_inv_def assms(2) t thread_ok_def)
qed

text \<open>Messages leave what the transport depends on alone.\<close>

lemma set_load_wire: "set_load load cfg = Inr cfg' \<Longrightarrow> same_wire cfg cfg'"
  by (auto simp: set_load_def set_reference_load_def c_result_simps Let_def same_wire_def)

lemma message_wire:
  assumes "manager_message enc env S = Inr (Continue, out, S')"
  shows "same_wire (mg_cfg S) (mg_cfg S')"
  using assms
  by (auto simp: manager_message_def c_result_simps Let_def on_start_load_def same_wire_def split: if_splits
      dest!: set_load_wire start_measure_effect report_effect)

lemma same_wire_trans: "same_wire a b \<Longrightarrow> same_wire b c \<Longrightarrow> same_wire a c"
  by (simp add: same_wire_def)

lemma message_inv:
  assumes "agent_inv L m cfg (S, ts)" and "manager_message enc env S = Inr (Continue, out, S')"
    and "agents_should_measure S' \<longrightarrow> 0 < per_thread_samples (mg_stats S')"
  shows "agent_inv L m cfg (S', ts)"
proof -
  have "sys_inv cfg S'" using sys_step_inv [OF sys_step.message [OF assms(2)]] assms(1) by (simp add: agent_inv_def)
  moreover have "same_wire cfg (mg_cfg S')"
    using same_wire_trans [OF _ message_wire [OF assms(2)]] assms(1) by (simp add: agent_inv_def)
  ultimately show ?thesis using assms(1,3) by (simp add: agent_inv_def)
qed

subsection \<open>The contract of a loop\<close>

lemma load_view [simp]:
  "threads_conns cfg (load_view i S s) = threads_conns cfg s" "thread_ok m (load_view i S s) = thread_ok m s"
  "stats_view (load_view i S s) = element i S"
  by (simp_all add: load_view_def thread_ok_def threads_conns_def stats_view_def)

lemma load_view_fields: "connections (load_view i S s) = connections s" "conn_tx (load_view i S s) = conn_tx s"
  by (simp_all add: load_view_def)

text \<open>While it measures, every thread's log has the configured size.\<close>

lemma inv_lat_wf:
  assumes "agent_inv L m cfg (S, ts)" and "agents_should_measure S" and "i < length ts"
    and "cfg_atype cfg \<in> {LATENCY_AGENT, SYMMETRIC_NIC_TIMESTAMP_AGENT, SYMMETRIC_AGENT}"
  shows "lat_wf (word_of_int (per_thread_samples (mg_stats S))) (all_stats (mg_stats S) ! i)"
proof -
  have sys: "sys_inv cfg S" and pos: "0 < per_thread_samples (mg_stats S)" using assms(1,2) by (simp_all add: agent_inv_def)
  have "i < length (all_stats (mg_stats S))" using assms(1,3) sys by (simp add: agent_inv_def sys_inv_def)
  then have "all_stats (mg_stats S) ! i \<in> set (all_stats (mg_stats S))" by simp
  then show ?thesis using sys pos assms(4) unfolding sys_inv_def by blast
qed

lemma inv_registered:
  assumes "agent_inv L m cfg (S, ts)" and "i < length ts"
  shows "registered i S"
  using assms by (auto simp: agent_inv_def registered_def sys_inv_def stats_wf_def)

lemma record_calls_inv: "record_calls rs S = Inr S' \<Longrightarrow> sys_inv cfg S \<Longrightarrow> sys_inv cfg S'"
  by (induction rs arbitrary: S) (auto simp: c_result_simps dest: record_call_inv)

text \<open>The threads and the states of their clients.\<close>

definition related :: "(thread_state \<Rightarrow> 'c \<Rightarrow> bool) \<Rightarrow> thread_state step list \<Rightarrow> 'c list \<Rightarrow> bool" where
  "related rel ts cs \<longleftrightarrow> length cs = length ts \<and> (\<forall>i < length ts. rel (step_state (ts ! i)) (cs ! i))"

text \<open>
  What was recorded in a turn of thread \<open>i\<close>: the calls that lead from one state to the other store the
  sampled ones of the response times \<open>xs\<close>, and the transmit times \<open>ts\<close>.
\<close>

definition turn_recorded :: "nat \<Rightarrow> response_time list \<Rightarrow> timespec list \<Rightarrow> manager_state \<Rightarrow> manager_state \<Rightarrow> bool" where
  "turn_recorded i xs ts S S' \<longleftrightarrow>
     (\<exists>rs. (\<forall>r \<in> set rs. thread_of r = i) \<and> latencies (sampling_rate (mg_stats S)) rs = kept (sampling_rate (mg_stats S)) xs
        \<and> transmissions rs = ts \<and> record_calls rs S = Inr S')"

declare agent_iter.simps [simp del] turn_obeys.simps [simp del] turn_obs.simps [simp del]

lemma record_calls_append: "record_calls (rs @ rs') S = c_bind (record_calls rs S) (record_calls rs')"
  by (induction rs arbitrary: S) (auto simp: c_bind_def split: sum.splits)

lemma thread_samples_append: "thread_samples rate j (rs @ rs') = thread_samples rate j rs + thread_samples rate j rs'"
  by (induction rate j rs rule: thread_samples.induct) simp_all

lemma thread_samples_of:
  "\<forall>r \<in> set rs. thread_of r = i \<Longrightarrow> thread_samples rate j rs = (if j = i then length (latencies rate rs) else 0)"
  by (induction rate rs rule: latencies.induct) auto

text \<open>The numbers of a latency report: the average and the percentiles of the sorted times \<open>srt\<close>, with their bounds.\<close>

definition tells_latencies :: "u64 list \<Rightarrow> u64 list \<Rightarrow> bool" where
  "tells_latencies srt f \<longleftrightarrow> f ! 4 = (\<Sum>x\<leftarrow>srt. x) div word_of_nat (length srt)
     \<and> reports_percentile srt 50 (f ! 5, f ! 6, f ! 7) \<and> reports_percentile srt 90 (f ! 8, f ! 9, f ! 10)
     \<and> reports_percentile srt 95 (f ! 11, f ! 12, f ! 13) \<and> reports_percentile srt 99 (f ! 14, f ! 15, f ! 16)"

text \<open>
  The contract: \<open>rel\<close> relates a thread's rings to the state of its client, which \<open>run\<close> advances. An iteration
  on a well-behaved peer succeeds, is a run of the client, and records the client's response times. What the
  check of the load uses, the transmit times \<open>sent\<close>, matters for one kind of agent only.
\<close>

definition stamps_load :: "('v, 'e) agent_loop \<Rightarrow> bool" where
  "stamps_load L \<longleftrightarrow> al_type L = SYMMETRIC_NIC_TIMESTAMP_AGENT"

locale measuring_loop =
  fixes L :: "('v, 'e) agent_loop"
    and run :: "'e list \<Rightarrow> 'c \<Rightarrow> ('c \<times> response_time list) option"
    and sent :: "'e list \<Rightarrow> 'c \<Rightarrow> timespec list"
    and rel :: "thread_state \<Rightarrow> 'c \<Rightarrow> bool"
  assumes starts: "loop_ready L m cfg \<Longrightarrow> al_opened L cfg t \<Longrightarrow> thread_inv L m cfg (step_state t) \<and> (\<exists>c. rel (step_state t) c)"
    and ok_view: "al_ok L m (load_view i S s) = al_ok L m s"
    and run_nothing: "run [] c = Some (c, [])" "sent [] c = []"
    and rel_view: "connections s' = connections s \<Longrightarrow> conn_tx s' = conn_tx s \<Longrightarrow> rel s' c = rel s c"
    and refines: "app_ready cfg m \<Longrightarrow> al_ok L m s \<Longrightarrow> threads_conns cfg s \<Longrightarrow> rel s c \<Longrightarrow> al_obeys L m cfg st e s \<Longrightarrow>
      \<exists>r c' xs ts. al_iter L cfg st e s = Inr r \<and> al_ok L m (step_state r) \<and> threads_conns cfg (step_state r)
        \<and> rel (step_state r) c' \<and> run (al_obs L m cfg st e s) c = Some (c', xs)
        \<and> (stamps_load L \<longrightarrow> ts = sent (al_obs L m cfg st e s) c)
        \<and> (al_flags L l True e \<longrightarrow>
            records_measured st k (kept (sampling_rate st) xs) ts (stats_view s) (stats_view (step_state r)))"
    and records: "al_iter L cfg st e s = Inr r \<Longrightarrow> al_flags L l b e \<Longrightarrow>
      records st b (al_type L) k (stats_view s) (stats_view (step_state r))"
begin

lemma iter_shared:
  assumes "sys_inv cfg S" and "registered i S" and "al_flags L l (agents_should_measure S) e"
    and "al_iter L (mg_cfg S) (mg_stats S) e (load_view i S s) = Inr r"
  shows "sys_inv cfg (put i (stats_view (step_state r)) S)"
proof -
  have "records (mg_stats S) (agents_should_measure S) (al_type L) i (element i S) (stats_view (step_state r))"
    using records [OF assms(4,3), of i] by simp
  then obtain rs where "\<forall>c \<in> set rs. thread_of c = i"
    "local_calls (mg_stats S) (agents_should_measure S) rs (element i S) = Inr (stats_view (step_state r))"
    unfolding records_def by blast
  from record_calls_inv [OF record_calls_local [OF this(2) assms(2) this(1)] assms(1)] show ?thesis .
qed

text \<open>A turn of thread \<open>i\<close>: the state after it, the client's view of it, and what it recorded.\<close>

lemma agent_iter_refines:
  assumes "agent_inv L m cfg (S, ts)" and "related rel ts cs" and "app_ready cfg m" and "turn_obeys L m (i, e) (S, ts)"
  shows "\<exists>S' ts' cs' xs zs. agent_iter L (i, e) (S, ts) = Inr (S', ts') \<and> agent_inv L m cfg (S', ts') \<and> related rel ts' cs'
    \<and> (\<exists>v. S' = put i v S) \<and> clients_run run [(i, turn_obs L m (i, e) (S, ts))] cs = Some (cs', map (Pair i) xs)
    \<and> (stamps_load L \<longrightarrow> clients_sent run sent [(i, turn_obs L m (i, e) (S, ts))] cs = map (Pair i) zs)
    \<and> (agents_should_measure S \<longrightarrow> turn_recorded i xs zs S S')"
proof (cases "ts ! i")
  case (Stop s)
  have i: "i < length ts" "i < length cs" using assms(2,4) by (simp_all add: turn_obeys.simps related_def)
  have "turn_recorded i [] [] S S" unfolding turn_recorded_def by (intro exI [of _ "[]"]) simp
  moreover have "\<exists>v. S = put i v S" by (metis put_element)
  ultimately show ?thesis
    using Stop i assms(1,2)
    by (intro exI [of _ S] exI [of _ ts] exI [of _ cs] exI [of _ "[]"]) (simp add: agent_iter.simps turn_obs.simps run_nothing)
next
  case (Go s)
  let ?s = "load_view i S s"
  have i: "i < length ts" "i < length cs" and obeys: "al_flags L (agents_should_load S) (agents_should_measure S) e"
    "al_obeys L m (mg_cfg S) (mg_stats S) e ?s" using assms(2,4) Go by (simp_all add: turn_obeys.simps related_def)
  have inv: "sys_inv cfg S" "same_wire cfg (mg_cfg S)" using assms(1) by (simp_all add: agent_inv_def)
  have reg: "registered i S" by (rule inv_registered [OF assms(1) i(1)])
  have "thread_inv L m cfg s" using assms(1) Go i nth_mem [OF i(1)] unfolding agent_inv_def by fastforce
  then have "thread_inv L m cfg ?s" using ok_view by (simp add: thread_inv_def)
  then have s: "al_ok L m ?s" "threads_conns (mg_cfg S) ?s"
    using same_wire_ready(2) [OF inv(2), of ?s] unfolding thread_inv_def by blast+
  have ready: "app_ready (mg_cfg S) m" using assms(3) same_wire_ready(1) [OF inv(2)] by simp
  have "rel (step_state (ts ! i)) (cs ! i)" using assms(2) i(1) by (simp add: related_def)
  then have "rel ?s (cs ! i)" using Go rel_view [of ?s s] by (simp add: load_view_fields)
  from refines [OF ready s this obeys(2), of "agents_should_load S" i] obtain r c' xs zs where
    r: "al_iter L (mg_cfg S) (mg_stats S) e ?s = Inr r" "al_ok L m (step_state r)" "threads_conns (mg_cfg S) (step_state r)"
      "rel (step_state r) c'"
    and obs: "run (al_obs L m (mg_cfg S) (mg_stats S) e ?s) (cs ! i) = Some (c', xs)"
    and stamps: "stamps_load L \<longrightarrow> zs = sent (al_obs L m (mg_cfg S) (mg_stats S) e ?s) (cs ! i)"
    and rec: "al_flags L (agents_should_load S) True e \<longrightarrow>
      records_measured (mg_stats S) i (kept (sampling_rate (mg_stats S)) xs) zs (element i S) (stats_view (step_state r))"
    by auto
  let ?S' = "put i (stats_view (step_state r)) S" and ?ts' = "ts[i := r]" and ?cs' = "cs[i := c']"
  have "thread_inv L m cfg (step_state r)"
    using r(2,3) same_wire_ready(2) [OF inv(2), of "step_state r"] by (simp add: thread_inv_def)
  then have "\<forall>t \<in> set ?ts'. thread_inv L m cfg (step_state t)"
    using assms(1) set_update_subset_insert [of ts i r] by (auto simp: agent_inv_def)
  moreover have "per_thread_samples (mg_stats ?S') = per_thread_samples (mg_stats S)" by (simp add: put_def)
  ultimately have "agent_inv L m cfg (?S', ?ts')"
    using assms(1) iter_shared [OF inv(1) reg obeys(1) r(1)] by (simp add: agent_inv_def)
  moreover have "agent_iter L (i, e) (S, ts) = Inr (?S', ?ts')" using Go i r(1) by (simp add: agent_iter.simps)
  moreover have "related rel ?ts' ?cs'" using assms(2) i r(4) by (simp add: related_def nth_list_update)
  moreover have "clients_run run [(i, turn_obs L m (i, e) (S, ts))] cs = Some (?cs', map (Pair i) xs)"
    using Go i obs by (simp add: turn_obs.simps)
  moreover have "stamps_load L \<longrightarrow> clients_sent run sent [(i, turn_obs L m (i, e) (S, ts))] cs = map (Pair i) zs"
    using Go obs stamps by (simp add: turn_obs.simps)
  moreover have "turn_recorded i xs zs S ?S'" if "agents_should_measure S"
  proof -
    have "al_flags L (agents_should_load S) True e" using obeys(1) that by simp
    then obtain rs where rs: "\<forall>r \<in> set rs. thread_of r = i" "latencies (sampling_rate (mg_stats S)) rs = kept (sampling_rate (mg_stats S)) xs"
      "transmissions rs = zs" "local_calls (mg_stats S) True rs (element i S) = Inr (stats_view (step_state r))"
      using rec unfolding records_measured_def by blast
    then have "record_calls rs S = Inr ?S'" using record_calls_local [OF _ reg rs(1)] that by simp
    with rs(1-3) show ?thesis unfolding turn_recorded_def by blast
  qed
  ultimately show ?thesis by blast
qed

lemma agent_iters_refine:
  assumes "agent_inv L m cfg (S, ts)" and "related rel ts cs" and "app_ready cfg m" and "turns_obey L m turns (S, ts)"
    and "agents_should_measure S"
  shows "\<exists>S' ts' cs' ys rs. agent_iters L turns (S, ts) = Inr (S', ts') \<and> agent_inv L m cfg (S', ts') \<and> related rel ts' cs'
    \<and> clients_run run (turns_obs L m turns (S, ts)) cs = Some (cs', ys)
    \<and> record_calls rs S = Inr S' \<and> latencies (sampling_rate (mg_stats S)) rs = kept (sampling_rate (mg_stats S)) (map snd ys)
    \<and> (\<forall>j. thread_samples (sampling_rate (mg_stats S)) j rs = length (kept_of (sampling_rate (mg_stats S)) j ys))
    \<and> (stamps_load L \<longrightarrow> (\<forall>j. stamps_of j rs = sent_by j (clients_sent run sent (turns_obs L m turns (S, ts)) cs)))"
  using assms(1,2,4,5)
proof (induction turns arbitrary: S ts cs)
  case Nil
  then show ?case by (intro exI [of _ S] exI [of _ ts] exI [of _ cs] exI [of _ "[]"]) simp
next
  case (Cons x turns)
  obtain i e where x: "x = (i, e)" by (cases x)
  have "turn_obeys L m (i, e) (S, ts)" using Cons.prems(3) x by simp
  from agent_iter_refines [OF Cons.prems(1,2) assms(3) this] obtain S1 ts1 cs1 xs zs v where
    step: "agent_iter L (i, e) (S, ts) = Inr (S1, ts1)" and inv: "agent_inv L m cfg (S1, ts1)" "related rel ts1 cs1"
    and S1: "S1 = put i v S"
    and obs1: "clients_run run [(i, turn_obs L m (i, e) (S, ts))] cs = Some (cs1, map (Pair i) xs)"
    and sent1: "stamps_load L \<longrightarrow> clients_sent run sent [(i, turn_obs L m (i, e) (S, ts))] cs = map (Pair i) zs"
    and "turn_recorded i xs zs S S1" using Cons.prems(4) by blast
  then obtain rs1 where rs1: "\<forall>r \<in> set rs1. thread_of r = i" "record_calls rs1 S = Inr S1"
      "latencies (sampling_rate (mg_stats S)) rs1 = kept (sampling_rate (mg_stats S)) xs" "transmissions rs1 = zs"
    unfolding turn_recorded_def by blast
  have rate: "sampling_rate (mg_stats S1) = sampling_rate (mg_stats S)" by (simp add: S1 put_def)
  have "turns_obey L m turns (S1, ts1)" "agents_should_measure S1" using Cons.prems(3,4) step x S1 by simp_all
  from Cons.IH [OF inv this] obtain S' ts' cs' ys rs where
    run': "agent_iters L turns (S1, ts1) = Inr (S', ts')" and inv': "agent_inv L m cfg (S', ts')" "related rel ts' cs'"
    and obs: "clients_run run (turns_obs L m turns (S1, ts1)) cs1 = Some (cs', ys)"
    and rs: "record_calls rs S1 = Inr S'" "latencies (sampling_rate (mg_stats S)) rs = kept (sampling_rate (mg_stats S)) (map snd ys)"
      "\<forall>j. thread_samples (sampling_rate (mg_stats S)) j rs = length (kept_of (sampling_rate (mg_stats S)) j ys)"
      "stamps_load L \<longrightarrow> (\<forall>j. stamps_of j rs = sent_by j (clients_sent run sent (turns_obs L m turns (S1, ts1)) cs1))"
    unfolding rate by blast
  have "clients_run run (turns_obs L m (x # turns) (S, ts)) cs = Some (cs', map (Pair i) xs @ ys)"
    using clients_run_Cons [OF obs1 obs] step x by simp
  moreover have "record_calls (rs1 @ rs) S = Inr S'" using rs1(2) rs(1) by (simp add: record_calls_append)
  moreover have "map snd (map (Pair i) xs @ ys) = xs @ map snd ys" by (simp add: comp_def)
  then have "latencies (sampling_rate (mg_stats S)) (rs1 @ rs) = kept (sampling_rate (mg_stats S)) (map snd (map (Pair i) xs @ ys))"
    using rs1(3) rs(2) by (simp add: latencies_append)
  moreover have "thread_samples (sampling_rate (mg_stats S)) j (rs1 @ rs)
      = length (kept_of (sampling_rate (mg_stats S)) j (map (Pair i) xs @ ys))" for j
    using rs(3) rs1(3) thread_samples_of [OF rs1(1), of "sampling_rate (mg_stats S)" j] by (simp add: thread_samples_append)
  moreover have "stamps_of j (rs1 @ rs) = sent_by j (clients_sent run sent (turns_obs L m (x # turns) (S, ts)) cs)"
    if "stamps_load L" for j
  proof -
    have "clients_sent run sent (turns_obs L m (x # turns) (S, ts)) cs
        = map (Pair i) zs @ clients_sent run sent (turns_obs L m turns (S1, ts1)) cs1"
      using clients_sent_Cons [OF obs1, of sent "turns_obs L m turns (S1, ts1)"] sent1 that step x by (simp del: clients_sent.simps)
    then show ?thesis using rs(4) rs1(4) stamps_of_thread [OF rs1(1), of j] that by (simp add: stamps_of_append)
  qed
  ultimately show ?case
    using step run' inv' x
    by (intro exI [of _ S'] exI [of _ ts'] exI [of _ cs'] exI [of _ "map (Pair i) xs @ ys"] exI [of _ "rs1 @ rs"]) simp
qed

lemma agent_reach_inv:
  assumes "loop_ready L m cfg"
  shows "agent_reach L enc m cfg A \<Longrightarrow> agent_inv L m cfg A \<and> (\<exists>cs. related rel (snd A) cs)"
proof (induction rule: agent_reach.induct)
  case (start js st ts junk)
  have opened: "thread_inv L m cfg (step_state t) \<and> (\<exists>c. rel (step_state t) c)" if "t \<in> set ts" for t
    using starts [OF assms] start(5) that by blast
  have "\<forall>i < length ts. \<exists>c. rel (step_state (ts ! i)) c" using opened by simp
  then obtain f where "\<forall>i < length ts. rel (step_state (ts ! i)) (f i)" by metis
  then have rels: "related rel ts (map f [0 ..< length ts])" by (simp add: related_def)
  have "sys_inv cfg (initial_manager junk cfg st)"
    by (rule reachable_inv [OF reachable.start [OF start(1-3)]])
  moreover have "same_wire cfg (mg_cfg (initial_manager junk cfg st))" "\<not> agents_should_measure (initial_manager junk cfg st)"
    by (simp_all add: same_wire_def initial_manager_def)
  ultimately show ?case using start(4) opened rels by (auto simp: agent_inv_def)
next
  case (turn A x A')
  obtain S ts i e where A: "A = (S, ts)" "x = (i, e)" by (cases A; cases x)
  have "app_ready cfg m" using assms by (simp add: loop_ready_def)
  moreover obtain cs where "agent_inv L m cfg (S, ts)" "related rel ts cs" "turn_obeys L m (i, e) (S, ts)" using turn A by auto
  ultimately obtain S' ts' cs' where "agent_iter L (i, e) (S, ts) = Inr (S', ts')" "agent_inv L m cfg (S', ts')" "related rel ts' cs'"
    using agent_iter_refines by blast
  then show ?case using turn(3) A by auto
next
  case (message S ts env out S')
  then show ?case using message_inv [of L, OF _ message.hyps(2,3)] by simp
qed

text \<open>From \<open>START_MEASURE\<close> over any turns of the threads to the report.\<close>

lemma report_describes:
  assumes "loop_ready L m cfg" and "agent_reach L enc m cfg (S, ts)" and "related rel ts cs"
    and "al_type L \<in> {LATENCY_AGENT, SYMMETRIC_NIC_TIMESTAMP_AGENT, SYMMETRIC_AGENT}"
    and "delivers env1 START_MEASURE n" and "me_sampling env1 = (8, d)" and "length d = 8"
    and "manager_message enc env1 S = Inr (Continue, ack, S1)"
    and "turns_obey L m turns (S1, ts)" and "delivers env2 REPORT_REQ REPORT_LATENCY"
  shows "\<exists>S2 ts2 cs2 ys. agent_iters L turns (S1, ts) = Inr (S2, ts2) \<and> related rel ts2 cs2
    \<and> clients_run run (turns_obs L m turns (S1, ts)) cs = Some (cs2, ys)
    \<and> (\<forall>xs zs ref. xs = kept (double_of_bytes d / Fin 100) (map snd ys) \<and> 726 \<le> length xs \<and> length xs \<le> AGG_SAMPLE_SIZE
         \<and> close_values xs
         \<and> (\<forall>i. length (kept_of (double_of_bytes d / Fin 100) i ys) \<le> nat (requested_per_thread n (mg_cfg S)))
         \<and> zs = clients_sent run sent (turns_obs L m turns (S1, ts)) cs \<and> (stamps_load L \<longrightarrow> steady_load zs)
         \<and> ref = reference_ia (mg_stats S1) \<longrightarrow>
       (\<exists>out S3. manager_message enc env2 S2 = Inr (Continue, out, S3) \<and> tells_latencies (sort xs) (parse_u64s 17 (drop 12 out))
          \<and> (stamps_load L \<and> ref \<noteq> [] \<and> close_values ref \<and> bytes_u32 (drop (length out - 4) out) = 1 \<longrightarrow>
               ks_statistic ref (map word_of_int (gaps (sort (map snd zs)))) < ia_threshold (length zs - 1))))"
proof -
  have inv: "agent_inv L m cfg (S, ts)" using agent_reach_inv [OF assms(1,2)] by simp
  then have sys: "sys_inv cfg S" and count: "cfg_thread_count (mg_cfg S) = cfg_thread_count cfg"
    by (simp_all add: agent_inv_def same_wire_def)
  have ready: "app_ready cfg m" "0 < cfg_thread_count (mg_cfg S)" and atype: "cfg_atype cfg = al_type L"
    using assms(1) count by (simp_all add: loop_ready_def)
  have "cfg_atype cfg \<in> {LATENCY_AGENT, SYMMETRIC_NIC_TIMESTAMP_AGENT, SYMMETRIC_AGENT}"
    using assms(4) atype by simp
  note cfg = this ready
  obtain ref where S1: "S1 = S\<lparr>mg_stats := (clear_all_stats (cfg_atype (mg_cfg S)) (mg_stats S))
        \<lparr>per_thread_samples := requested_per_thread n (mg_cfg S), sampling_rate := double_of_bytes d / Fin 100, reference_ia := ref\<rparr>,
      start_measure_time := me_time env1, agents_should_measure := True\<rparr>"
    using start_measure_cleared(1) [OF assms(5-7) cfg(3) assms(8)] by blast
  have rate: "sampling_rate (mg_stats S1) = double_of_bytes d / Fin 100" and on: "agents_should_measure S1"
    by (simp_all add: S1)
  have "0 < per_thread_samples (mg_stats S1)"
    using start_measure_cleared(2) [OF assms(5-7) cfg(3) assms(8)] by (simp add: S1)
  with message_inv [OF inv assms(8)] have "agent_inv L m cfg (S1, ts)" by simp
  from agent_iters_refine [OF this assms(3) cfg(2) assms(9) on] obtain S2 ts2 cs2 ys rs where
    iters: "agent_iters L turns (S1, ts) = Inr (S2, ts2)" "related rel ts2 cs2"
    and obs: "clients_run run (turns_obs L m turns (S1, ts)) cs = Some (cs2, ys)"
    and rs: "record_calls rs S1 = Inr S2" "latencies (double_of_bytes d / Fin 100) rs = kept (double_of_bytes d / Fin 100) (map snd ys)"
      "\<forall>j. thread_samples (double_of_bytes d / Fin 100) j rs = length (kept_of (double_of_bytes d / Fin 100) j ys)"
      "stamps_load L \<longrightarrow> (\<forall>j. stamps_of j rs = sent_by j (clients_sent run sent (turns_obs L m turns (S1, ts)) cs))"
    unfolding rate by blast
  have "all_tx (mg_stats S1) = all_tx (clear_all_stats (cfg_atype (mg_cfg S)) (mg_stats S))" by (simp add: S1)
  note log = measured_transmissions [OF sys on this rs(1)]
  let ?zs = "clients_sent run sent (turns_obs L m turns (S1, ts)) cs"
  have "length cs = nat (cfg_thread_count cfg)" using inv assms(3) by (simp add: agent_inv_def related_def)
  then have threads: "\<forall>z \<in> set ?zs. fst z < nat (cfg_thread_count cfg)" using clients_sent_threads [OF obs] by simp
  have check: "\<exists>v. check_ia (mg_stats S2) = Inr v \<and> fst v \<in> {0, 1}
      \<and> (close_values (reference_ia (mg_stats S1)) \<and> reference_ia (mg_stats S1) \<noteq> [] \<and> fst v = 1 \<longrightarrow>
        ks_statistic (reference_ia (mg_stats S1)) (map word_of_int (gaps (sort (map snd ?zs)))) < ia_threshold (length ?zs - 1))"
    if "stamps_load L" "steady_load ?zs"
  proof -
    have "\<forall>j. length (stamps_of j rs) \<le> MAX_PER_THREAD_TX_SAMPLES" using that rs(4) by (simp add: steady_load_def)
    note log = log [OF this]
    have "recorded_tx (mg_stats S2) = concat (map (\<lambda>i. sent_by i ?zs) [0 ..< nat (cfg_thread_count cfg)])"
      using log(1) rs(4) that(1) by simp
    from steady_check [OF that(2) threads log(2) this] log(3) show ?thesis by simp
  qed
  let ?rate = "double_of_bytes d / Fin 100" and ?ref = "reference_ia (mg_stats S1)"
  let ?xs = "kept ?rate (map snd ys)"
  have "\<exists>out S3. manager_message enc env2 S2 = Inr (Continue, out, S3) \<and> tells_latencies (sort ?xs) (parse_u64s 17 (drop 12 out))
      \<and> (stamps_load L \<and> ?ref \<noteq> [] \<and> close_values ?ref \<and> bytes_u32 (drop (length out - 4) out) = 1 \<longrightarrow>
           ks_statistic ?ref (map word_of_int (gaps (sort (map snd ?zs)))) < ia_threshold (length ?zs - 1))"
    if size: "726 \<le> length ?xs" "length ?xs \<le> AGG_SAMPLE_SIZE" "close_values ?xs"
      and fit: "\<forall>i. length (kept_of ?rate i ys) \<le> nat (requested_per_thread n (mg_cfg S))" and steady: "stamps_load L \<longrightarrow> steady_load ?zs"
  proof -
    have returns: "cfg_atype cfg = SYMMETRIC_NIC_TIMESTAMP_AGENT \<longrightarrow> (\<exists>v. check_ia (mg_stats S2) = Inr v)"
      using check steady atype by (auto simp: stamps_load_def)
    obtain out S3 where out: "manager_message enc env2 S2 = Inr (Continue, out, S3)"
      "tells_latencies (sort ?xs) (parse_u64s 17 (drop 12 out))"
      "cfg_atype cfg = SYMMETRIC_NIC_TIMESTAMP_AGENT \<longrightarrow>
         (\<forall>v. check_ia (mg_stats S2) = Inr v \<longrightarrow> drop (length out - 4) out = u32_bytes (word_of_int (fst v)))"
      using measured_latencies_ok [OF sys cfg(1) assms(5-7) cfg(3) assms(8) rs(1) assms(10) _ _ _ _ returns] rs(2,3) fit size
      by (auto simp: tells_latencies_def)
    have "ks_statistic ?ref (map word_of_int (gaps (sort (map snd ?zs)))) < ia_threshold (length ?zs - 1)"
      if load: "stamps_load L" and ref: "?ref \<noteq> []" "close_values ?ref" and one: "bytes_u32 (drop (length out - 4) out) = 1"
    proof -
      obtain v where v: "check_ia (mg_stats S2) = Inr v" "fst v \<in> {0, 1}" "fst v = 1 \<longrightarrow>
          ks_statistic ?ref (map word_of_int (gaps (sort (map snd ?zs)))) < ia_threshold (length ?zs - 1)"
        using check [OF load] steady load ref by blast
      then have "word_of_int (fst v) = (1 :: u32)" using out(3) one atype load by (simp add: stamps_load_def bytes_roundtrip)
      then show ?thesis using v(2,3) by auto
    qed
    with out(1,2) show ?thesis by blast
  qed
  then show ?thesis by (intro exI [of _ S2] exI [of _ ts2] exI [of _ cs2] exI [of _ ys] conjI iters obs) blast
qed

end

end
