(* ===== verification/Agent_Examples.thy ===== *)
theory Agent_Examples
  imports Agent_Loop
begin

text \<open>
  One thread with one connection, at 1000 requests per second: the configuration and the start of the
  measurements on which the properties of whole agents are evaluated.
\<close>

definition ex_cfg_run :: agent_config where
  "ex_cfg_run = ex_cfg\<lparr>cfg_reference_ia_gen := Some (Fixed_gen (Fin 5))\<rparr>"

definition ex_cfg_loaded :: agent_config where
  "ex_cfg_loaded = ex_cfg_run\<lparr>cfg_reference_ia_gen := Some (Fixed_gen (Fin 1000)), cfg_idist := Some (Fixed_gen (Fin 1000))\<rparr>"

definition ex_turn_send :: send_env where
  "ex_turn_send = \<lparr>se_now = 10 ^ 12, se_rands = [0], se_req = ex_draws, se_ret = 8, se_block = False, se_ia = ex_draws,
     se_time = Timespec 5 10, se_measuring = True\<rparr>"

lemma ex_cfg_loaded_atype [simp]: "cfg_atype ex_cfg_loaded = SYMMETRIC_AGENT"
  by (simp add: ex_cfg_loaded_def ex_cfg_run_def ex_cfg_def)

lemma ex_configs_ready: "app_ready (ex_cfg_loaded\<lparr>cfg_atype := a\<rparr>) 8" "al_type L = a \<Longrightarrow> loop_ready L 8 (ex_cfg_run\<lparr>cfg_atype := a\<rparr>)"
  using ex_ready(1)
  by (simp_all add: app_ready_def loop_ready_def ex_cfg_loaded_def ex_cfg_run_def ex_cfg_def)

lemma ex_request_size: "request_bytes [long_bytes 1] = 8"
  by (simp add: long_bytes_def request_bytes_def)

lemma ex_request:
  "prepare_request (ex_cfg_loaded\<lparr>cfg_atype := a\<rparr>) (se_req ex_turn_send) arg = Inr ([long_bytes 1], Arg_long 1)"
  "get_ia (ex_cfg_loaded\<lparr>cfg_atype := a\<rparr>) (se_ia ex_turn_send) = Inr (10 ^ 6)"
  using round_half_away_of_int [of 1] round_half_away_of_int [of "10 ^ 6"]
  by (simp_all add: prepare_request_def ex_cfg_loaded_def ex_cfg_run_def ex_cfg_def synthetic_create_request_def
      ex_turn_send_def ex_draws_def long_bytes_def get_ia_def gen_ptr_def)

lemma ex_requested: "requested_per_thread 1000 (ex_cfg_loaded\<lparr>cfg_atype := a\<rparr>) = 1010"
proof -
  have "\<lfloor>2021 / 2 :: real\<rfloor> = 1010" by simp
  then show ?thesis
    by (simp add: requested_per_thread_def round_half_away_def ex_cfg_loaded_def ex_cfg_run_def ex_cfg_def)
qed

lemma ex_pick_free:
  assumes "unat (tc_pending c) < MAX_PENDING_REQS" and "\<not> tc_closed c"
  shows "pick_conn (ex_cfg_loaded\<lparr>cfg_atype := a\<rparr>) (se_rands ex_turn_send) [c] = Inr (Some 0)"
  using assms
  by (simp add: pick_conn_def per_thread_conn_def c_div_def ex_cfg_loaded_def ex_cfg_run_def ex_cfg_def ex_turn_send_def)

lemma ex_pick: "tc_pending c = 0 \<Longrightarrow> \<not> tc_closed c \<Longrightarrow> pick_conn (ex_cfg_loaded\<lparr>cfg_atype := a\<rparr>) (se_rands ex_turn_send) [c] = Inr (Some 0)"
  by (rule ex_pick_free) (simp_all add: MAX_PENDING_REQS_def)

text \<open>The thread of an open-loop agent when its connection is open.\<close>

definition ex_opened_thread :: thread_state where
  "ex_opened_thread = ex_thread\<lparr>avail_reqs := 16, connections := [zero_connection], conn_tx := [zero_pending], next_tx := 0\<rparr>"

lemma ex_opened:
  assumes "a \<in> {SYMMETRIC_NIC_TIMESTAMP_AGENT, SYMMETRIC_AGENT}"
  shows "opened (ex_cfg_run\<lparr>cfg_atype := a\<rparr>) (Go ex_opened_thread)"
proof -
  have "throughput_open_connections (ex_cfg_run\<lparr>cfg_atype := a\<rparr>) True (\<lambda>_. Setup_ok) ex_thread
      = Inr (0, ex_thread\<lparr>avail_reqs := 16, connections := [zero_connection], conn_tx := [zero_pending]\<rparr>,
          [\<lparr>ht_ip = 16777343, ht_port = 80\<rparr>])"
    using assms
    by (auto simp: throughput_open_connections_def per_thread_conn_def c_div_def ex_cfg_run_def ex_cfg_def
        MAX_PENDING_REQS_def dest_of_def numeral_eq_Suc)
  then show ?thesis unfolding opened_def ex_opened_thread_def by fastforce
qed

text \<open>An agent of any kind starts with thread state \<open>s\<close>, and is told to generate load and then to measure 1000 samples.\<close>

lemma ex_loop_started:
  fixes L :: "('v, 'e) agent_loop"
  assumes "al_opened L (ex_cfg_run\<lparr>cfg_atype := a\<rparr>) (Go s)"
  shows "\<exists>S S1 out. agent_reach L (\<lambda>_. []) 8 (ex_cfg_run\<lparr>cfg_atype := a\<rparr>) (S, [Go s]) \<and> mg_cfg S = ex_cfg_loaded\<lparr>cfg_atype := a\<rparr>
     \<and> manager_message (\<lambda>_. []) (ex_msg START_MEASURE 1000 7) S = Inr (Continue, out, S1)
     \<and> mg_cfg S1 = ex_cfg_loaded\<lparr>cfg_atype := a\<rparr> \<and> agents_should_load S1 \<and> agents_should_measure S1
     \<and> per_thread_samples (mg_stats S1) = 1010"
proof -
  let ?cfg = "ex_cfg_run\<lparr>cfg_atype := a\<rparr>" and ?loaded = "ex_cfg_loaded\<lparr>cfg_atype := a\<rparr>"
  obtain st where st: "register_threads [ex_junk] initial_stats = Inr st"
    by (simp add: init_per_thread_stats_def initial_stats_def)
  let ?S0 = "initial_manager ex_junk ?cfg st"
  have start: "agent_reach L (\<lambda>_. []) 8 ?cfg (?S0, [Go s])"
    by (rule agent_reach.start [OF st]) (use assms in \<open>simp_all add: ex_cfg_run_def ex_cfg_def ex_junk_def zero_lat_def\<close>)
  have "set_load 1000 ?cfg = Inr ?loaded"
    by (simp add: set_load_def set_reference_load_def gen_ptr_def ex_cfg_run_def ex_cfg_def ex_cfg_loaded_def)
  then obtain ack0 S where S: "manager_message (\<lambda>_. []) (ex_msg START_LOAD 1000 3) ?S0 = Inr (Continue, ack0, S)"
    and S_cfg: "mg_cfg S = ?loaded" "agents_should_load S" "\<not> agents_should_measure S"
    unfolding manager_message_delivers [OF delivers_ex_msg]
    by (simp add: on_start_load_def read_exactly_def ex_msg_def bytes_roundtrip initial_manager_def reply_ack_def
        write_all_def Let_def)
  have reach: "agent_reach L (\<lambda>_. []) 8 ?cfg (S, [Go s])"
    by (rule agent_reach.message [OF start S]) (simp add: S_cfg)
  have fields: "cfg_reference_ia_gen ?loaded = Some (Fixed_gen (Fin 1000))" "cfg_thread_count ?loaded = 1"
    by (simp_all add: ex_cfg_loaded_def ex_cfg_run_def ex_cfg_def)
  have req: "requested_per_thread 1000 (mg_cfg S) = 1010" by (simp only: S_cfg ex_requested)
  have "draws_ok (Fixed_gen (Fin 1000)) (reference_draws (ex_msg START_MEASURE 1000 7))"
    by (rule fixed_draws_ok) simp
  then obtain out S1 where S1: "manager_message (\<lambda>_. []) (ex_msg START_MEASURE 1000 7) S = Inr (Continue, out, S1)"
    and S1_samples: "per_thread_samples (mg_stats S1) = 1010"
    using start_measure_ok [of "ex_msg START_MEASURE 1000 7" 1000 "[0, 0, 0, 0, 0, 0, 89, 64]" S "Fixed_gen (Fin 1000)" "\<lambda>_. []"]
      req fields ex_msg_fields(1) by (auto simp: MAX_PER_THREAD_SAMPLES_def S_cfg)
  from start_measure_cleared(1) [OF delivers_ex_msg ex_msg_fields(1) _ _ S1] S_cfg fields
  have "mg_cfg S1 = ?loaded" "agents_should_load S1" "agents_should_measure S1" by auto
  then show ?thesis
    by (intro exI [of _ S] exI [of _ S1] exI [of _ out] conjI reach S_cfg(1) S1 S1_samples)
qed

end
