(* ===== verification/Agent_Run.thy ===== *)
theory Agent_Run
  imports Agent_Examples
begin

text \<open>
  The symmetric agent as a whole: its loop fulfils the contract of \<open>Agent_Loop\<close> with the client of
  \<open>Client_Spec\<close>, so the numbers the coordinator receives describe that client's response times.
\<close>

subsection \<open>The loop of the symmetric agent\<close>

definition user_loop :: "(iter_env, wire_event) agent_loop" where
  "user_loop = \<lparr>al_type = SYMMETRIC_AGENT, al_opened = opened, al_ok = thread_ok, al_iter = user_iter, al_flags = sees_flags, al_obeys = iter_obeys, al_obs = iter_obs\<rparr>"

lemma user_loop_simps [simp]:
  "al_type user_loop = SYMMETRIC_AGENT" "al_iter user_loop = user_iter" "al_obeys user_loop = iter_obeys"
  "al_obs user_loop = iter_obs" "al_opened user_loop = opened" "al_ok user_loop = thread_ok" "al_flags user_loop = sees_flags" "\<not> stamps_load user_loop"
  by (simp_all add: user_loop_def stamps_load_def)

definition user_rel :: "thread_state \<Rightarrow> outstanding \<Rightarrow> bool" where
  "user_rel s os \<longleftrightarrow> rings_ok s \<and> os = outstanding s"

lemma user_opened:
  assumes "loop_ready user_loop m cfg" and "opened cfg t"
  shows "user_rel (step_state t) (outstanding (step_state t))"
proof -
  obtain s s' dests now where s': "throughput_open_connections cfg True (\<lambda>_. Setup_ok) s = Inr (0, s', dests)"
    and t: "t = Go (s'\<lparr>next_tx := now\<rparr>)" using assms(2) unfolding opened_def by blast
  have "cfg_atype cfg \<in> {SYMMETRIC_NIC_TIMESTAMP_AGENT, SYMMETRIC_AGENT}" using assms(1) by (simp add: loop_ready_def)
  from open_connections_fresh [OF s' this] obtain n where fresh: "connections s' = replicate n zero_connection"
    "conn_tx s' = replicate n zero_pending" by blast
  have "complete_wf zero_pending" "in_flight zero_pending = 0"
    using pq_wf_zero by (simp_all add: complete_wf_def in_flight_def zero_pending_def)
  then show ?thesis by (simp add: user_rel_def rings_ok_def t fresh zero_connection_def)
qed

interpretation user_agent: measuring_loop user_loop client_run "\<lambda>_ _. []" user_rel
proof (unfold_locales, goal_cases)
  case (1 m cfg t)
  then have t: "opened cfg t" by simp
  show ?case using opened_inv [OF 1(1) user_loop_simps(6) t] user_opened [OF 1(1) t] by blast
next
  case 2
  then show ?case by simp
next
  case 3
  then show ?case by simp
next
  case 4
  then show ?case by simp
next
  case (5 s' s c)
  then show ?case by (simp add: user_rel_def rings_ok_def outstanding_def)
next
  case (6 cfg m s c st e l k)
  then have rings: "rings_ok s" and c: "c = outstanding s" by (simp_all add: user_rel_def)
  obtain r xs where r: "user_iter cfg st e s = Inr r" "thread_ok m (step_state r)" "rings_ok (step_state r)"
    and obs: "client_run (iter_obs m cfg st e s) (outstanding s) = Some (outstanding (step_state r), xs)"
    and rec: "same_flag True e \<longrightarrow>
      records_latencies st k (kept (sampling_rate st) xs) (stats_view s) (stats_view (step_state r))"
    using user_iter_refines [OF 6(1) _ rings 6(3), of st e k] 6(2,5) by auto
  have "length (connections (step_state r)) = length (connections s)"
    using client_run_length [OF obs] outstanding_fields(2) [OF r(3)] outstanding_fields(2) [OF rings] by simp
  then have "threads_conns cfg (step_state r)" using 6(3) by (auto simp: threads_conns_def)
  moreover have "\<exists>ts. sees_flags l True e \<longrightarrow>
      records_measured st k (kept (sampling_rate st) xs) ts (stats_view s) (stats_view (step_state r))"
    using rec by (auto simp: records_latencies_measured sees_flags_def)
  ultimately show ?case using r obs by (fastforce simp: user_rel_def c)
next
  case (7 cfg st e s r l b k)
  then show ?case using user_iter_records [of cfg st e s r b SYMMETRIC_AGENT k] by (simp add: sees_flags_def)
qed

definition thread_queues :: "thread_state step \<Rightarrow> outstanding" where
  "thread_queues t = outstanding (step_state t)"

lemma related_user: "related user_rel ts cs \<longleftrightarrow> (\<forall>t \<in> set ts. rings_ok (step_state t)) \<and> cs = map thread_queues ts"
  by (auto simp: related_def user_rel_def thread_queues_def all_set_conv_all_nth intro!: nth_equalityI)

lemma user_reach_inv:
  assumes "loop_ready user_loop m cfg" and "agent_reach user_loop enc m cfg (S, ts)"
  shows "agent_inv user_loop m cfg (S, ts)" and "related user_rel ts (map thread_queues ts)"
  using user_agent.agent_reach_inv [OF assms] by (auto simp: related_user)

subsection \<open>Properties\<close>

text \<open>
  C1. The numbers the coordinator receives describe the response times of the clients. For a symmetric
  agent in any state it can reach, with any number of threads and any interleaving of their iterations
  and the coordinator's messages: after \<open>START_MEASURE\<close> the threads' iterations never fail, what they
  send and receive is a run of one abstract client per thread, and the latency report that follows holds
  the average and the percentiles of exactly the sampled response times of that run, provided no thread
  sampled more than it was asked for.
\<close>

theorem report_describes_response_times:
  assumes "loop_ready user_loop m cfg" and "agent_reach user_loop enc m cfg (S, ts)"
    and "delivers env1 START_MEASURE n" and "me_sampling env1 = (8, d)" and "length d = 8"
    and "manager_message enc env1 S = Inr (Continue, ack, S1)"
    and "turns_obey user_loop m turns (S1, ts)" and "delivers env2 REPORT_REQ REPORT_LATENCY"
  shows "\<exists>S2 ts2 ys. agent_iters user_loop turns (S1, ts) = Inr (S2, ts2)
    \<and> clients_run client_run (turns_obs user_loop m turns (S1, ts)) (map thread_queues ts) = Some (map thread_queues ts2, ys)
    \<and> (\<forall>xs. xs = kept (double_of_bytes d / Fin 100) (map snd ys) \<and> 726 \<le> length xs \<and> length xs \<le> AGG_SAMPLE_SIZE
         \<and> close_values xs
         \<and> (\<forall>i. length (kept_of (double_of_bytes d / Fin 100) i ys) \<le> nat (requested_per_thread n (mg_cfg S))) \<longrightarrow>
       (\<exists>out S3. manager_message enc env2 S2 = Inr (Continue, out, S3) \<and> tells_latencies (sort xs) (parse_u64s 17 (drop 12 out))))"
proof -
  from user_agent.report_describes [OF assms(1,2) user_reach_inv(2) [OF assms(1,2)] _ assms(3-8)] show ?thesis
    unfolding related_user by simp blast
qed

subsection \<open>A measurement of 800 requests\<close>

text \<open>One thread with one connection, at 1000 requests per second; every request is answered after 30 ns.\<close>

definition ex_turn_env :: iter_env where
  "ex_turn_env = \<lparr>ie_load = True, ie_idle_now = 0, ie_sends = [ex_turn_send], ie_events = [ex_event]\<rparr>"

definition ex_turn_obs :: "wire_event list" where
  "ex_turn_obs = [Sent 0 (Timespec 5 10), Answered 0 1 (Timespec 5 40) (Fin 0)]"

definition ex_running :: "nat \<Rightarrow> agent \<Rightarrow> bool" where
  "ex_running k A \<longleftrightarrow> (\<exists>S s c q. A = (S, [Go s]) \<and> agent_inv user_loop 8 ex_cfg_run A \<and> rings_ok s \<and> mg_cfg S = ex_cfg_loaded
     \<and> agents_should_load S \<and> agents_should_measure S \<and> connections s = [c] \<and> tc_pending c = 0 \<and> tc_buffer_idx c = 0
     \<and> \<not> tc_closed c \<and> next_tx s = int k * 10 ^ 6 \<and> conn_tx s = [q] \<and> unat (pq_head q) = k)"

lemma ex_loaded_ready: "app_ready ex_cfg_loaded 8" "loop_ready user_loop 8 ex_cfg_run"
  using ex_ready(1)
  by (simp_all add: app_ready_def loop_ready_def ex_cfg_loaded_def ex_cfg_run_def ex_cfg_def)

lemma ex_same:
  "ex_cfg_run\<lparr>cfg_atype := SYMMETRIC_AGENT\<rparr> = ex_cfg_run" "ex_cfg_loaded\<lparr>cfg_atype := SYMMETRIC_AGENT\<rparr> = ex_cfg_loaded"
  by (simp_all add: ex_cfg_loaded_def ex_cfg_run_def ex_cfg_def)

lemmas ex_turn_request = ex_request [where a = SYMMETRIC_AGENT, unfolded ex_same]

lemma ex_turn:
  assumes "ex_running k A" and "k < 1000"
  shows "turn_obeys user_loop 8 (0, ex_turn_env) A \<and> turn_obs user_loop 8 (0, ex_turn_env) A = ex_turn_obs
    \<and> (\<exists>A'. agent_iter user_loop (0, ex_turn_env) A = Inr A' \<and> ex_running (Suc k) A')"
proof -
  obtain S s c q where A: "A = (S, [Go s])" and inv: "agent_inv user_loop 8 ex_cfg_run A" and rings: "rings_ok s" and cfg: "mg_cfg S = ex_cfg_loaded"
    and flags: "agents_should_load S" "agents_should_measure S"
    and c: "connections s = [c]" "tc_pending c = 0" "tc_buffer_idx c = 0" "\<not> tc_closed c"
    and next_tx: "next_tx s = int k * 10 ^ 6" and q: "conn_tx s = [q]" "unat (pq_head q) = k"
    using assms(1) unfolding ex_running_def by blast
  let ?t = "load_view 0 S s" and ?e = ex_turn_send and ?ev = ex_event
  have "thread_inv user_loop 8 ex_cfg_run s" using inv by (simp add: agent_inv_def A)
  then have "thread_inv user_loop 8 ex_cfg_run ?t" by (simp add: thread_inv_def)
  then have t: "thread_ok 8 ?t" "rings_ok ?t" "threads_conns ex_cfg_run ?t"
    using rings by (simp_all add: thread_inv_def rings_ok_def load_view_fields)
  have view: "connections ?t = [c]" "conn_tx ?t = [q]" "next_tx ?t = int k * 10 ^ 6" by (simp_all add: load_view_def c q next_tx)
  have young: "rings_young ?t" using assms(2) by (simp add: rings_young_def view q)
  have wf_q: "complete_wf q" "in_flight q = 0" using t(2) c by (simp_all add: rings_ok_def view)
  then have empty: "unread_times q = []" using length_unread [OF wf_q(1)] by simp
  let ?p = "push_complete_tx_timestamp True (Timespec 5 10) (q, thr_tx ?t)"
  define s1 where "s1 = sent_on (?t\<lparr>conn_tx := [fst ?p], thr_tx := snd ?p\<rparr>) 0 ?e (Arg_long 1) (10 ^ 6)"
  have "has_room q" using wf_q(2) assms(2) q(2) by (simp add: has_room_def MAX_PENDING_REQS_def)
  then have times: "unread_times (fst ?p) = [Timespec 5 10]" using unread_times_push [OF wf_q(1)] empty by simp
  have "pq_head (fst ?p) = pq_head q + 1" by (simp add: push_complete_tx_timestamp_def Let_def)
  moreover have "unat (pq_head q + 1) = Suc k" using assms(2) q(2) unat_Suc_u32 [of "pq_head q"] by simp
  ultimately have head: "unat (pq_head (fst ?p)) = Suc k" by simp
  have s1: "thread_ok 8 s1" "rings_ok s1"
    using sent_refines [OF t(1,2) young, of 0 True "Timespec 5 10" ?e "Arg_long 1" "10 ^ 6"] c
    by (simp_all add: Let_def view MAX_PENDING_REQS_def s1_def)
  have fields: "connections s1 = [c\<lparr>tc_pending := 1\<rparr>]" "conn_tx s1 = [fst ?p]" "next_tx s1 = int (Suc k) * 10 ^ 6"
    by (simp_all add: s1_def sent_on_def view c)
  have ev: "ev_idx ?ev = 0" "ev_in ?ev" "ev_ret ?ev = 8" "length (ev_data ?ev) = 8" "ev_measuring ?ev" "ev_rnd ?ev = Fin 0"
    "ev_time ?ev = Timespec 5 40" "ev_block ?ev = False"
    by (simp_all add: ex_event_def)
  have arrived: "arrived (connections s1 ! ev_idx ?ev) ?ev = 8" "arrived (c\<lparr>tc_pending := 1\<rparr>) ?ev = 8"
    by (simp_all add: arrived_def fields ev c)
  have serve: "ev_idx ?ev < length (connections s1)" "serves 8 (connections s1 ! ev_idx ?ev) ?ev"
    using arrived by (simp_all add: serves_def ev fields MAX_PAYLOAD_def)
  have matched: "matched_time 8 s1 ?ev = Timespec 5 10" by (simp add: matched_time_def arrived fields ev times)
  then have timely: "timely 8 s1 ?ev" by (simp add: timely_def ev timespec_ok_def less_eq_timespec_def timespec_ns_def)
  have wf: "lat_wf (word_of_int (per_thread_samples (mg_stats S))) (thr_stats s1)"
    using inv_lat_wf [OF inv [unfolded A] flags(2), of 0]
    by (simp add: s1_def sent_on_def load_view_def element_def add_throughput_tx_sample_def lat_wf_def ex_cfg_run_def ex_cfg_def)
  have okay: "user_event_okay 8 (mg_stats S) s1 ?ev"
    using serve timely wf arrived by (simp add: user_event_okay_def ev)
  obtain s2 c' q' r where run: "user_event ex_cfg_loaded (mg_stats S) ?ev s1 = Inr (Go s2)" and rings2: "rings_ok s2"
    and c': "connections s2 = (connections s1)[ev_idx ?ev := c']" "received_ok 8 (connections s1 ! ev_idx ?ev) ?ev c' r"
    and q': "conn_tx s2 = (conn_tx s1)[ev_idx ?ev := q']" "pq_head q' = pq_head (conn_tx s1 ! ev_idx ?ev)"
      "next_tx s2 = next_tx s1"
    using user_event_serves [OF ex_loaded_ready(1) s1 serve, of "mg_stats S"] timely wf arrived by auto
  have pick: "pick_conn ex_cfg_loaded (se_rands ?e) (connections ?t) = Inr (Some 0)" "pick_conn ex_cfg_loaded (se_rands ?e) [c] = Inr (Some 0)"
    using ex_pick [OF c(2,4), of SYMMETRIC_AGENT] by (simp_all add: ex_same view)
  have se: "se_now ?e = 10 ^ 12" "se_ret ?e = 8" "se_block ?e = False" "se_measuring ?e = True" "se_time ?e = Timespec 5 10"
    by (simp_all add: ex_turn_send_def)
  have due: "next_tx ?t \<le> se_now ?e" using assms(2) by (simp add: view se)
  have sent: "one_send User_stamp ex_cfg_loaded [?e] ?t = Inr (Go s1)"
    using due ex_turn_request ex_request_size se
    by (simp add: one_send_def try_send_def pick send_on_def Let_def s1_def sent_on_def case_prod_unfold view)
  have obeys: "turn_obeys user_loop 8 (0, ex_turn_env) A"
    using young sent okay serve(1) ex_turn_request ex_request_size se flags
    by (simp add: A turn_obeys.simps iter_obeys_def cfg ex_turn_env_def sees_flags_def same_flag_def ev run send_ok_def)
  have obs: "turn_obs user_loop 8 (0, ex_turn_env) A = ex_turn_obs"
    using sent arrived due
    by (simp add: A turn_obs.simps iter_obs_def cfg ex_turn_env_def sent_obs_def pick se run event_obs_def ev ex_turn_obs_def)
  let ?A' = "(put 0 (stats_view s2) S, [Go s2])"
  have iter: "agent_iter user_loop (0, ex_turn_env) A = Inr ?A'"
    using sent by (simp add: A agent_iter.simps cfg user_iter_def ex_turn_env_def then_events_def run)
  have "app_ready ex_cfg_run 8" using ex_loaded_ready(2) by (simp add: loop_ready_def)
  moreover have "related user_rel [Go s] [outstanding s]" using rings by (simp add: related_user thread_queues_def)
  ultimately obtain A' where "agent_iter user_loop (0, ex_turn_env) A = Inr A'" "agent_inv user_loop 8 ex_cfg_run A'"
    using user_agent.agent_iter_refines [OF inv [unfolded A] _ _ obeys [unfolded A]] A by blast
  then have "agent_inv user_loop 8 ex_cfg_run ?A'" using iter by simp
  moreover have "tc_pending c' = 0" "tc_buffer_idx c' = 0" "\<not> tc_closed c'"
    using c'(2) arrived c(4) by (simp_all add: received_ok_def fields ev unat_eq_0)
  ultimately have "ex_running (Suc k) ?A'"
    using c'(1) q' head flags cfg rings2 by (auto simp: ex_running_def fields ev put_def)
  with obeys obs iter show ?thesis by blast
qed

lemma ex_turns:
  "ex_running k A \<Longrightarrow> k + n \<le> 1000 \<Longrightarrow>
   turns_obey user_loop 8 (replicate n (0, ex_turn_env)) A \<and> turns_obs user_loop 8 (replicate n (0, ex_turn_env)) A = replicate n (0, ex_turn_obs)"
proof (induction n arbitrary: k A)
  case (Suc n)
  from ex_turn [OF Suc.prems(1)] Suc.prems(2) obtain A' where "turn_obeys user_loop 8 (0, ex_turn_env) A"
    "turn_obs user_loop 8 (0, ex_turn_env) A = ex_turn_obs" "agent_iter user_loop (0, ex_turn_env) A = Inr A'" "ex_running (Suc k) A'" by auto
  with Suc.IH [of "Suc k" A'] Suc.prems(2) show ?case by simp
qed simp

lemma ex_clients_run:
  "clients_run client_run (replicate n (0, ex_turn_obs)) [[[]]] = Some ([[[]]], replicate n (0, (Fin 0, 30)))"
  by (induction n) (simp_all add: ex_turn_obs_def MAX_OUTSTANDING_def timespec_ns_def)

lemma ex_kept:
  "kept (Fin 1) (map snd (replicate n (0, (Fin 0, 30)))) = replicate n 30"
  "length (kept_of (Fin 1) i (replicate n (0, (Fin 0, 30)))) \<le> n"
  by (induction n) (simp_all add: kept_def kept_of_def)

lemma ex_agent_started:
  "\<exists>S s S1 out. agent_reach user_loop (\<lambda>_. []) 8 ex_cfg_run (S, [Go s]) \<and> mg_cfg S = ex_cfg_loaded
     \<and> manager_message (\<lambda>_. []) (ex_msg START_MEASURE 1000 7) S = Inr (Continue, out, S1)
     \<and> ex_running 0 (S1, [Go s]) \<and> thread_queues (Go s) = [[]]"
proof -
  let ?s = ex_opened_thread
  obtain S S1 out where reach: "agent_reach user_loop (\<lambda>_. []) 8 ex_cfg_run (S, [Go ?s])" and S: "mg_cfg S = ex_cfg_loaded"
      "manager_message (\<lambda>_. []) (ex_msg START_MEASURE 1000 7) S = Inr (Continue, out, S1)"
    and S1: "mg_cfg S1 = ex_cfg_loaded" "agents_should_load S1" "agents_should_measure S1" "per_thread_samples (mg_stats S1) = 1010"
    using ex_loop_started [of user_loop SYMMETRIC_AGENT ?s] ex_opened [of SYMMETRIC_AGENT] unfolding ex_same by auto
  have s: "connections ?s = [zero_connection]" "conn_tx ?s = [zero_pending]" "next_tx ?s = 0" by (simp_all add: ex_opened_thread_def)
  have "agent_inv user_loop 8 ex_cfg_run (S1, [Go ?s])"
    using message_inv [OF user_reach_inv(1) [OF ex_loaded_ready(2) reach] S(2)] S1(4) by simp
  moreover have "rings_ok ?s" using user_reach_inv(2) [OF ex_loaded_ready(2) reach] by (simp add: related_user)
  ultimately have "ex_running 0 (S1, [Go ?s])"
    using S1 by (simp add: ex_running_def s zero_connection_def zero_pending_def)
  moreover have "thread_queues (Go ?s) = [[]]"
    by (simp add: thread_queues_def outstanding_def unread_times_def s zero_pending_def)
  ultimately show ?thesis using reach S by blast
qed

theorem report_describes_response_times_witness:
  "\<exists>S2 out S3. manager_message (\<lambda>_. []) (ex_msg REPORT_REQ 1 12) S2 = Inr (Continue, out, S3)
     \<and> parse_u64s 17 (drop 12 out) ! 6 = 30"
proof -
  let ?d = "[0, 0, 0, 0, 0, 0, 89, 64] :: byte list" and ?turns = "replicate 800 (0, ex_turn_env)"
  obtain S s S1 out where S: "agent_reach user_loop (\<lambda>_. []) 8 ex_cfg_run (S, [Go s])" "mg_cfg S = ex_cfg_loaded"
      "manager_message (\<lambda>_. []) (ex_msg START_MEASURE 1000 7) S = Inr (Continue, out, S1)"
    and s: "ex_running 0 (S1, [Go s])" "thread_queues (Go s) = [[]]" using ex_agent_started by blast
  have rate: "double_of_bytes ?d / Fin 100 = Fin 1" by (simp add: double_examples)
  have obs: "clients_run client_run (turns_obs user_loop 8 ?turns (S1, [Go s])) (map thread_queues [Go s])
      = Some ([[[]]], replicate 800 (0, (Fin 0, 30)))"
    using ex_turns [OF s(1), of 800] ex_clients_run [of 800] s(2) by simp
  have obey: "turns_obey user_loop 8 ?turns (S1, [Go s])" using ex_turns [OF s(1), of 800] by simp
  have req: "requested_per_thread 1000 (mg_cfg S) = 1010" using ex_requested [of SYMMETRIC_AGENT] by (simp only: S(2) ex_same)
  have fit: "\<forall>i. length (kept_of (Fin 1) i (replicate 800 (0, (Fin 0, 30)))) \<le> nat 1010"
    by (intro allI order_trans [OF ex_kept(2)]) simp
  have sorted: "sort (replicate 800 (30 :: u64)) = replicate 800 30" by (rule sorted_sort_id) simp
  have "delivers (ex_msg REPORT_REQ 1 12) REPORT_REQ REPORT_LATENCY" by (simp add: REPORT_LATENCY_def)
  from report_describes_response_times [OF ex_loaded_ready(2) S(1) delivers_ex_msg ex_msg_fields(1) _ S(3) obey this]
  obtain S2 where "\<forall>xs. xs = kept (Fin 1) (map snd (replicate 800 (0, (Fin 0, 30)))) \<and> 726 \<le> length xs
       \<and> length xs \<le> AGG_SAMPLE_SIZE \<and> close_values xs
       \<and> (\<forall>i. length (kept_of (Fin 1) i (replicate 800 (0, (Fin 0, 30)))) \<le> nat 1010) \<longrightarrow>
     (\<exists>out S3. manager_message (\<lambda>_. []) (ex_msg REPORT_REQ 1 12) S2 = Inr (Continue, out, S3)
        \<and> tells_latencies (sort xs) (parse_u64s 17 (drop 12 out)))"
    unfolding rate req obs by fastforce
  from this [THEN spec, of "replicate 800 30"] show ?thesis
    using fit unfolding ex_kept(1) sorted
    by (auto simp: AGG_SAMPLE_SIZE_def close_values_def tells_latencies_def reports_percentile_def Let_def)
qed

end
