(* ===== verification/Nic_Agent_Run.thy ===== *)
theory Nic_Agent_Run
  imports Nic_Client Agent_Run
begin

text \<open>
  The agent with hardware timestamps as a whole: its loop fulfils the contract of \<open>Agent_Loop\<close> with the
  client of \<open>Card_Spec\<close>, so the numbers the coordinator receives describe times on the wire.
\<close>

subsection \<open>The loop of the agent with hardware timestamps\<close>

definition nic_loop :: "(iter_env, card_event) agent_loop" where
  "nic_loop = \<lparr>al_type = SYMMETRIC_NIC_TIMESTAMP_AGENT, al_opened = opened, al_ok = thread_ok, al_iter = nic_iter, al_flags = sees_flags, al_obeys = nic_iter_obeys, al_obs = nic_iter_obs\<rparr>"

lemma nic_loop_simps [simp]:
  "al_type nic_loop = SYMMETRIC_NIC_TIMESTAMP_AGENT" "al_iter nic_loop = nic_iter" "al_obeys nic_loop = nic_iter_obeys"
  "al_obs nic_loop = nic_iter_obs" "al_opened nic_loop = opened" "al_ok nic_loop = thread_ok" "al_flags nic_loop = sees_flags" "stamps_load nic_loop"
  by (simp_all add: nic_loop_def stamps_load_def)

lemma nic_opened:
  assumes "loop_ready nic_loop m cfg" and "opened cfg t"
  shows "\<exists>n. nic_represents (step_state t) (replicate n new_card_conn)"
proof -
  obtain s s' dests now where s': "throughput_open_connections cfg True (\<lambda>_. Setup_ok) s = Inr (0, s', dests)"
    and t: "t = Go (s'\<lparr>next_tx := now\<rparr>)" using assms(2) unfolding opened_def by blast
  have "cfg_atype cfg \<in> {SYMMETRIC_NIC_TIMESTAMP_AGENT, SYMMETRIC_AGENT}" using assms(1) by (simp add: loop_ready_def)
  from open_connections_fresh [OF s' this] obtain n where "connections s' = replicate n zero_connection"
    "conn_tx s' = replicate n zero_pending" by blast
  then have "nic_represents (step_state t) (replicate n new_card_conn)"
    using represents_new by (simp add: nic_represents_def t unanswered_def zero_connection_def) (simp add: new_card_conn_def)
  then show ?thesis by blast
qed

interpretation nic_agent: measuring_loop nic_loop card_client card_sent nic_represents
proof (unfold_locales, goal_cases)
  case (1 m cfg t)
  then have t: "opened cfg t" by simp
  show ?case using opened_inv [OF 1(1) nic_loop_simps(6) t] nic_opened [OF 1(1) t] by blast
next
  case 2
  then show ?case by simp
next
  case (3 c)
  then show ?case by (simp add: card_client_def)
next
  case (4 c)
  then show ?case by (simp add: card_sent_def)
next
  case (5 s' s c)
  then show ?case by (simp add: nic_represents_def)
next
  case (6 cfg m s c st e l k)
  obtain r c' xs ts where r: "nic_iter cfg st e s = Inr r" "thread_ok m (step_state r)" "nic_represents (step_state r) c'"
    and obs: "card_run (nic_iter_obs m cfg st e s) c = Some (c', xs, ts)"
    and rec: "same_flag True e \<longrightarrow>
      records_measured st k (kept (sampling_rate st) xs) ts (stats_view s) (stats_view (step_state r))"
    using nic_iter_refines [OF 6(1) _ 6(4,3), of st e k] 6(2,5) by auto
  have "length (connections (step_state r)) = length (connections s)"
    using card_run_length [OF obs] r(3) 6(4) by (simp add: nic_represents_def)
  then have "threads_conns cfg (step_state r)" using 6(3) by (auto simp: threads_conns_def)
  then show ?case using r obs rec by (auto simp: card_client_def card_sent_def sees_flags_def)
next
  case (7 cfg st e s r l b k)
  then show ?case using nic_iter_records [of cfg st e s r b SYMMETRIC_NIC_TIMESTAMP_AGENT k] by (simp add: sees_flags_def)
qed

subsection \<open>Properties\<close>

text \<open>
  C2. The numbers the coordinator receives from an agent with hardware timestamps describe times on the
  wire. In any state such an agent can reach, its rings represent a history of requests, reports and
  responses for every connection. Whatever that history, and whatever the interleaving of its threads
  after \<open>START_MEASURE\<close>: the iterations never fail, and what they send, read and receive is a run of one
  abstract client per thread, in which every response is matched with the request it answers. If the
  load is steady, the latency report that follows holds the average and the percentiles of exactly the
  sampled response times of that run, and it calls the load correct only if the gaps between the
  run's transmissions are distributed as asked for.
\<close>

theorem nic_report_describes_wire_times:
  assumes "loop_ready nic_loop m cfg" and "agent_reach nic_loop enc m cfg (S, ts)"
    and "delivers env1 START_MEASURE n" and "me_sampling env1 = (8, d)" and "length d = 8"
    and "manager_message enc env1 S = Inr (Continue, ack, S1)"
    and "turns_obey nic_loop m turns (S1, ts)" and "delivers env2 REPORT_REQ REPORT_LATENCY"
  shows "(\<exists>cs. related nic_represents ts cs) \<and> (\<forall>cs. related nic_represents ts cs \<longrightarrow>
    (\<exists>S2 ts2 cs2 ys. agent_iters nic_loop turns (S1, ts) = Inr (S2, ts2) \<and> related nic_represents ts2 cs2
    \<and> clients_run card_client (turns_obs nic_loop m turns (S1, ts)) cs = Some (cs2, ys)
    \<and> (\<forall>xs zs ref. xs = kept (double_of_bytes d / Fin 100) (map snd ys) \<and> 726 \<le> length xs \<and> length xs \<le> AGG_SAMPLE_SIZE
         \<and> close_values xs
         \<and> (\<forall>i. length (kept_of (double_of_bytes d / Fin 100) i ys) \<le> nat (requested_per_thread n (mg_cfg S)))
         \<and> zs = clients_sent card_client card_sent (turns_obs nic_loop m turns (S1, ts)) cs \<and> steady_load zs
         \<and> ref = reference_ia (mg_stats S1) \<longrightarrow>
       (\<exists>out S3. manager_message enc env2 S2 = Inr (Continue, out, S3) \<and> tells_latencies (sort xs) (parse_u64s 17 (drop 12 out))
          \<and> (ref \<noteq> [] \<and> close_values ref \<and> bytes_u32 (drop (length out - 4) out) = 1 \<longrightarrow>
               ks_statistic ref (map word_of_int (gaps (sort (map snd zs)))) < ia_threshold (length zs - 1))))))"
proof (intro conjI allI impI)
  show "\<exists>cs. related nic_represents ts cs" using nic_agent.agent_reach_inv [OF assms(1,2)] by simp
qed (use nic_agent.report_describes [OF assms(1,2) _ _ assms(3-8)] in simp)

subsection \<open>A measurement of 800 requests\<close>

text \<open>
  Again one thread with one connection. Every request is 8 bytes, the card reports its transmission only when
  the response is matched, and the response comes 999999995 ns after it.
\<close>

definition ex_cfg_nic :: agent_config where
  "ex_cfg_nic = ex_cfg_run\<lparr>cfg_atype := SYMMETRIC_NIC_TIMESTAMP_AGENT\<rparr>"

definition ex_cfg_nic_loaded :: agent_config where
  "ex_cfg_nic_loaded = ex_cfg_loaded\<lparr>cfg_atype := SYMMETRIC_NIC_TIMESTAMP_AGENT\<rparr>"

definition ex_reply :: "nat \<Rightarrow> epoll_event" where
  "ex_reply k = ex_nic_event\<lparr>ev_errqueue := nic_report (Timespec 5 10) (word_of_nat (8 * k + 7))\<rparr>"

definition ex_nic_env :: "nat \<Rightarrow> iter_env" where
  "ex_nic_env k = \<lparr>ie_load = True, ie_idle_now = 0, ie_sends = [ex_turn_send], ie_events = [ex_reply k]\<rparr>"

definition ex_nic_obs :: "nat \<Rightarrow> card_event list" where
  "ex_nic_obs k = [Requested 0 8, Reported 0 (8 * k + 8) (Timespec 5 10), Responded 0 1 (Timespec 6 5) (Fin 0)]"

text \<open>The connection after \<open>k\<close> requests, all of them reported and answered.\<close>

definition all_done :: "nat \<Rightarrow> card_conn \<Rightarrow> bool" where
  "all_done k d \<longleftrightarrow> length (cc_requests d) = k \<and> cc_answered d = k \<and> last_offset d = 8 * k
     \<and> (\<forall>r \<in> set (cc_requests d). snd r \<noteq> None)"

definition after_turn :: "nat \<Rightarrow> card_conn \<Rightarrow> card_conn" where
  "after_turn k d = add_answers 1 (add_report (8 * k + 8) (Timespec 5 10) (add_request 8 d))"

lemma all_done_turn:
  assumes "all_done k d"
  shows "all_done (Suc k) (after_turn k d)"
    and "card_run (ex_nic_obs k) [d] = Some ([after_turn k d], [(Fin 0, 999999995)], [Timespec 5 10])"
proof -
  have old: "filter (is_covered (8 * k + 8)) (cc_requests d) = []" "map (\<lambda>r. if is_covered (8 * k + 8) r then (fst r, Some (Timespec 5 10)) else r) (cc_requests d) = cc_requests d"
  proof -
    have "\<not> is_covered (8 * k + 8) r" if "r \<in> set (cc_requests d)" for r
      using assms that by (auto simp: all_done_def is_covered_def)
    then show "filter (is_covered (8 * k + 8)) (cc_requests d) = []"
      "map (\<lambda>r. if is_covered (8 * k + 8) r then (fst r, Some (Timespec 5 10)) else r) (cc_requests d) = cc_requests d"
      by (simp_all add: map_idI)
  qed
  have new: "cc_requests (add_report (8 * k + 8) (Timespec 5 10) (add_request 8 d)) = cc_requests d @ [(8 * k + 8, Some (Timespec 5 10))]"
    using assms old(2) by (simp add: add_report_def add_request_def all_done_def is_covered_def)
  then show "all_done (Suc k) (after_turn k d)" using assms by (auto simp: all_done_def after_turn_def)
  have "answered_time 1 (add_report (8 * k + 8) (Timespec 5 10) (add_request 8 d)) = Some (Timespec 5 10)"
    using assms by (simp add: answered_time_def new all_done_def nth_append)
  moreover have "reported_times (8 * k + 8) (Timespec 5 10) (add_request 8 d) = [Timespec 5 10]"
    using assms old(1) by (simp add: reported_times_def add_request_def all_done_def is_covered_def)
  moreover have "unanswered d = 0" "unanswered (add_report (8 * k + 8) (Timespec 5 10) (add_request 8 d)) = 1"
    using assms by (simp_all add: unanswered_def all_done_def)
  ultimately show "card_run (ex_nic_obs k) [d] = Some ([after_turn k d], [(Fin 0, 999999995)], [Timespec 5 10])"
    by (simp add: ex_nic_obs_def after_turn_def MAX_OUTSTANDING_def timespec_ns_def)
qed

definition ex_nic_running :: "nat \<Rightarrow> card_conn \<Rightarrow> agent \<Rightarrow> bool" where
  "ex_nic_running k d A \<longleftrightarrow> (\<exists>S s c. A = (S, [Go s]) \<and> agent_inv nic_loop 8 ex_cfg_nic A \<and> nic_represents s [d] \<and> all_done k d
     \<and> mg_cfg S = ex_cfg_nic_loaded \<and> agents_should_load S \<and> agents_should_measure S \<and> connections s = [c]
     \<and> tc_buffer_idx c = 0 \<and> \<not> tc_closed c \<and> next_tx s = int k * 10 ^ 6 \<and> avail_reqs s = 16)"

lemma ex_nic_ready: "app_ready ex_cfg_nic_loaded 8" "loop_ready nic_loop 8 ex_cfg_nic"
  using ex_configs_ready(1) ex_configs_ready(2) [of nic_loop SYMMETRIC_NIC_TIMESTAMP_AGENT]
  by (simp_all add: ex_cfg_nic_def ex_cfg_nic_loaded_def)

lemmas ex_nic_request = ex_request [where a = SYMMETRIC_NIC_TIMESTAMP_AGENT, folded ex_cfg_nic_loaded_def]

text \<open>The requests reported so far are the ones below the tail.\<close>

lemma tail_is_first_unreported:
  assumes "represents q d" and "n \<le> length (cc_requests d)" and "\<And>j. j < n \<Longrightarrow> snd (cc_requests d ! j) \<noteq> None"
    and "n < length (cc_requests d) \<Longrightarrow> snd (cc_requests d ! n) = None"
  shows "unat (pq_tail q) = n"
proof -
  have cond: "snd (cc_requests d ! j) = None \<longleftrightarrow> unat (pq_tail q) \<le> j" if "j < length (cc_requests d)" for j
    using assms(1) that by (simp add: represents_def counters_match_def)
  have "unat (pq_tail q) \<le> length (cc_requests d)" using assms(1) by (simp add: represents_def counters_match_def)
  then have "unat (pq_tail q) \<le> n" using cond [of n] assms(2,4) by (cases "n < length (cc_requests d)") simp_all
  moreover have "\<not> unat (pq_tail q) \<le> j" if "j < n" for j using cond [of j] assms(2,3) that by simp
  ultimately show ?thesis by (meson le_refl nat_less_le)
qed

lemma all_done_ring:
  assumes "represents q d" and "all_done k d"
  shows "unat (pq_head q) = k" "unat (pq_tail q) = k" "unat (tx_byte_counter q) = 8 * k" "unanswered d = 0"
proof -
  show "unat (pq_tail q) = k" using assms(2) by (intro tail_is_first_unreported [OF assms(1)]) (simp_all add: all_done_def)
qed (use assms in \<open>simp_all add: represents_def counters_match_def all_done_def unanswered_def\<close>)

lemma ex_nic_send:
  assumes "thread_ok 8 t" and "threads_conns ex_cfg_nic_loaded t" and "nic_represents t [d]" and "all_done k d" and "k < 1000"
    and "connections t = [c]" and "\<not> tc_closed c" and "next_tx t = int k * 10 ^ 6"
  shows "\<exists>s1. try_send Nic_stamp ex_cfg_nic_loaded ex_turn_send t = Inr (True, Go s1)
    \<and> nic_send_okay ex_cfg_nic_loaded ex_turn_send t \<and> nic_send_obs ex_cfg_nic_loaded ex_turn_send t = [Requested 0 8]
    \<and> thread_ok 8 s1 \<and> nic_represents s1 [add_request 8 d] \<and> connections s1 = [c\<lparr>tc_pending := 1\<rparr>]
    \<and> next_tx s1 = int (Suc k) * 10 ^ 6 \<and> avail_reqs s1 = avail_reqs t - 1 \<and> lat_wf n (thr_stats s1) = lat_wf n (thr_stats t)"
proof -
  let ?e = ex_turn_send
  have se: "se_now ?e = 10 ^ 12" "se_ret ?e = 8" "se_block ?e = False" by (simp_all add: ex_turn_send_def)
  have rep: "represents (conn_tx t ! 0) d" and pend: "unanswered d = unat (tc_pending c)" and len: "length (conn_tx t) = 1"
    using assms(3,6) by (simp_all add: nic_represents_def)
  note ring = all_done_ring [OF rep assms(4)]
  have idle: "tc_pending c = 0" using ring(4) pend by (simp add: unat_eq_0)
  have room: "ring_room (conn_tx t ! 0) 8" using ring assms(5) by (simp add: ring_room_def MAX_PENDING_REQS_def)
  have pick: "pick_conn ex_cfg_nic_loaded (se_rands ?e) [c] = Inr (Some 0)"
    using ex_pick [OF idle assms(7)] by (simp add: ex_cfg_nic_loaded_def)
  have okay: "nic_send_okay ex_cfg_nic_loaded ?e t"
    using room ex_nic_request ex_request_size se pick assms(6) by (simp add: nic_send_okay_def send_ok_def)
  let ?s1 = "sent_on (t\<lparr>conn_tx := (conn_tx t)[0 := add_pending_tx_timestamp (conn_tx t ! 0) 8]\<rparr>) 0 ?e (Arg_long 1) (10 ^ 6)"
  have run: "try_send Nic_stamp ex_cfg_nic_loaded ?e t = Inr (True, Go ?s1)"
    using ex_nic_request ex_request_size se len assms(6)
    by (simp add: try_send_def pick send_on_def Let_def sent_on_def)
  have obs: "nic_send_obs ex_cfg_nic_loaded ?e t = [Requested 0 8]" using run pick se assms(6) by (simp add: nic_send_obs_def)
  obtain cs1 where "thread_ok 8 ?s1" "nic_represents ?s1 cs1" "card_run [Requested 0 8] [d] = Some (cs1, [], [])"
    using nic_send_refines [OF assms(1,3,2) okay] run obs by auto
  moreover from this have "cs1 = [add_request 8 d]" by (auto split: if_splits)
  moreover have "lat_wf n (thr_stats ?s1) = lat_wf n (thr_stats t)"
    by (simp add: sent_on_def add_throughput_tx_sample_def lat_wf_def)
  ultimately show ?thesis
    using run okay obs idle assms(6,8) by (intro exI [of _ ?s1] conjI) (simp_all add: sent_on_def)
qed

lemma ex_nic_reply:
  assumes "thread_ok 8 s" and "nic_represents s [add_request 8 d]" and "all_done k d" and "k < 1000"
    and "connections s = [c]" and "tc_buffer_idx c = 0" and "\<not> tc_closed c" and "avail_reqs s = 15"
    and "lat_wf (word_of_int (per_thread_samples st)) (thr_stats s)"
  shows "\<exists>s2 c'. nic_event ex_cfg_nic_loaded st (ex_reply k) s = Inr (Go s2) \<and> nic_event_okay 8 st s (ex_reply k)
    \<and> nic_event_obs 8 s (ex_reply k) = [Reported 0 (8 * k + 8) (Timespec 5 10), Responded 0 1 (Timespec 6 5) (Fin 0)]
    \<and> connections s2 = [c'] \<and> tc_buffer_idx c' = 0 \<and> \<not> tc_closed c' \<and> next_tx s2 = next_tx s \<and> avail_reqs s2 = 16"
proof -
  let ?ev = "ex_reply k" and ?q = "conn_tx s ! 0" and ?d = "add_request 8 d"
  have ev: "ev_idx ?ev = 0" "ev_in ?ev" "ev_ret ?ev = 8" "length (ev_data ?ev) = 8" "ev_measuring ?ev" "ev_rnd ?ev = Fin 0"
    "ev_cmsgs ?ev = [Scm_timestamping [zero_timespec, zero_timespec, Timespec 6 5]]"
    "ev_errqueue ?ev = nic_report (Timespec 5 10) (word_of_nat (8 * k + 7))"
    by (simp_all add: ex_reply_def ex_nic_event_def ex_event_def)
  have rep: "represents ?q ?d" and pend: "unanswered ?d = unat (tc_pending c)" using assms(2,5) by (simp_all add: nic_represents_def)
  have d: "length (cc_requests d) = k" "cc_answered d = k" "last_offset d = 8 * k" using assms(3) by (simp_all add: all_done_def)
  have one: "unat (tc_pending c) = 1" using pend d by (simp add: unanswered_def)
  have arrived: "arrived c ?ev = 8" using assms(6) by (simp add: arrived_def ev)
  have serve: "serves 8 c ?ev" using arrived one by (simp add: serves_def ev MAX_PAYLOAD_def)
  have offset: "unat (word_of_nat (8 * k + 7) :: u32) = 8 * k + 7" by (rule unat_of_nat_u32) (use assms(4) in simp)
  have new: "cc_requests ?d ! k = (8 * k + 8, None)" using d by (simp add: add_request_def nth_append)
  have entry: "unat (ti_optid (entry ?q k)) = 8 * k + 8" and head: "unat (pq_head ?q) = Suc k" and last: "last_answered 1 ?q = k"
    using rep d new by (auto simp: represents_def slots_hold_def counters_match_def last_answered_def)
  have "snd (cc_requests ?d ! j) \<noteq> None" if "j < k" for j
    using assms(3) that d(1) by (simp add: all_done_def add_request_def nth_append)
  then have tail: "unat (pq_tail ?q) = k"
    using new d(1) by (intro tail_is_first_unreported [OF rep]) (simp_all add: add_request_def)
  have "8 * k + 8 \<noteq> (2 ^ 31 :: nat)" using assms(4) by simp
  then have report: "report_okay ?q (ev_errqueue ?ev)"
    unfolding report_okay_def using offset entry tail head assms(4)
    by (intro disjI2 exI [of _ "Timespec 5 10"] exI [of _ "word_of_nat (8 * k + 7)"]) (simp add: ev word_less_nat_alt)
  have read: "card_report (ev_errqueue ?ev) = Some (8 * k + 8, Timespec 5 10)"
    unfolding ev report_simps(5) offset by simp
  have transmit: "transmit_of 1 ?q (card_report (ev_errqueue ?ev)) = Some (Timespec 5 10)"
    using entry last tail unfolding transmit_of_def read by simp
  have data: "nic_data_okay 8 st s ?ev"
    using serve arrived report transmit assms(5,9)
    by (simp add: nic_data_okay_def Let_def ev(1,7) stamped_by_card_def wire_time_def timespec_ns_def)
  then have okay: "nic_event_okay 8 st s ?ev" by (simp add: nic_event_okay_def ev assms(5))
  have idx: "ev_idx ?ev < length (connections s)" by (simp add: ev assms(5))
  obtain s2 c' p where s2: "nic_event ex_cfg_nic_loaded st ?ev s = Inr (Go s2)" and c': "received_ok 8 c ?ev c' p"
    "connections s2 = [c']" "next_tx s2 = next_tx s" "avail_reqs s2 = avail_reqs (after_receive s 0 c' p)"
    using nic_data_refines [OF ex_nic_ready(1) assms(1,2) idx ev(2) data, of 0] that by (auto simp: ev assms(5))
  have got: "unat (br_reqs p) = 1" "unat (tc_buffer_idx c') = 0" "\<not> tc_closed c'"
    using c'(1) arrived assms(7) by (simp_all add: received_ok_def)
  then have "br_reqs p = 1" by (metis unat_1 unsigned_word_eqI)
  then have "avail_reqs s2 = 16" using c'(4) assms(8) by (simp add: after_receive_def u64_to_c_int_def)
  moreover have "nic_event_obs 8 s ?ev = [Reported 0 (8 * k + 8) (Timespec 5 10), Responded 0 1 (Timespec 6 5) (Fin 0)]"
    using arrived last tail read by (simp add: nic_event_obs_def Let_def ev(1-3,6,7) assms(5) report_read_def report_obs_def)
  moreover have "tc_buffer_idx c' = 0" using got(2) by (simp add: unat_eq_0)
  ultimately show ?thesis using s2 okay c' got(3) by (intro exI [of _ s2] exI [of _ c']) simp
qed

lemma ex_nic_turn:
  assumes "ex_nic_running k d A" and "k < 1000"
  shows "turn_obeys nic_loop 8 (0, ex_nic_env k) A \<and> turn_obs nic_loop 8 (0, ex_nic_env k) A = ex_nic_obs k
    \<and> (\<exists>A'. agent_iter nic_loop (0, ex_nic_env k) A = Inr A' \<and> ex_nic_running (Suc k) (after_turn k d) A')"
proof -
  obtain S s c where A: "A = (S, [Go s])" and inv: "agent_inv nic_loop 8 ex_cfg_nic A" and rep: "nic_represents s [d]" and fin: "all_done k d"
    and cfg: "mg_cfg S = ex_cfg_nic_loaded" and flags: "agents_should_load S" "agents_should_measure S" and c: "connections s = [c]"
    "tc_buffer_idx c = 0" "\<not> tc_closed c" and next_tx: "next_tx s = int k * 10 ^ 6" and avail: "avail_reqs s = 16"
    using assms(1) unfolding ex_nic_running_def by blast
  let ?t = "load_view 0 S s" and ?st = "mg_stats S"
  have view: "connections ?t = [c]" "next_tx ?t = int k * 10 ^ 6" "avail_reqs ?t = 16"
    by (simp_all add: load_view_def c next_tx avail)
  have rep_t: "nic_represents ?t [d]" by (rule nic_represents_cong [OF rep]) (simp_all add: load_view_def)
  have "thread_inv nic_loop 8 ex_cfg_nic ?t" using inv by (simp add: agent_inv_def A thread_inv_def)
  then have t: "thread_ok 8 ?t" "threads_conns ex_cfg_nic_loaded ?t"
    by (simp_all add: thread_inv_def threads_conns_def per_thread_conn_def ex_cfg_nic_loaded_def ex_cfg_loaded_def ex_cfg_nic_def)
  obtain s1 where s1: "try_send Nic_stamp ex_cfg_nic_loaded ex_turn_send ?t = Inr (True, Go s1)"
    "nic_send_okay ex_cfg_nic_loaded ex_turn_send ?t" "nic_send_obs ex_cfg_nic_loaded ex_turn_send ?t = [Requested 0 8]"
    "thread_ok 8 s1" "nic_represents s1 [add_request 8 d]" "connections s1 = [c\<lparr>tc_pending := 1\<rparr>]"
    "next_tx s1 = int (Suc k) * 10 ^ 6" "avail_reqs s1 = 15"
    "lat_wf (word_of_int (per_thread_samples ?st)) (thr_stats s1) = lat_wf (word_of_int (per_thread_samples ?st)) (thr_stats ?t)"
    using ex_nic_send [OF t rep_t fin assms(2) view(1) c(3) view(2), of "word_of_int (per_thread_samples ?st)"] view(3) by auto
  have "lat_wf (word_of_int (per_thread_samples ?st)) (all_stats ?st ! 0)"
    using inv_lat_wf [OF inv [unfolded A] flags(2), of 0] by (simp add: ex_cfg_nic_def)
  then have wf: "lat_wf (word_of_int (per_thread_samples ?st)) (thr_stats s1)" using s1(9) by (simp add: load_view_def element_def)
  obtain s2 c' where s2: "nic_event ex_cfg_nic_loaded ?st (ex_reply k) s1 = Inr (Go s2)" "nic_event_okay 8 ?st s1 (ex_reply k)"
    "nic_event_obs 8 s1 (ex_reply k) = [Reported 0 (8 * k + 8) (Timespec 5 10), Responded 0 1 (Timespec 6 5) (Fin 0)]"
    "connections s2 = [c']" "tc_buffer_idx c' = 0" "\<not> tc_closed c'" "next_tx s2 = next_tx s1" "avail_reqs s2 = 16"
    using ex_nic_reply [OF s1(4,5) fin assms(2) s1(6) _ _ s1(8) wf] c by auto
  have due: "next_tx ?t \<le> se_now ex_turn_send" using assms(2) by (simp add: view ex_turn_send_def)
  then have sends: "nic_iter_sends ex_cfg_nic_loaded (ex_nic_env k) ?t = Inr (Go s1)"
    using s1(1) by (simp add: nic_iter_sends_def ex_nic_env_def view(3))
  have measuring: "ev_measuring (ex_reply k)" "se_measuring ex_turn_send"
    by (simp_all add: ex_reply_def ex_nic_event_def ex_event_def ex_turn_send_def)
  have obeys: "turn_obeys nic_loop 8 (0, ex_nic_env k) A"
    using sends s1(1,2) s2(2) flags measuring
    by (simp add: A turn_obeys.simps nic_iter_obeys_def cfg ex_nic_env_def sees_flags_def same_flag_def)
  have obs: "turn_obs nic_loop 8 (0, ex_nic_env k) A = ex_nic_obs k"
    using sends s1(1,3) s2(3) due by (simp add: A turn_obs.simps nic_iter_obs_def cfg ex_nic_env_def view(3) ex_nic_obs_def)
  let ?A' = "(put 0 (stats_view s2) S, [Go s2])"
  have "nic_iter ex_cfg_nic_loaded ?st (ex_nic_env k) ?t = Inr (Go s2)"
    using sends s2(1) by (simp add: nic_iter_def nic_iter_sends_def ex_nic_env_def view(3) then_events_def)
  then have iter: "agent_iter nic_loop (0, ex_nic_env k) A = Inr ?A'" by (simp add: A agent_iter.simps cfg)
  have "app_ready ex_cfg_nic 8" using ex_nic_ready(2) by (simp add: loop_ready_def)
  moreover have "related nic_represents [Go s] [[d]]" using rep by (simp add: related_def)
  ultimately obtain A' ts' cs' xs where A': "agent_iter nic_loop (0, ex_nic_env k) A = Inr (A', ts')" "agent_inv nic_loop 8 ex_cfg_nic (A', ts')"
    "related nic_represents ts' cs'" and run: "clients_run card_client [(0, ex_nic_obs k)] [[d]] = Some (cs', map (Pair 0) xs)"
    using nic_agent.agent_iter_refines [OF inv [unfolded A] _ _ obeys [unfolded A]] obs A by metis
  have "cs' = [[after_turn k d]]" using run all_done_turn(2) [OF fin] by (simp add: card_client_def)
  then have "agent_inv nic_loop 8 ex_cfg_nic ?A'" "nic_represents s2 [after_turn k d]" using A' iter by (auto simp: related_def)
  then have "ex_nic_running (Suc k) (after_turn k d) ?A'"
    using all_done_turn(1) [OF fin] flags cfg s2(4-8) s1(7) by (auto simp: ex_nic_running_def put_def)
  with obeys obs iter show ?thesis by blast
qed

fun ex_nic_envs :: "nat \<Rightarrow> nat \<Rightarrow> (nat \<times> iter_env) list" where
  "ex_nic_envs k 0 = []"
| "ex_nic_envs k (Suc n) = (0, ex_nic_env k) # ex_nic_envs (Suc k) n"

lemma ex_nic_turns:
  "ex_nic_running k d A \<Longrightarrow> k + n \<le> 1000 \<Longrightarrow>
   turns_obey nic_loop 8 (ex_nic_envs k n) A
   \<and> (\<exists>cs. clients_run card_client (turns_obs nic_loop 8 (ex_nic_envs k n) A) [[d]] = Some (cs, replicate n (0, (Fin 0, 999999995))))
   \<and> clients_sent card_client card_sent (turns_obs nic_loop 8 (ex_nic_envs k n) A) [[d]] = replicate n (0, Timespec 5 10)"
proof (induction n arbitrary: k d A)
  case (Suc n)
  from ex_nic_turn [OF Suc.prems(1)] Suc.prems(2) obtain A' where turn: "turn_obeys nic_loop 8 (0, ex_nic_env k) A"
    "turn_obs nic_loop 8 (0, ex_nic_env k) A = ex_nic_obs k" "agent_iter nic_loop (0, ex_nic_env k) A = Inr A'"
    "ex_nic_running (Suc k) (after_turn k d) A'" by auto
  have "all_done k d" using Suc.prems(1) by (auto simp: ex_nic_running_def)
  from all_done_turn(2) [OF this] have "card_client (ex_nic_obs k) [d] = Some ([after_turn k d], [(Fin 0, 999999995)])"
    "card_sent (ex_nic_obs k) [d] = [Timespec 5 10]" by (simp_all add: card_client_def card_sent_def)
  with turn Suc.IH [OF turn(4)] Suc.prems(2) show ?case by auto
qed simp

lemma ex_nic_started:
  "\<exists>S s S1 out. agent_reach nic_loop (\<lambda>_. []) 8 ex_cfg_nic (S, [Go s]) \<and> mg_cfg S = ex_cfg_nic_loaded
     \<and> manager_message (\<lambda>_. []) (ex_msg START_MEASURE 1000 7) S = Inr (Continue, out, S1)
     \<and> ex_nic_running 0 new_card_conn (S1, [Go s]) \<and> related nic_represents [Go s] [[new_card_conn]]"
proof -
  let ?s = ex_opened_thread
  obtain S S1 out where reach: "agent_reach nic_loop (\<lambda>_. []) 8 ex_cfg_nic (S, [Go ?s])" and S: "mg_cfg S = ex_cfg_nic_loaded"
      "manager_message (\<lambda>_. []) (ex_msg START_MEASURE 1000 7) S = Inr (Continue, out, S1)"
    and S1: "mg_cfg S1 = ex_cfg_nic_loaded" "agents_should_load S1" "agents_should_measure S1" "per_thread_samples (mg_stats S1) = 1010"
    using ex_loop_started [of nic_loop SYMMETRIC_NIC_TIMESTAMP_AGENT ?s] ex_opened [of SYMMETRIC_NIC_TIMESTAMP_AGENT]
    unfolding ex_cfg_nic_def [symmetric] ex_cfg_nic_loaded_def [symmetric] by auto
  have s: "avail_reqs ?s = 16" "connections ?s = [zero_connection]" "conn_tx ?s = [zero_pending]" "next_tx ?s = 0"
    by (simp_all add: ex_opened_thread_def)
  have inv: "agent_inv nic_loop 8 ex_cfg_nic (S1, [Go ?s])"
    using message_inv [of nic_loop, OF _ S(2)] nic_agent.agent_reach_inv [OF ex_nic_ready(2) reach] S1(4) by simp
  have rep: "nic_represents ?s [new_card_conn]"
    using represents_new by (simp add: nic_represents_def s unanswered_def zero_connection_def) (simp add: new_card_conn_def)
  have "all_done 0 new_card_conn" by (simp add: all_done_def new_card_conn_def last_offset_def)
  then have "ex_nic_running 0 new_card_conn (S1, [Go ?s])"
    using inv rep S1 by (simp add: ex_nic_running_def s zero_connection_def)
  then show ?thesis using reach S rep by (auto simp: related_def)
qed

lemma ex_steady: "steady_load (replicate 800 (0, Timespec 5 10))"
proof -
  have "sort (replicate 800 (Timespec 5 10)) = replicate 800 (Timespec 5 10)" by (rule sorted_sort_id) simp
  moreover have same: "set (gaps (replicate n t)) \<subseteq> {0}" for n t
  proof (induction n)
    case (Suc n)
    then show ?case by (cases n) simp_all
  qed simp
  moreover have "\<forall>g \<in> set (gaps (replicate 800 (Timespec 5 10))). g < 10 ^ 9" using same [of 800 "Timespec 5 10"] by auto
  moreover have "sent_by i (replicate n (0, t)) = (if i = 0 then replicate n t else [])" for i n and t :: timespec
    by (induction n) (simp_all add: sent_by_def)
  ultimately show ?thesis
    by (auto simp: steady_load_def tx_room_def stats_sizes clock_times_def timespec_ok_def)
qed

theorem nic_report_describes_wire_times_witness:
  "\<exists>S2 out S3. manager_message (\<lambda>_. []) (ex_msg REPORT_REQ 1 12) S2 = Inr (Continue, out, S3)
     \<and> parse_u64s 17 (drop 12 out) ! 6 = 999999995"
proof -
  let ?d = "[0, 0, 0, 0, 0, 0, 89, 64] :: byte list" and ?turns = "ex_nic_envs 0 800" and ?ys = "replicate 800 (0, (Fin 0, 999999995))"
  obtain S s S1 out where S: "agent_reach nic_loop (\<lambda>_. []) 8 ex_cfg_nic (S, [Go s])" "mg_cfg S = ex_cfg_nic_loaded"
      "manager_message (\<lambda>_. []) (ex_msg START_MEASURE 1000 7) S = Inr (Continue, out, S1)"
    and s: "ex_nic_running 0 new_card_conn (S1, [Go s])" "related nic_represents [Go s] [[new_card_conn]]" using ex_nic_started by blast
  obtain cs where turns: "turns_obey nic_loop 8 ?turns (S1, [Go s])"
    "clients_run card_client (turns_obs nic_loop 8 ?turns (S1, [Go s])) [[new_card_conn]] = Some (cs, ?ys)"
    "clients_sent card_client card_sent (turns_obs nic_loop 8 ?turns (S1, [Go s])) [[new_card_conn]] = replicate 800 (0, Timespec 5 10)"
    using ex_nic_turns [OF s(1), of 800] by auto
  have rate: "double_of_bytes ?d / Fin 100 = Fin 1" by (simp add: double_examples)
  have req: "requested_per_thread 1000 (mg_cfg S) = 1010" by (simp only: S(2) ex_cfg_nic_loaded_def ex_requested)
  have kept: "kept (Fin 1) (map snd ?ys) = replicate 800 999999995" by (simp add: kept_def)
  have few: "length (kept_of (Fin 1) i ?ys) \<le> 800" for i using length_kept_of [of "Fin 1" i ?ys] by (simp only: length_replicate)
  have fit: "\<forall>i. length (kept_of (Fin 1) i ?ys) \<le> nat 1010" by (intro allI order_trans [OF few]) simp
  have sorted: "sort (replicate 800 (999999995 :: u64)) = replicate 800 999999995" by (rule sorted_sort_id) simp
  have "delivers (ex_msg REPORT_REQ 1 12) REPORT_REQ REPORT_LATENCY" by (simp add: REPORT_LATENCY_def)
  from nic_report_describes_wire_times [OF ex_nic_ready(2) S(1) delivers_ex_msg ex_msg_fields(1) _ S(3) turns(1) this]
  obtain S2 where "\<forall>xs. xs = kept (Fin 1) (map snd ?ys) \<and> 726 \<le> length xs \<and> length xs \<le> AGG_SAMPLE_SIZE \<and> close_values xs
       \<and> (\<forall>i. length (kept_of (Fin 1) i ?ys) \<le> nat 1010) \<and> steady_load (replicate 800 (0, Timespec 5 10)) \<longrightarrow>
     (\<exists>out S3. manager_message (\<lambda>_. []) (ex_msg REPORT_REQ 1 12) S2 = Inr (Continue, out, S3)
        \<and> tells_latencies (sort xs) (parse_u64s 17 (drop 12 out)))"
    using s(2) turns(2,3) unfolding rate req by fastforce
  from this [THEN spec, of "replicate 800 999999995"] show ?thesis
    using fit ex_steady unfolding kept sorted
    by (auto simp: AGG_SAMPLE_SIZE_def close_values_def tells_latencies_def reports_percentile_def Let_def)
qed

end
