(* ===== verification/Latency_Run.thy ===== *)
theory Latency_Run
  imports Agent_Examples
begin

text \<open>
  The latency agent as a whole. It has one request in flight at a time, so its abstract client is simple: an
  exchange on an open connection, which takes some time, or one that the server ends. Its loop fulfils the
  contract of \<open>Agent_Loop\<close>.
\<close>

subsection \<open>The client\<close>

text \<open>
  A request of \<open>n\<close> bytes on a connection and its \<open>k\<close> responses, \<open>d\<close> ns later by the client's clock, with the
  number that decides whether the time is sampled; and a request after which the server closes the connection.
\<close>

datatype exchange =
    Exchanged nat nat nat dbl int
  | Ended nat nat

text \<open>The state is which connections are open.\<close>

fun exchange_step :: "exchange \<Rightarrow> bool list \<Rightarrow> (bool list \<times> response_time list) option" where
  "exchange_step (Exchanged i n k rnd d) os = (if i < length os \<and> os ! i \<and> 0 < k then Some (os, [(rnd, d)]) else None)"
| "exchange_step (Ended i n) os = (if i < length os \<and> os ! i then Some (os[i := False], []) else None)"

fun exchange_run :: "exchange list \<Rightarrow> bool list \<Rightarrow> (bool list \<times> response_time list) option" where
  "exchange_run [] os = Some (os, [])"
| "exchange_run (w # ws) os =
     Option.bind (exchange_step w os) (\<lambda>(os1, xs).
     Option.bind (exchange_run ws os1) (\<lambda>(os2, ys). Some (os2, xs @ ys)))"

definition open_conns :: "thread_state \<Rightarrow> bool list" where
  "open_conns s = map (\<lambda>c. \<not> tc_closed c) (connections s)"

subsection \<open>An iteration\<close>

text \<open>What is seen: an exchange only if the turn has come, a connection was found and the system took the request.\<close>

definition exchange_obs :: "nat \<Rightarrow> agent_config \<Rightarrow> stats_state \<Rightarrow> latency_env \<Rightarrow> thread_state \<Rightarrow> exchange list" where
  "exchange_obs m cfg st e s =
     (if \<not> le_load e \<or> se_now (le_send e) < next_tx s then []
      else case pick_conn cfg (se_rands (le_send e)) (connections s) of
        Inr (Some i) \<Rightarrow>
          if se_ret (le_send e) < 0 \<or> le_ret e < 0 then []
          else if le_ret e = 0 then [Ended i (nat (se_ret (le_send e)))]
          else [Exchanged i (nat (se_ret (le_send e))) (nat (le_ret e) div m) (le_rnd e) (le_end e - le_start e)]
      | _ \<Rightarrow> [])"

text \<open>The system takes a request whole or fails; what it returns then is whole responses, the end or an error.\<close>

definition exchange_okay :: "nat \<Rightarrow> agent_config \<Rightarrow> stats_state \<Rightarrow> latency_env \<Rightarrow> thread_state \<Rightarrow> bool" where
  "exchange_okay m cfg st e s \<longleftrightarrow>
     (\<exists>req arg. prepare_request cfg (se_req (le_send e)) (thr_arg s) = Inr (req, arg)
        \<and> (se_ret (le_send e) = int (request_bytes req) \<or> se_ret (le_send e) < 0))
     \<and> (\<exists>ia. get_ia cfg (se_ia (le_send e)) = Inr ia)
     \<and> (0 < le_ret e \<longrightarrow> le_ret e \<le> int MAX_PAYLOAD \<and> m dvd nat (le_ret e))
     \<and> (le_measuring e \<longrightarrow> lat_wf (word_of_int (per_thread_samples st)) (thr_stats s))"

lemma exchange_recorded:
  assumes "se_measuring (le_send e)" and "le_measuring e" and "lat_wf (word_of_int (per_thread_samples st)) l"
  shows "records_measured st i (kept (sampling_rate st) [(le_rnd e, le_end e - le_start e)]) [] (l, txs)
    (if sampling_rate st < le_rnd e then counted e r l
     else lat_store (word_of_int (per_thread_samples st)) (counted e r l) (le_end e - le_start e, None), txs)"
proof -
  let ?p = "\<lparr>br_bytes = word_of_int (se_ret (le_send e)), br_reqs = 1\<rparr>" and ?d = "le_end e - le_start e"
  let ?l = "if sampling_rate st < le_rnd e then counted e r l
    else lat_store (word_of_int (per_thread_samples st)) (counted e r l) (?d, None)"
  have "counted e r l = add_throughput_rx_sample True r (add_throughput_tx_sample True ?p l)" using assms(1,2) by (simp add: counted_def)
  moreover have "add_latency_sample True (le_rnd e) st ?d None (counted e r l) = Inr ?l"
    using add_latency_sample_wf [of st "counted e r l" True] assms(3) counted_wf by simp
  ultimately have "local_calls st True [Count_tx i ?p, Count_rx i r, Sample i (le_rnd e) ?d None] (l, txs) = Inr (?l, txs)"
    by simp
  then show ?thesis
    unfolding records_measured_def
    by (intro exI [of _ "[Count_tx i ?p, Count_rx i r, Sample i (le_rnd e) ?d None]"]) (simp add: kept_def)
qed

lemma latency_iter_refines:
  assumes "app_ready cfg m" and "threads_conns cfg s" and "le_load e \<and> next_tx s \<le> se_now (le_send e) \<longrightarrow> exchange_okay m cfg st e s"
  shows "\<exists>r xs. latency_iter cfg st e s = Inr r \<and> threads_conns cfg (step_state r)
    \<and> exchange_run (exchange_obs m cfg st e s) (open_conns s) = Some (open_conns (step_state r), xs)
    \<and> (se_measuring (le_send e) \<and> le_measuring e \<longrightarrow>
         records_measured st j (kept (sampling_rate st) xs) [] (stats_view s) (stats_view (step_state r)))"
proof -
  let ?se = "le_send e"
  obtain p where p: "pick_conn cfg (se_rands ?se) (connections s) = Inr p"
    and pick: "\<And>i. p = Some i \<Longrightarrow> i < length (connections s) \<and> \<not> tc_closed (connections s ! i)"
    using pick_conn_ok [OF assms(2), of "se_rands ?se"] by blast
  consider (idle) "\<not> le_load e \<or> se_now ?se < next_tx s \<or> p = None" | (due) i where "le_load e" "next_tx s \<le> se_now ?se" "p = Some i"
    by (cases p) force+
  then show ?thesis
  proof cases
    case idle
    then have "\<exists>n. latency_iter cfg st e s = Inr (Go (s\<lparr>next_tx := n\<rparr>))" "exchange_obs m cfg st e s = []"
      using p by (auto simp: latency_iter_def Let_def exchange_obs_def intro: exI [of _ "next_tx s"])
    then show ?thesis
      using assms(2) by (fastforce simp: threads_conns_def open_conns_def stats_view_def records_measured_refl)
  next
    case (due i)
    then have okay: "exchange_okay m cfg st e s" using assms(3) by simp
    obtain req arg where req: "prepare_request cfg (se_req ?se) (thr_arg s) = Inr (req, arg)"
      and ret: "se_ret ?se = int (request_bytes req) \<or> se_ret ?se < 0" using okay by (auto simp: exchange_okay_def)
    obtain ia where ia: "get_ia cfg (se_ia ?se) = Inr ia" using okay by (auto simp: exchange_okay_def)
    have i: "i < length (connections s)" "\<not> tc_closed (connections s ! i)" using pick [OF due(3)] by auto
    let ?tx = "add_throughput_tx_sample (se_measuring ?se) \<lparr>br_bytes = word_of_int (se_ret ?se), br_reqs = 1\<rparr> (thr_stats s)"
    let ?s1 = "s\<lparr>thr_arg := arg, thr_stats := ?tx\<rparr>"
    have sent: "latency_iter cfg st e s = latency_receive cfg st e i ?s1" if "0 \<le> se_ret ?se"
      using due p req ret that by (auto simp: latency_iter_def Let_def)
    have count: "records_measured st j [] [] (stats_view s) (?tx, thr_tx s)" if "se_measuring ?se"
      using records_measured_counts(2) [of st j "thr_stats s"] that by (simp add: stats_view_def)
    consider (unsent) "se_ret ?se < 0" | (lost) "0 \<le> se_ret ?se" "le_ret e < 0" | (ended) "0 \<le> se_ret ?se" "le_ret e = 0"
      | (answered) "0 \<le> se_ret ?se" "0 < le_ret e" by linarith
    then show ?thesis
    proof cases
      case unsent
      then have "latency_iter cfg st e s = Inr (Stop (s\<lparr>thr_arg := arg\<rparr>))" "exchange_obs m cfg st e s = []"
        using due p req by (simp_all add: latency_iter_def Let_def exchange_obs_def)
      then show ?thesis using assms(2) by (simp add: threads_conns_def open_conns_def stats_view_def records_measured_refl)
    next
      case lost
      then have "latency_iter cfg st e s = Inr (Stop ?s1)" "exchange_obs m cfg st e s = []"
        using sent due p by (simp_all add: latency_receive_def exchange_obs_def)
      then show ?thesis using assms(2) count by (simp add: threads_conns_def open_conns_def stats_view_def)
    next
      case ended
      let ?s' = "?s1\<lparr>connections := (connections s)[i := (connections s ! i)\<lparr>tc_closed := True\<rparr>]\<rparr>"
      have "latency_iter cfg st e s = Inr (Go ?s')" "exchange_obs m cfg st e s = [Ended i (nat (se_ret ?se))]"
        using ended sent due p i by (simp_all add: latency_receive_def exchange_obs_def)
      moreover have "exchange_run [Ended i (nat (se_ret ?se))] (open_conns s) = Some (open_conns ?s', [])"
        using i by (simp add: open_conns_def map_update)
      ultimately show ?thesis using assms(2) count by (simp add: threads_conns_def stats_view_def)
    next
      case answered
      have n: "le_ret e \<le> int MAX_PAYLOAD" "m dvd nat (le_ret e)" using okay answered by (simp_all add: exchange_okay_def)
      have k: "0 < nat (le_ret e) div m" using n answered assms(1) by (auto simp: app_ready_def dvd_imp_le intro: div_greater_zero_iff [THEN iffD2])
      have "whole_send cfg e s arg" "le_measuring e \<longrightarrow> lat_wf (word_of_int (per_thread_samples st)) (thr_stats s)"
        using req ret answered okay by (auto simp: whole_send_def exchange_okay_def)
      from latency_iter_measures [OF assms(1) due(1,2) p [unfolded due(3)] i(1) this(1) answered(2) n(1) ia this(2)] n(2)
      obtain r l where run: "latency_iter cfg st e s = Inr (Go (s\<lparr>thr_arg := arg, next_tx := next_tx s + ia, thr_stats := l\<rparr>))"
        and l: "l = (if \<not> le_measuring e \<or> sampling_rate st < le_rnd e then counted e r (thr_stats s)
          else lat_store (word_of_int (per_thread_samples st)) (counted e r (thr_stats s)) (le_end e - le_start e, None))"
        by auto
      let ?x = "(le_rnd e, le_end e - le_start e)" and ?s' = "s\<lparr>thr_arg := arg, next_tx := next_tx s + ia, thr_stats := l\<rparr>"
      have "exchange_run (exchange_obs m cfg st e s) (open_conns s) = Some (open_conns s, [?x])"
        using answered due p i k by (simp add: exchange_obs_def open_conns_def)
      moreover have "records_measured st j (kept (sampling_rate st) [?x]) [] (stats_view s) (stats_view ?s')"
        if "se_measuring ?se" "le_measuring e"
        using exchange_recorded [OF that, where st = st and l = "thr_stats s" and i = j and r = r and txs = "thr_tx s"] that okay
        by (simp add: exchange_okay_def stats_view_def l)
      moreover have "threads_conns cfg ?s'" "open_conns ?s' = open_conns s" using assms(2) by (simp_all add: threads_conns_def open_conns_def)
      ultimately show ?thesis using run by (intro exI [of _ "Go ?s'"] exI [of _ "[?x]"]) simp
    qed
  qed
qed

subsection \<open>The loop of the latency agent\<close>

text \<open>An iteration in which the agent does not send asks nothing of anybody.\<close>

definition exchange_obeys :: "nat \<Rightarrow> agent_config \<Rightarrow> stats_state \<Rightarrow> latency_env \<Rightarrow> thread_state \<Rightarrow> bool" where
  "exchange_obeys m cfg st e s \<longleftrightarrow> (le_load e \<and> next_tx s \<le> se_now (le_send e) \<longrightarrow> exchange_okay m cfg st e s)"

definition latency_opened :: "agent_config \<Rightarrow> thread_state step \<Rightarrow> bool" where
  "latency_opened cfg t \<longleftrightarrow> (\<exists>s s' dests now. latency_open_connections cfg (\<lambda>_. Setup_ok) s = Inr (0, s', dests)
     \<and> t = Go (s'\<lparr>next_tx := now\<rparr>))"

definition latency_flags :: "bool \<Rightarrow> bool \<Rightarrow> latency_env \<Rightarrow> bool" where
  "latency_flags load measuring e \<longleftrightarrow> le_load e = load \<and> se_measuring (le_send e) = measuring \<and> le_measuring e = measuring"

definition latency_loop :: "(latency_env, exchange) agent_loop" where
  "latency_loop = \<lparr>al_type = LATENCY_AGENT, al_opened = latency_opened, al_ok = \<lambda>_ _. True, al_iter = latency_iter,
     al_flags = latency_flags, al_obeys = exchange_obeys, al_obs = exchange_obs\<rparr>"

lemma latency_loop_simps [simp]:
  "al_type latency_loop = LATENCY_AGENT" "al_iter latency_loop = latency_iter" "al_obeys latency_loop = exchange_obeys"
  "al_obs latency_loop = exchange_obs" "al_opened latency_loop = latency_opened" "al_ok latency_loop m s"
  "al_flags latency_loop = latency_flags" "\<not> stamps_load latency_loop"
  by (simp_all add: latency_loop_def stamps_load_def)

definition conns_rel :: "thread_state \<Rightarrow> bool list \<Rightarrow> bool" where
  "conns_rel s os \<longleftrightarrow> os = open_conns s"

lemma latency_opened_conns:
  assumes "loop_ready latency_loop m cfg" and "latency_opened cfg t"
  shows "threads_conns cfg (step_state t)"
proof -
  let ?n = "cfg_conn_count cfg div cfg_thread_count cfg"
  obtain s s' dests now where s': "latency_open_connections cfg (\<lambda>_. Setup_ok) s = Inr (0, s', dests)"
    and t: "t = Go (s'\<lparr>next_tx := now\<rparr>)" using assms(2) unfolding latency_opened_def by blast
  have pos: "0 < cfg_thread_count cfg" "0 < ?n" using assms(1) by (simp_all add: loop_ready_def pos_imp_zdiv_pos_iff)
  then have "per_thread_conn cfg = Inr ?n"
    using assms(1) by (auto simp: per_thread_conn_def c_div_def sgn_if loop_ready_def)
  then show ?thesis using s' pos by (auto simp: latency_open_connections_def c_result_simps threads_conns_def t)
qed

interpretation latency_agent: measuring_loop latency_loop exchange_run "\<lambda>_ _. []" conns_rel
proof (unfold_locales, goal_cases)
  case (1 m cfg t)
  then have "threads_conns cfg (step_state t)" using latency_opened_conns by simp
  then show ?case by (simp add: thread_inv_def conns_rel_def)
next
  case 2
  then show ?case by simp
next
  case 3
  then show ?case by simp
next
  case 4
  then show ?case by simp
next
  case (5 s' s c)
  then show ?case by (simp add: conns_rel_def open_conns_def)
next
  case (6 cfg m s c st e l k)
  then obtain r xs where r: "latency_iter cfg st e s = Inr r" "threads_conns cfg (step_state r)"
    and obs: "exchange_run (exchange_obs m cfg st e s) (open_conns s) = Some (open_conns (step_state r), xs)"
    and rec: "se_measuring (le_send e) \<and> le_measuring e \<longrightarrow>
      records_measured st k (kept (sampling_rate st) xs) [] (stats_view s) (stats_view (step_state r))"
    using latency_iter_refines [OF 6(1,3), where st = st and e = e and j = k] 6(5) by (auto simp: exchange_obeys_def)
  then show ?case using 6(4) by (auto simp: conns_rel_def latency_flags_def)
next
  case (7 cfg st e s r l b k)
  then show ?case using latency_iter_records [of cfg st e s r b LATENCY_AGENT k] by (simp add: latency_flags_def)
qed

lemma related_open: "related conns_rel ts cs \<longleftrightarrow> cs = map (\<lambda>t. open_conns (step_state t)) ts"
  by (auto simp: related_def conns_rel_def intro!: nth_equalityI)

subsection \<open>Properties\<close>

text \<open>
  C3. The numbers the coordinator receives from a latency agent describe its exchanges. In any state the
  agent can reach, with any number of threads and any interleaving of their iterations: after
  \<open>START_MEASURE\<close> the iterations never fail, every thread makes one exchange at a time on an open connection
  (the server may end a connection, but not answer in part), and the latency report that follows holds the
  average and the percentiles of exactly the sampled durations of these exchanges.
\<close>

theorem latency_report_describes_exchanges:
  assumes "loop_ready latency_loop m cfg" and "agent_reach latency_loop enc m cfg (S, ts)"
    and "delivers env1 START_MEASURE n" and "me_sampling env1 = (8, d)" and "length d = 8"
    and "manager_message enc env1 S = Inr (Continue, ack, S1)"
    and "turns_obey latency_loop m turns (S1, ts)" and "delivers env2 REPORT_REQ REPORT_LATENCY"
  shows "\<exists>S2 ts2 ys. agent_iters latency_loop turns (S1, ts) = Inr (S2, ts2)
    \<and> clients_run exchange_run (turns_obs latency_loop m turns (S1, ts)) (map (\<lambda>t. open_conns (step_state t)) ts)
        = Some (map (\<lambda>t. open_conns (step_state t)) ts2, ys)
    \<and> (\<forall>xs. xs = kept (double_of_bytes d / Fin 100) (map snd ys) \<and> 726 \<le> length xs \<and> length xs \<le> AGG_SAMPLE_SIZE
         \<and> close_values xs
         \<and> (\<forall>i. length (kept_of (double_of_bytes d / Fin 100) i ys) \<le> nat (requested_per_thread n (mg_cfg S))) \<longrightarrow>
       (\<exists>out S3. manager_message enc env2 S2 = Inr (Continue, out, S3) \<and> tells_latencies (sort xs) (parse_u64s 17 (drop 12 out))))"
proof -
  have "related conns_rel ts (map (\<lambda>t. open_conns (step_state t)) ts)" by (simp add: related_open)
  from latency_agent.report_describes [OF assms(1,2) this _ assms(3-8)] show ?thesis
    unfolding related_open by simp
qed

subsection \<open>A measurement of 800 exchanges\<close>

text \<open>Every request is answered 250 ns after the clock was read before it was sent.\<close>

definition ex_cfg_lat :: agent_config where
  "ex_cfg_lat = ex_cfg_run\<lparr>cfg_atype := LATENCY_AGENT\<rparr>"

definition ex_cfg_lat_loaded :: agent_config where
  "ex_cfg_lat_loaded = ex_cfg_loaded\<lparr>cfg_atype := LATENCY_AGENT\<rparr>"

definition ex_exchange_env :: latency_env where
  "ex_exchange_env = ex_latency_env\<lparr>le_send := ex_turn_send\<rparr>"

definition ex_exchanging :: "nat \<Rightarrow> agent \<Rightarrow> bool" where
  "ex_exchanging k A \<longleftrightarrow> (\<exists>S s. A = (S, [Go s]) \<and> agent_inv latency_loop 8 ex_cfg_lat A \<and> mg_cfg S = ex_cfg_lat_loaded
     \<and> agents_should_load S \<and> agents_should_measure S \<and> connections s = [zero_connection] \<and> next_tx s = int k * 10 ^ 6)"

lemma ex_lat_ready: "app_ready ex_cfg_lat_loaded 8" "loop_ready latency_loop 8 ex_cfg_lat"
  using ex_configs_ready(1) ex_configs_ready(2) [of latency_loop LATENCY_AGENT]
  by (simp_all add: ex_cfg_lat_def ex_cfg_lat_loaded_def)

lemmas ex_lat_request = ex_request [where a = LATENCY_AGENT, folded ex_cfg_lat_loaded_def]

lemma ex_exchange:
  assumes "ex_exchanging k A" and "k < 1000"
  shows "turn_obeys latency_loop 8 (0, ex_exchange_env) A
    \<and> turn_obs latency_loop 8 (0, ex_exchange_env) A = [Exchanged 0 8 1 (Fin 0) 250]
    \<and> (\<exists>A'. agent_iter latency_loop (0, ex_exchange_env) A = Inr A' \<and> ex_exchanging (Suc k) A')"
proof -
  obtain S s where A: "A = (S, [Go s])" and inv: "agent_inv latency_loop 8 ex_cfg_lat A" and cfg: "mg_cfg S = ex_cfg_lat_loaded"
    and flags: "agents_should_load S" "agents_should_measure S" and c: "connections s = [zero_connection]" and next_tx: "next_tx s = int k * 10 ^ 6"
    using assms(1) unfolding ex_exchanging_def by blast
  let ?t = "load_view 0 S s" and ?e = ex_exchange_env and ?st = "mg_stats S"
  have view: "connections ?t = [zero_connection]" "next_tx ?t = int k * 10 ^ 6" by (simp_all add: load_view_def c next_tx)
  have e: "le_load ?e" "le_send ?e = ex_turn_send" "le_ret ?e = 8" "le_measuring ?e" "le_rnd ?e = Fin 0" "le_end ?e - le_start ?e = 250"
    "se_measuring ex_turn_send" "se_ret ex_turn_send = 8" "se_now ex_turn_send = 10 ^ 12"
    by (simp_all add: ex_exchange_env_def ex_latency_env_def ex_turn_send_def)
  have pick: "pick_conn ex_cfg_lat_loaded (se_rands ex_turn_send) [zero_connection] = Inr (Some 0)"
    unfolding ex_cfg_lat_loaded_def by (rule ex_pick) (simp_all add: zero_connection_def)
  have due: "next_tx ?t \<le> se_now (le_send ?e)" using assms(2) by (simp add: view e)
  have wf: "lat_wf (word_of_int (per_thread_samples ?st)) (thr_stats ?t)"
    using inv_lat_wf [OF inv [unfolded A] flags(2), of 0] by (simp add: load_view_def element_def ex_cfg_lat_def)
  then have okay: "exchange_okay 8 ex_cfg_lat_loaded ?st ?e ?t"
    using ex_lat_request ex_request_size e by (simp add: exchange_okay_def MAX_PAYLOAD_def)
  then have obeys: "turn_obeys latency_loop 8 (0, ?e) A"
    using flags e by (simp add: A turn_obeys.simps exchange_obeys_def cfg latency_flags_def)
  have obs: "turn_obs latency_loop 8 (0, ?e) A = [Exchanged 0 8 1 (Fin 0) 250]"
    using due pick e by (simp add: A turn_obs.simps exchange_obs_def cfg view)
  have send: "whole_send ex_cfg_lat_loaded ?e ?t (Arg_long 1)" using ex_lat_request ex_request_size e by (simp add: whole_send_def)
  obtain l where run: "latency_iter ex_cfg_lat_loaded ?st ?e ?t
      = Inr (Go (?t\<lparr>thr_arg := Arg_long 1, next_tx := next_tx ?t + 10 ^ 6, thr_stats := l\<rparr>))"
    using latency_iter_measures [OF ex_lat_ready(1) e(1) due, of 0 "Arg_long 1" "10 ^ 6" ?st] pick send ex_lat_request(2) wf
    by (auto simp: e view MAX_PAYLOAD_def)
  let ?s' = "?t\<lparr>thr_arg := Arg_long 1, next_tx := next_tx ?t + 10 ^ 6, thr_stats := l\<rparr>"
  let ?A' = "(put 0 (stats_view ?s') S, [Go ?s'])"
  have iter: "agent_iter latency_loop (0, ?e) A = Inr ?A'" using run by (simp add: A agent_iter.simps cfg)
  have "app_ready ex_cfg_lat 8" using ex_lat_ready(2) by (simp add: loop_ready_def)
  moreover have "related conns_rel [Go s] [open_conns s]" by (simp add: related_open)
  ultimately have "agent_inv latency_loop 8 ex_cfg_lat ?A'"
    using latency_agent.agent_iter_refines [OF inv [unfolded A] _ _ obeys [unfolded A]] iter A by fastforce
  then have "ex_exchanging (Suc k) ?A'"
    using flags cfg view by (auto simp: ex_exchanging_def put_def)
  with obeys obs iter show ?thesis by blast
qed

lemma ex_exchanges:
  "ex_exchanging k A \<Longrightarrow> k + n \<le> 1000 \<Longrightarrow> turns_obey latency_loop 8 (replicate n (0, ex_exchange_env)) A
   \<and> turns_obs latency_loop 8 (replicate n (0, ex_exchange_env)) A = replicate n (0, [Exchanged 0 8 1 (Fin 0) 250])"
proof (induction n arbitrary: k A)
  case (Suc n)
  from ex_exchange [OF Suc.prems(1)] Suc.prems(2) obtain A' where "turn_obeys latency_loop 8 (0, ex_exchange_env) A"
    "turn_obs latency_loop 8 (0, ex_exchange_env) A = [Exchanged 0 8 1 (Fin 0) 250]"
    "agent_iter latency_loop (0, ex_exchange_env) A = Inr A'" "ex_exchanging (Suc k) A'" by auto
  with Suc.IH [of "Suc k" A'] Suc.prems(2) show ?case by simp
qed simp

lemma ex_exchanges_run:
  "clients_run exchange_run (replicate n (0, [Exchanged 0 8 1 (Fin 0) 250])) [[True]] = Some ([[True]], replicate n (0, (Fin 0, 250)))"
  by (induction n) simp_all

lemma ex_lat_started:
  "\<exists>S s S1 out. agent_reach latency_loop (\<lambda>_. []) 8 ex_cfg_lat (S, [Go s]) \<and> mg_cfg S = ex_cfg_lat_loaded
     \<and> manager_message (\<lambda>_. []) (ex_msg START_MEASURE 1000 7) S = Inr (Continue, out, S1)
     \<and> ex_exchanging 0 (S1, [Go s]) \<and> open_conns s = [True]"
proof -
  let ?s = "ex_thread\<lparr>connections := [zero_connection], next_tx := 0\<rparr>"
  have "latency_open_connections ex_cfg_lat (\<lambda>_. Setup_ok) ex_thread
      = Inr (0, ex_thread\<lparr>connections := [zero_connection]\<rparr>, [\<lparr>ht_ip = 16777343, ht_port = 80\<rparr>])"
    by (simp add: latency_open_connections_def per_thread_conn_def c_div_def ex_cfg_lat_def ex_cfg_run_def ex_cfg_def
        dest_of_def numeral_eq_Suc)
  then have "latency_opened ex_cfg_lat (Go ?s)" unfolding latency_opened_def by fastforce
  then obtain S S1 out where reach: "agent_reach latency_loop (\<lambda>_. []) 8 ex_cfg_lat (S, [Go ?s])" and S: "mg_cfg S = ex_cfg_lat_loaded"
      "manager_message (\<lambda>_. []) (ex_msg START_MEASURE 1000 7) S = Inr (Continue, out, S1)"
    and S1: "mg_cfg S1 = ex_cfg_lat_loaded" "agents_should_load S1" "agents_should_measure S1" "per_thread_samples (mg_stats S1) = 1010"
    using ex_loop_started [of latency_loop LATENCY_AGENT ?s] unfolding ex_cfg_lat_def [symmetric] ex_cfg_lat_loaded_def [symmetric]
    by auto
  have "agent_inv latency_loop 8 ex_cfg_lat (S1, [Go ?s])"
    using message_inv [of latency_loop, OF _ S(2)] latency_agent.agent_reach_inv [OF ex_lat_ready(2) reach] S1(4) by simp
  then have "ex_exchanging 0 (S1, [Go ?s])" using S1 by (simp add: ex_exchanging_def)
  moreover have "open_conns ?s = [True]" by (simp add: open_conns_def zero_connection_def)
  ultimately show ?thesis using reach S by blast
qed

theorem latency_report_describes_exchanges_witness:
  "\<exists>S2 out S3. manager_message (\<lambda>_. []) (ex_msg REPORT_REQ 1 12) S2 = Inr (Continue, out, S3)
     \<and> parse_u64s 17 (drop 12 out) ! 6 = 250"
proof -
  let ?d = "[0, 0, 0, 0, 0, 0, 89, 64] :: byte list" and ?turns = "replicate 800 (0, ex_exchange_env)" and ?ys = "replicate 800 (0, (Fin 0, 250))"
  obtain S s S1 out where S: "agent_reach latency_loop (\<lambda>_. []) 8 ex_cfg_lat (S, [Go s])" "mg_cfg S = ex_cfg_lat_loaded"
      "manager_message (\<lambda>_. []) (ex_msg START_MEASURE 1000 7) S = Inr (Continue, out, S1)"
    and s: "ex_exchanging 0 (S1, [Go s])" "open_conns s = [True]" using ex_lat_started by blast
  have rate: "double_of_bytes ?d / Fin 100 = Fin 1" by (simp add: double_examples)
  have obs: "clients_run exchange_run (turns_obs latency_loop 8 ?turns (S1, [Go s])) (map (\<lambda>t. open_conns (step_state t)) [Go s])
      = Some ([[True]], ?ys)"
    using ex_exchanges [OF s(1), of 800] ex_exchanges_run [of 800] s(2) by simp
  have obey: "turns_obey latency_loop 8 ?turns (S1, [Go s])" using ex_exchanges [OF s(1), of 800] by simp
  have req: "requested_per_thread 1000 (mg_cfg S) = 1010" by (simp only: S(2) ex_cfg_lat_loaded_def ex_requested)
  have few: "length (kept_of (Fin 1) i ?ys) \<le> 800" for i using length_kept_of [of "Fin 1" i ?ys] by (simp only: length_replicate)
  have fit: "\<forall>i. length (kept_of (Fin 1) i ?ys) \<le> nat 1010" by (intro allI order_trans [OF few]) simp
  have kept: "kept (Fin 1) (map snd ?ys) = replicate 800 250" by (simp add: kept_def)
  have sorted: "sort (replicate 800 (250 :: u64)) = replicate 800 250" by (rule sorted_sort_id) simp
  have "delivers (ex_msg REPORT_REQ 1 12) REPORT_REQ REPORT_LATENCY" by (simp add: REPORT_LATENCY_def)
  from latency_report_describes_exchanges [OF ex_lat_ready(2) S(1) delivers_ex_msg ex_msg_fields(1) _ S(3) obey this]
  obtain S2 where "\<forall>xs. xs = kept (Fin 1) (map snd ?ys) \<and> 726 \<le> length xs \<and> length xs \<le> AGG_SAMPLE_SIZE \<and> close_values xs
       \<and> (\<forall>i. length (kept_of (Fin 1) i ?ys) \<le> nat 1010) \<longrightarrow>
     (\<exists>out S3. manager_message (\<lambda>_. []) (ex_msg REPORT_REQ 1 12) S2 = Inr (Continue, out, S3)
        \<and> tells_latencies (sort xs) (parse_u64s 17 (drop 12 out)))"
    unfolding rate req obs by fastforce
  from this [THEN spec, of "replicate 800 250"] show ?thesis
    using fit unfolding kept sorted
    by (auto simp: AGG_SAMPLE_SIZE_def close_values_def tells_latencies_def reports_percentile_def Let_def)
qed

end
