(* ===== verification/Traffic.thy ===== *)
theory Traffic
  imports Client Framing
begin

text \<open>
  What the throughput agent promises: an abstract client that sends requests and consumes a stream of bytes
  per connection, in which responses follow one another, whatever the pieces they arrive in; and the proof
  that an iteration of \<open>throughput_tcp_main\<close> is a run of it that counts what the client has seen.
\<close>

subsection \<open>The client\<close>

text \<open>A request of \<open>n\<close> bytes; \<open>n\<close> bytes of responses that are \<open>m\<close> bytes long each; the end of a connection.\<close>

datatype traffic =
    Requested nat nat
  | Received nat nat nat
  | Closed nat

text \<open>A connection: whether it is open, how many requests are unanswered, and the bytes of an unfinished response.\<close>

record stream =
  str_open :: bool
  str_waiting :: nat
  str_partial :: nat

text \<open>The client of a thread: its connections, and what has gone over them so far.\<close>

record traffic_client =
  tr_streams :: "stream list"
  tr_received :: nat
  tr_sent :: nat
  tr_responses :: nat

fun traffic_step :: "traffic \<Rightarrow> traffic_client \<Rightarrow> traffic_client option" where
  "traffic_step (Requested i n) c =
     (let s = tr_streams c ! i in
      if i < length (tr_streams c) \<and> str_open s \<and> str_waiting s < MAX_OUTSTANDING
      then Some (c\<lparr>tr_streams := (tr_streams c)[i := s\<lparr>str_waiting := str_waiting s + 1\<rparr>], tr_sent := tr_sent c + n\<rparr>)
      else None)"
| "traffic_step (Received i n m) c =
     (let s = tr_streams c ! i; k = (str_partial s + n) div m in
      if i < length (tr_streams c) \<and> 0 < k \<and> str_partial s + n \<le> str_waiting s * m
      then Some (c\<lparr>tr_streams := (tr_streams c)[i := s\<lparr>str_waiting := str_waiting s - k, str_partial := (str_partial s + n) mod m\<rparr>],
                   tr_received := tr_received c + k * m, tr_responses := tr_responses c + k\<rparr>)
      else None)"
| "traffic_step (Closed i) c =
     (if i < length (tr_streams c) then Some (c\<lparr>tr_streams := (tr_streams c)[i := (tr_streams c ! i)\<lparr>str_open := False\<rparr>]\<rparr>) else None)"

text \<open>No response times are measured.\<close>

fun traffic_run :: "traffic list \<Rightarrow> traffic_client \<Rightarrow> (traffic_client \<times> response_time list) option" where
  "traffic_run [] c = Some (c, [])"
| "traffic_run (w # ws) c = Option.bind (traffic_step w c) (traffic_run ws)"

lemma traffic_run_append:
  "traffic_run ws c = Some (c1, xs) \<Longrightarrow> traffic_run (ws @ ws') c = traffic_run ws' c1"
  by (induction ws arbitrary: c) (auto simp: Option.bind_eq_Some_conv)

text \<open>Requests are neither lost nor invented.\<close>

definition waiting :: "traffic_client \<Rightarrow> nat" where
  "waiting c = (\<Sum>s\<leftarrow>tr_streams c. str_waiting s)"

fun requests :: "traffic \<Rightarrow> nat" where
  "requests (Requested i n) = 1"
| "requests (Received i n m) = 0"
| "requests (Closed i) = 0"

lemma traffic_step_conserves:
  assumes "traffic_step w c = Some c'"
  shows "waiting c' + tr_responses c' = waiting c + tr_responses c + requests w"
proof -
  have upd: "(\<Sum>s\<leftarrow>ss[i := y]. str_waiting s) + str_waiting (ss ! i) = (\<Sum>s\<leftarrow>ss. str_waiting s) + str_waiting y"
    if "i < length ss" for ss :: "stream list" and i y
    by (rule sum_list_update_group [OF that])
  show ?thesis
  proof (cases w)
    case (Received i n m)
    let ?s = "tr_streams c ! i" and ?k = "(str_partial (tr_streams c ! i) + n) div m"
    from assms Received have i: "i < length (tr_streams c)" "0 < ?k" "str_partial ?s + n \<le> str_waiting ?s * m"
      by (auto simp: Let_def split: if_splits)
    have "0 < m" using i(2) by (cases m) simp_all
    then have "?k \<le> str_waiting ?s" using div_le_mono [OF i(3), of m] by simp
    moreover have "tr_streams c' = (tr_streams c)[i := ?s\<lparr>str_waiting := str_waiting ?s - ?k, str_partial := (str_partial ?s + n) mod m\<rparr>]"
      "tr_responses c' = tr_responses c + ?k" using assms Received i by (auto simp: Let_def)
    ultimately show ?thesis
      using Received upd [OF i(1), of "?s\<lparr>str_waiting := str_waiting ?s - ?k, str_partial := (str_partial ?s + n) mod m\<rparr>"]
      unfolding waiting_def by simp
  next
    case (Requested i n)
    then show ?thesis
      using assms upd [of i "tr_streams c" "(tr_streams c ! i)\<lparr>str_waiting := str_waiting (tr_streams c ! i) + 1\<rparr>"]
      by (auto simp: waiting_def Let_def split: if_splits)
  next
    case (Closed i)
    then show ?thesis
      using assms upd [of i "tr_streams c" "(tr_streams c ! i)\<lparr>str_open := False\<rparr>"]
      by (auto simp: waiting_def Let_def split: if_splits)
  qed
qed

lemma traffic_run_conserves:
  "traffic_run ws c = Some (c', xs) \<Longrightarrow> waiting c' + tr_responses c' = waiting c + tr_responses c + (\<Sum>w\<leftarrow>ws. requests w)"
proof (induction ws arbitrary: c)
  case (Cons w ws)
  then obtain c1 where "traffic_step w c = Some c1" "traffic_run ws c1 = Some (c', xs)" by (auto simp: Option.bind_eq_Some_conv)
  with Cons.IH [of c1] traffic_step_conserves [of w c c1] show ?case by simp
qed simp

subsection \<open>Abstraction\<close>

definition stream_of :: "tcp_connection \<Rightarrow> stream" where
  "stream_of c = \<lparr>str_open = \<not> tc_closed c, str_waiting = unat (tc_pending c), str_partial = unat (tc_buffer_idx c)\<rparr>"

definition streams_of :: "thread_state \<Rightarrow> stream list" where
  "streams_of s = map stream_of (connections s)"

lemma streams_of_nth: "i < length (connections s) \<Longrightarrow> streams_of s ! i = stream_of (connections s ! i)"
  and length_streams_of: "length (streams_of s) = length (connections s)"
  by (simp_all add: streams_of_def)

text \<open>What the report holds of a thread: the counters, and what they should be.\<close>

datatype counter = Received_bytes | Sent_bytes | Responses

fun counted_in :: "counter \<Rightarrow> latency_stats \<Rightarrow> u64" where
  "counted_in Received_bytes l = br_bytes (th_rx (lt_th l))"
| "counted_in Sent_bytes l = br_bytes (th_tx (lt_th l))"
| "counted_in Responses l = br_reqs (th_rx (lt_th l))"

fun tally :: "counter \<Rightarrow> traffic_client \<Rightarrow> nat" where
  "tally Received_bytes c = tr_received c"
| "tally Sent_bytes c = tr_sent c"
| "tally Responses c = tr_responses c"

text \<open>The counters have advanced as the client has.\<close>

definition counts_along :: "latency_stats \<Rightarrow> traffic_client \<Rightarrow> latency_stats \<Rightarrow> traffic_client \<Rightarrow> bool" where
  "counts_along l c l' c' \<longleftrightarrow> (\<forall>k. counted_in k l' - word_of_nat (tally k c') = counted_in k l - word_of_nat (tally k c))"

lemma counts_along_refl [simp]: "counts_along l c l c"
  by (simp add: counts_along_def)

lemma counts_along_trans: "counts_along l c l1 c1 \<Longrightarrow> counts_along l1 c1 l2 c2 \<Longrightarrow> counts_along l c l2 c2"
  by (simp add: counts_along_def)

subsection \<open>What is seen in an iteration\<close>

definition requested_obs :: "agent_config \<Rightarrow> send_env list \<Rightarrow> thread_state \<Rightarrow> traffic list" where
  "requested_obs cfg es s =
     (case es of
        [] \<Rightarrow> []
      | e # _ \<Rightarrow>
          if 0 \<le> se_now e - next_tx s \<and> \<not> (se_ret e < 0 \<and> \<not> se_block e) then
            (case pick_conn cfg (se_rands e) (connections s) of Inr (Some i) \<Rightarrow> [Requested i (nat (se_ret e))] | _ \<Rightarrow> [])
          else [])"

definition received_obs :: "nat \<Rightarrow> epoll_event \<Rightarrow> traffic list" where
  "received_obs m ev =
     (if 0 < ev_ret ev then [Received (ev_idx ev) (nat (ev_ret ev)) m]
      else if ev_ret ev = 0 then [Closed (ev_idx ev)] else [])"

fun all_received_obs :: "nat \<Rightarrow> agent_config \<Rightarrow> epoll_event list \<Rightarrow> thread_state \<Rightarrow> traffic list" where
  "all_received_obs m cfg [] s = []"
| "all_received_obs m cfg (ev # evs) s =
     received_obs m ev @ (case throughput_event cfg ev s of Inr (Go s') \<Rightarrow> all_received_obs m cfg evs s' | _ \<Rightarrow> [])"

definition traffic_obs :: "nat \<Rightarrow> agent_config \<Rightarrow> stats_state \<Rightarrow> iter_env \<Rightarrow> thread_state \<Rightarrow> traffic list" where
  "traffic_obs m cfg st e s =
     (if \<not> ie_load e then []
      else requested_obs cfg (ie_sends e) s @
        (case one_send No_stamp cfg (ie_sends e) s of
           Inr (Go s') \<Rightarrow> all_received_obs m cfg (ie_events e) s' | _ \<Rightarrow> []))"

text \<open>The system takes requests whole; the peer completes responses to requests it has got, or closes or resets.\<close>

definition traffic_obeys :: "nat \<Rightarrow> agent_config \<Rightarrow> stats_state \<Rightarrow> iter_env \<Rightarrow> thread_state \<Rightarrow> bool" where
  "traffic_obeys m cfg st e s \<longleftrightarrow> (\<forall>x \<in> set (ie_sends e). send_ok cfg s x)
     \<and> (case one_send No_stamp cfg (ie_sends e) s of
          Inr (Go s1) \<Rightarrow> events_ok (throughput_event cfg) (event_ok m) (ie_events e) s1 | _ \<Rightarrow> True)"

text \<open>A step of the thread is one of the client, and counts what it saw if it measures.\<close>

definition traffic_refined :: "nat \<Rightarrow> bool \<Rightarrow> traffic list \<Rightarrow> thread_state \<Rightarrow> thread_state \<Rightarrow> bool" where
  "traffic_refined m b ws s s' \<longleftrightarrow> thread_ok m s' \<and>
     (\<forall>c. tr_streams c = streams_of s \<longrightarrow>
        (\<exists>c'. traffic_run ws c = Some (c', []) \<and> tr_streams c' = streams_of s'
          \<and> (b \<longrightarrow> counts_along (thr_stats s) c (thr_stats s') c')))"

lemma traffic_refined_same:
  "thread_ok m s' \<Longrightarrow> connections s' = connections s \<Longrightarrow> thr_stats s' = thr_stats s \<Longrightarrow> traffic_refined m b [] s s'"
  by (simp add: traffic_refined_def streams_of_def)

lemma traffic_refined_trans:
  assumes "traffic_refined m b ws s s1" and "traffic_refined m b ws' s1 s2"
  shows "traffic_refined m b (ws @ ws') s s2"
proof -
  have "\<exists>c2. traffic_run (ws @ ws') c = Some (c2, []) \<and> tr_streams c2 = streams_of s2
      \<and> (b \<longrightarrow> counts_along (thr_stats s) c (thr_stats s2) c2)" if c: "tr_streams c = streams_of s" for c
  proof -
    obtain c1 where c1: "traffic_run ws c = Some (c1, [])" "tr_streams c1 = streams_of s1"
      "b \<longrightarrow> counts_along (thr_stats s) c (thr_stats s1) c1" using assms(1) c unfolding traffic_refined_def by blast
    then obtain c2 where "traffic_run ws' c1 = Some (c2, [])" "tr_streams c2 = streams_of s2"
      "b \<longrightarrow> counts_along (thr_stats s1) c1 (thr_stats s2) c2" using assms(2) unfolding traffic_refined_def by blast
    then show ?thesis using c1 traffic_run_append [OF c1(1)] counts_along_trans by auto
  qed
  then show ?thesis using assms(2) by (simp add: traffic_refined_def)
qed

subsection \<open>The steps of an iteration\<close>

lemma sent_traffic:
  assumes "thread_ok m s" and "i < length (connections s)" and "unat (tc_pending (connections s ! i)) < MAX_PENDING_REQS"
    and "\<not> tc_closed (connections s ! i)" and "0 \<le> se_ret e" and "b \<longrightarrow> se_measuring e"
  shows "traffic_refined m b [Requested i (nat (se_ret e))] s (sent_on s i e arg ia)"
proof -
  let ?s' = "sent_on s i e arg ia" and ?c = "connections s ! i"
  have streams: "streams_of ?s' = (streams_of s)[i := (stream_of ?c)\<lparr>str_waiting := str_waiting (stream_of ?c) + 1\<rparr>]"
    using unat_pending_Suc [OF assms(3)] by (simp add: streams_of_def sent_on_def map_update stream_of_def)
  have "counts_along (thr_stats s) c (thr_stats ?s') (c\<lparr>tr_streams := streams_of ?s', tr_sent := tr_sent c + nat (se_ret e)\<rparr>)"
    if b for c
  proof -
    have "counted_in k (thr_stats ?s') = counted_in k (thr_stats s) + (if k = Sent_bytes then word_of_int (se_ret e) else 0)" for k
      using assms(6) that by (cases k) (simp_all add: sent_on_def add_throughput_tx_sample_def)
    moreover have "(word_of_int (se_ret e) :: u64) = word_of_nat (nat (se_ret e))" using assms(5) by (simp add: of_nat_nat)
    ultimately have "counted_in k (thr_stats ?s') - word_of_nat (tally k (c\<lparr>tr_streams := streams_of ?s', tr_sent := tr_sent c + nat (se_ret e)\<rparr>))
        = counted_in k (thr_stats s) - word_of_nat (tally k c)" for k
      by (cases k) simp_all
    then show ?thesis by (simp add: counts_along_def)
  qed
  then show ?thesis
    using thread_ok_sent [OF assms(1-3), of e arg ia] assms(2-4)
    by (auto simp: traffic_refined_def Let_def streams streams_of_nth length_streams_of stream_of_def MAX_OUTSTANDING_def MAX_PENDING_REQS_def)
qed

lemma one_send_traffic:
  assumes "thread_ok m s" and "threads_conns cfg s" and "\<forall>e \<in> set es. send_ok cfg s e \<and> (b \<longrightarrow> se_measuring e)"
  shows "\<exists>r. one_send No_stamp cfg es s = Inr r \<and> traffic_refined m b (requested_obs cfg es s) s (step_state r)"
proof (cases "\<exists>e es'. es = e # es' \<and> 0 \<le> se_now e - next_tx s")
  case False
  then show ?thesis
    using assms(1) traffic_refined_same [of m s s b] by (cases es) (auto simp: one_send_def requested_obs_def)
next
  case True
  then obtain e es' where es: "es = e # es'" "0 \<le> se_now e - next_tx s" by blast
  have e: "send_ok cfg s e" "b \<longrightarrow> se_measuring e" using assms(3) es by simp_all
  obtain p where p: "pick_conn cfg (se_rands e) (connections s) = Inr p"
    and pick: "\<And>i. p = Some i \<Longrightarrow> i < length (connections s) \<and> unat (tc_pending (connections s ! i)) < MAX_PENDING_REQS
      \<and> \<not> tc_closed (connections s ! i)"
    using pick_conn_ok [OF assms(2)] by blast
  show ?thesis
  proof (cases p)
    case None
    then show ?thesis
      using p es assms(1) traffic_refined_same [of m s s b] by (simp add: one_send_def try_send_def requested_obs_def)
  next
    case (Some i)
    note i = pick [OF Some]
    obtain req arg ia where req: "prepare_request cfg (se_req e) (thr_arg s) = Inr (req, arg)"
      and ret: "se_ret e = int (request_bytes req) \<or> se_ret e < 0 \<and> \<not> se_block e" and ia: "get_ia cfg (se_ia e) = Inr ia"
      using e(1) by (auto simp: send_ok_def)
    show ?thesis
    proof (cases "se_ret e < 0 \<and> \<not> se_block e")
      case True
      then have "one_send No_stamp cfg es s = Inr (Stop (s\<lparr>thr_arg := arg\<rparr>))" "requested_obs cfg es s = []"
        using es p Some req by (simp_all add: one_send_def try_send_def send_on_def Let_def requested_obs_def)
      then show ?thesis using assms(1) traffic_refined_same [of m "s\<lparr>thr_arg := arg\<rparr>" s b] by (simp add: thread_ok_arg)
    next
      case False
      then have "one_send No_stamp cfg es s = Inr (Go (sent_on s i e arg ia))" "requested_obs cfg es s = [Requested i (nat (se_ret e))]"
        using ret es p Some req ia i
        by (auto simp: one_send_def try_send_def send_on_def Let_def sent_on_def case_prod_unfold requested_obs_def)
      moreover have "0 \<le> se_ret e" using False ret by auto
      ultimately show ?thesis using sent_traffic [OF assms(1)] i e(2) by simp
    qed
  qed
qed

lemma served_traffic:
  assumes "thread_ok m s" and "ev_idx ev < length (connections s)" and "0 < m" and "b \<longrightarrow> ev_measuring ev"
    and "received_ok m (connections s ! ev_idx ev) ev c' r" and "serves m (connections s ! ev_idx ev) ev"
  shows "traffic_refined m b [Received (ev_idx ev) (nat (ev_ret ev)) m] s ((after_receive s (ev_idx ev) c' r)
    \<lparr>thr_stats := add_throughput_rx_sample (ev_measuring ev) r (thr_stats s)\<rparr>)"
proof -
  let ?i = "ev_idx ev" and ?c = "connections s ! ev_idx ev"
  let ?n = "unat (tc_buffer_idx ?c) + nat (ev_ret ev)" and ?l = "add_throughput_rx_sample (ev_measuring ev) r (thr_stats s)"
  let ?s' = "(after_receive s ?i c' r)\<lparr>thr_stats := ?l\<rparr>" and ?k = "?n div m"
  have got: "unat (br_reqs r) = ?k" "unat (br_bytes r) = ?k * m" "unat (tc_pending c') = unat (tc_pending ?c) - ?k"
    "unat (tc_buffer_idx c') = ?n mod m" "tc_closed c' = tc_closed ?c"
    using assms(5) by (simp_all add: received_ok_def arrived_def)
  have serve: "m \<le> ?n" "?n \<le> unat (tc_pending ?c) * m" using assms(6) by (simp_all add: serves_def arrived_def)
  have k: "0 < ?k" using serve(1) assms(3) by (simp add: div_greater_zero_iff)
  have streams: "streams_of ?s' = (streams_of s)[?i := (stream_of ?c)\<lparr>str_waiting := unat (tc_pending ?c) - ?k, str_partial := ?n mod m\<rparr>]"
    using got by (simp add: streams_of_def after_receive_def map_update stream_of_def)
  have words: "br_bytes r = word_of_nat (?k * m)" "br_reqs r = word_of_nat ?k"
    using got(1,2) unat_u64_inverse by metis+
  have "counts_along (thr_stats s) c ?l (c\<lparr>tr_streams := streams_of ?s', tr_received := tr_received c + ?k * m, tr_responses := tr_responses c + ?k\<rparr>)"
    if b for c
  proof -
    have "counted_in j ?l - word_of_nat (tally j (c\<lparr>tr_streams := streams_of ?s', tr_received := tr_received c + ?k * m, tr_responses := tr_responses c + ?k\<rparr>))
        = counted_in j (thr_stats s) - word_of_nat (tally j c)" for j
      using assms(4) that words by (cases j) (simp_all add: add_throughput_rx_sample_def)
    then show ?thesis by (simp add: counts_along_def)
  qed
  moreover have "thread_ok m ?s'"
    using thread_ok_receive [OF assms(1-3,5,6)] by (simp add: thread_ok_def)
  ultimately show ?thesis
    using assms(2) k serve(2)
    by (auto simp: traffic_refined_def Let_def streams streams_of_nth length_streams_of) (simp_all add: stream_of_def)
qed

lemma throughput_event_traffic:
  assumes "app_ready cfg m" and "thread_ok m s" and "ev_idx ev < length (connections s)"
    and "event_ok m (connections s ! ev_idx ev) ev" and "b \<longrightarrow> ev_measuring ev"
  shows "\<exists>r. throughput_event cfg ev s = Inr r \<and> traffic_refined m b (received_obs m ev) s (step_state r)"
proof (cases "serves m (connections s ! ev_idx ev) ev")
  case True
  then have ev: "ev_in ev" "0 < ev_ret ev" by (simp_all add: serves_def)
  obtain c' r where got: "received_ok m (connections s ! ev_idx ev) ev c' r"
    and run: "on_readable False (\<lambda>_ _ s. Inr s) cfg ev s = Inr (Go ((after_receive s (ev_idx ev) c' r)
      \<lparr>thr_stats := add_throughput_rx_sample (ev_measuring ev) r (thr_stats (after_receive s (ev_idx ev) c' r))\<rparr>))"
    using on_readable_serves [OF assms(1-3) True, of False "\<lambda>_ _ s. Inr s"] by auto
  have "thr_stats (after_receive s (ev_idx ev) c' r) = thr_stats s" by (simp add: after_receive_def)
  moreover have "0 < m" using assms(1) by (simp add: app_ready_def)
  ultimately show ?thesis
    using served_traffic [OF assms(2,3) _ assms(5) got True] run ev by (simp add: throughput_event_def received_obs_def)
next
  case False
  then have ev: "ev_in ev" "ev_ret ev = 0 \<or> ev_ret ev < 0 \<and> \<not> ev_block ev" using assms(4) by (auto simp: event_ok_def)
  let ?s' = "close_conn s (ev_idx ev)"
  have run: "throughput_event cfg ev s = Inr (if ev_ret ev = 0 then Go ?s' else Stop s)"
    using on_readable_no_data [OF assms(3) ev(2)] ev(1) by (simp add: throughput_event_def)
  have "streams_of ?s' = (streams_of s)[ev_idx ev := (stream_of (connections s ! ev_idx ev))\<lparr>str_open := False\<rparr>]"
    by (simp add: streams_of_def close_conn_def map_update stream_of_def)
  moreover have "thr_stats ?s' = thr_stats s" by (simp add: close_conn_def)
  ultimately have "traffic_refined m b [Closed (ev_idx ev)] s ?s'"
    using thread_ok_close [OF assms(2,3)] assms(3)
    by (auto simp: traffic_refined_def streams_of_nth length_streams_of counts_along_def elim: tally.elims)
      (rename_tac c k, case_tac k, simp_all)
  then show ?thesis
    using run ev(2) traffic_refined_same [OF assms(2), of s b] by (auto simp: received_obs_def)
qed

lemma throughput_events_traffic:
  assumes "app_ready cfg m" and "thread_ok m s" and "events_ok (throughput_event cfg) (event_ok m) evs s"
    and "b \<longrightarrow> (\<forall>ev \<in> set evs. ev_measuring ev)"
  shows "\<exists>r. event_loop (throughput_event cfg) evs s = Inr r \<and> traffic_refined m b (all_received_obs m cfg evs s) s (step_state r)"
  using assms(2-4)
proof (induction evs arbitrary: s)
  case Nil
  then show ?case using traffic_refined_same [of m s s b] by simp
next
  case (Cons ev evs)
  obtain r1 where r1: "throughput_event cfg ev s = Inr r1" "traffic_refined m b (received_obs m ev) s (step_state r1)"
    using throughput_event_traffic [OF assms(1) Cons.prems(1), of ev b] Cons.prems(2,3) by auto
  show ?case
  proof (cases r1)
    case (Stop s1)
    then show ?thesis using r1 by simp
  next
    case (Go s1)
    have "thread_ok m s1" using r1(2) Go by (simp add: traffic_refined_def)
    moreover have "events_ok (throughput_event cfg) (event_ok m) evs s1" using Cons.prems(2) r1(1) Go by simp
    ultimately obtain r where "event_loop (throughput_event cfg) evs s1 = Inr r"
      "traffic_refined m b (all_received_obs m cfg evs s1) s1 (step_state r)" using Cons.IH Cons.prems(3) by auto
    with r1 Go show ?thesis using traffic_refined_trans by fastforce
  qed
qed

lemma throughput_iter_traffic:
  assumes "app_ready cfg m" and "thread_ok m s" and "threads_conns cfg s" and "traffic_obeys m cfg st e s"
    and "b \<longrightarrow> same_flag True e"
  shows "\<exists>r. throughput_iter cfg e s = Inr r \<and> traffic_refined m b (traffic_obs m cfg st e s) s (step_state r)"
proof (cases "ie_load e")
  case False
  then show ?thesis
    using assms(2) traffic_refined_same [of m "s\<lparr>next_tx := ie_idle_now e\<rparr>" s b]
    by (simp add: throughput_iter_def traffic_obs_def thread_ok_def)
next
  case True
  have "\<forall>x \<in> set (ie_sends e). send_ok cfg s x \<and> (b \<longrightarrow> se_measuring x)"
    using assms(4,5) by (auto simp: traffic_obeys_def same_flag_def)
  from one_send_traffic [OF assms(2,3) this] obtain r1 where
    r1: "one_send No_stamp cfg (ie_sends e) s = Inr r1" "traffic_refined m b (requested_obs cfg (ie_sends e) s) s (step_state r1)"
    by blast
  show ?thesis
  proof (cases r1)
    case (Stop s1)
    then show ?thesis using True r1 by (simp add: throughput_iter_def then_events_def traffic_obs_def)
  next
    case (Go s1)
    have ok: "thread_ok m s1" using r1(2) Go by (simp add: traffic_refined_def)
    have evs: "events_ok (throughput_event cfg) (event_ok m) (ie_events e) s1" "b \<longrightarrow> (\<forall>ev \<in> set (ie_events e). ev_measuring ev)"
      using assms(4,5) r1(1) Go by (auto simp: traffic_obeys_def same_flag_def)
    from throughput_events_traffic [OF assms(1) ok this] r1 Go show ?thesis
      using True traffic_refined_trans by (fastforce simp: throughput_iter_def then_events_def traffic_obs_def)
  qed
qed

end
