(* ===== verification/Throughput_Run.thy ===== *)
theory Throughput_Run
  imports Traffic Agent_Examples
begin

text \<open>
  The throughput agent as a whole. A loop whose iterations count what its client does extends the contract
  of \<open>Agent_Loop\<close>; for an agent with such a loop the throughput report holds what its clients have done since
  \<open>START_MEASURE\<close>. The loop of the throughput agent is one.
\<close>

subsection \<open>Loops that count\<close>

definition counter_total :: "counter \<Rightarrow> manager_state \<Rightarrow> u64" where
  "counter_total k S = (\<Sum>l\<leftarrow>all_stats (mg_stats S). counted_in k l)"

lemma counter_totals:
  "counter_total Received_bytes S = rx_total br_bytes S" "counter_total Sent_bytes S = tx_total br_bytes S"
  "counter_total Responses S = rx_total br_reqs S"
  by (simp_all add: counter_total_def rx_total_def tx_total_def)

lemma counter_total_put:
  assumes "registered i S"
  shows "counter_total k (put i v S) - counted_in k (fst v) = counter_total k S - counted_in k (fst (element i S))"
proof -
  have "i < length (all_stats (mg_stats S))" using assms by (simp add: registered_def)
  from sum_list_update_group [OF this, of "counted_in k" "fst v"] show ?thesis
    by (simp add: counter_total_def put_def element_def algebra_simps)
qed

text \<open>What the clients say of themselves, \<open>told\<close> of each, together.\<close>

definition told_total :: "(counter \<Rightarrow> 'c \<Rightarrow> u64) \<Rightarrow> counter \<Rightarrow> 'c list \<Rightarrow> u64" where
  "told_total told k cs = (\<Sum>c\<leftarrow>cs. told k c)"

lemma diff_chain:
  fixes a b :: u64
  assumes "a' - x' = a - x" and "b' - y' = b - y" and "x' - y' = x - y"
  shows "a' - b' = a - b"
proof -
  have "a' - b' = (a' - x') + (x' - y') - (b' - y')" by simp
  also have "\<dots> = (a - x) + (x - y) - (b - y)" by (simp only: assms)
  finally show ?thesis by simp
qed

locale counting_loop = measuring_loop L run sent rel
  for L :: "('v, 'e) agent_loop" and run :: "'e list \<Rightarrow> 'c \<Rightarrow> ('c \<times> response_time list) option"
    and sent :: "'e list \<Rightarrow> 'c \<Rightarrow> timespec list" and rel :: "thread_state \<Rightarrow> 'c \<Rightarrow> bool" +
  fixes told :: "counter \<Rightarrow> 'c \<Rightarrow> u64"
  assumes counts: "app_ready cfg m \<Longrightarrow> al_ok L m s \<Longrightarrow> threads_conns cfg s \<Longrightarrow> rel s c \<Longrightarrow> al_obeys L m cfg st e s \<Longrightarrow>
      al_flags L l True e \<Longrightarrow> al_iter L cfg st e s = Inr r \<Longrightarrow> run (al_obs L m cfg st e s) c = Some (c', xs) \<Longrightarrow>
      counted_in k (thr_stats (step_state r)) - told k c' = counted_in k (thr_stats s) - told k c"
begin

lemma agent_iter_counts:
  assumes "agent_inv L m cfg (S, ts)" and "related rel ts cs" and "app_ready cfg m" and "turn_obeys L m (i, e) (S, ts)"
    and "agents_should_measure S" and "agent_iter L (i, e) (S, ts) = Inr (S', ts')"
    and "clients_run run [(i, turn_obs L m (i, e) (S, ts))] cs = Some (cs', ys)"
  shows "counter_total k S' - told_total told k cs' = counter_total k S - told_total told k cs"
proof -
  have i: "i < length ts" "i < length cs" using assms(2,4) by (simp_all add: turn_obeys.simps related_def)
  obtain c' xs where c': "run (turn_obs L m (i, e) (S, ts)) (cs ! i) = Some (c', xs)" "cs' = cs[i := c']"
    using assms(7) i(2) by (auto simp: Option.bind_eq_Some_conv)
  have "told_total told k cs' + told k (cs ! i) = told_total told k cs + told k c'"
    using sum_list_update_group [OF i(2), of "told k" c'] by (simp add: told_total_def c'(2))
  then have upd: "told_total told k cs' - told k c' = told_total told k cs - told k (cs ! i)" by (simp add: algebra_simps)
  show ?thesis
  proof (cases "ts ! i")
    case (Stop s)
    then show ?thesis using assms(6) i c' upd by (simp add: agent_iter.simps turn_obs.simps run_nothing)
  next
    case (Go s)
    let ?s = "load_view i S s"
    obtain r where r: "al_iter L (mg_cfg S) (mg_stats S) e ?s = Inr r" and S': "S' = put i (stats_view (step_state r)) S"
      using assms(6) i(1) Go by (auto simp: agent_iter.simps c_result_simps)
    have inv: "same_wire cfg (mg_cfg S)" using assms(1) by (simp add: agent_inv_def)
    have "thread_inv L m cfg s" using assms(1) Go i nth_mem [OF i(1)] unfolding agent_inv_def by fastforce
    then have s: "al_ok L m ?s" "threads_conns (mg_cfg S) ?s"
      using ok_view same_wire_ready(2) [OF inv, of ?s] by (simp_all add: thread_inv_def)
    have ready: "app_ready (mg_cfg S) m" using assms(3) same_wire_ready(1) [OF inv] by simp
    have "rel (step_state (ts ! i)) (cs ! i)" using assms(2) i(1) by (simp add: related_def)
    then have rel: "rel ?s (cs ! i)" using Go rel_view [of ?s s] by (simp add: load_view_fields)
    have obeys: "al_flags L (agents_should_load S) True e" "al_obeys L m (mg_cfg S) (mg_stats S) e ?s"
      using assms(4,5) Go by (simp_all add: turn_obeys.simps)
    have "run (al_obs L m (mg_cfg S) (mg_stats S) e ?s) (cs ! i) = Some (c', xs)" using c'(1) Go by (simp add: turn_obs.simps)
    from counts [OF ready s rel obeys(2,1) r this] have
      "counted_in k (thr_stats (step_state r)) - told k c' = counted_in k (thr_stats ?s) - told k (cs ! i)" .
    moreover have "counter_total k S' - counted_in k (thr_stats (step_state r)) = counter_total k S - counted_in k (thr_stats ?s)"
      using counter_total_put [OF inv_registered [OF assms(1) i(1)], of k "stats_view (step_state r)"]
      by (simp add: S' load_view_def stats_view_def)
    ultimately show ?thesis using diff_chain [OF _ upd] by blast
  qed
qed

lemma agent_iters_count:
  assumes "agent_inv L m cfg (S, ts)" and "related rel ts cs" and "app_ready cfg m" and "turns_obey L m turns (S, ts)"
    and "agents_should_measure S"
  shows "\<exists>S' ts' cs' ys. agent_iters L turns (S, ts) = Inr (S', ts') \<and> related rel ts' cs'
    \<and> clients_run run (turns_obs L m turns (S, ts)) cs = Some (cs', ys)
    \<and> (\<forall>k. counter_total k S' - told_total told k cs' = counter_total k S - told_total told k cs)
    \<and> mg_cfg S' = mg_cfg S \<and> start_measure_time S' = start_measure_time S \<and> agents_should_measure S'"
  using assms(1,2,4,5)
proof (induction turns arbitrary: S ts cs)
  case Nil
  then show ?case by simp
next
  case (Cons x turns)
  obtain i e where x: "x = (i, e)" by (cases x)
  have obeys: "turn_obeys L m (i, e) (S, ts)" using Cons.prems(3) x by simp
  from agent_iter_refines [OF Cons.prems(1,2) assms(3) this] obtain S1 ts1 cs1 xs v where
    step: "agent_iter L (i, e) (S, ts) = Inr (S1, ts1)" and inv: "agent_inv L m cfg (S1, ts1)" "related rel ts1 cs1"
    and S1: "S1 = put i v S" and obs: "clients_run run [(i, turn_obs L m (i, e) (S, ts))] cs = Some (cs1, map (Pair i) xs)"
    by blast
  note count = agent_iter_counts [OF Cons.prems(1,2) assms(3) obeys Cons.prems(4) step obs]
  have "turns_obey L m turns (S1, ts1)" "agents_should_measure S1" using Cons.prems(3,4) step x S1 by simp_all
  from Cons.IH [OF inv this] obtain S' ts' cs' ys where
    rest: "agent_iters L turns (S1, ts1) = Inr (S', ts')" "related rel ts' cs'"
    "clients_run run (turns_obs L m turns (S1, ts1)) cs1 = Some (cs', ys)"
    "\<forall>k. counter_total k S' - told_total told k cs' = counter_total k S1 - told_total told k cs1"
    "mg_cfg S' = mg_cfg S1" "start_measure_time S' = start_measure_time S1" "agents_should_measure S'" by blast
  have "clients_run run (turns_obs L m (x # turns) (S, ts)) cs = Some (cs', map (Pair i) xs @ ys)"
    using clients_run_Cons [OF obs rest(3)] step x by simp
  then show ?case using rest count step x by (simp add: S1 put_def)
qed

text \<open>From \<open>START_MEASURE\<close> over any turns of the threads to the report.\<close>

lemma report_counts:
  assumes "loop_ready L m cfg" and "agent_reach L enc m cfg (S, ts)" and "related rel ts cs" and "\<forall>k. told_total told k cs = 0"
    and "al_type L \<in> {THROUGHPUT_AGENT, LATENCY_AGENT, SYMMETRIC_AGENT}"
    and "delivers env1 START_MEASURE n" and "me_sampling env1 = (8, d)" and "length d = 8"
    and "manager_message enc env1 S = Inr (Continue, ack, S1)"
    and "turns_obey L m turns (S1, ts)" and "delivers env2 REPORT_REQ REPORT_THROUGHPUT"
  shows "\<exists>S2 ts2 cs2 ys out S3. agent_iters L turns (S1, ts) = Inr (S2, ts2) \<and> related rel ts2 cs2
    \<and> clients_run run (turns_obs L m turns (S1, ts)) cs = Some (cs2, ys)
    \<and> manager_message enc env2 S2 = Inr (Continue, out, S3)
    \<and> parse_u64s 4 (drop 12 out) = [told_total told Received_bytes cs2, told_total told Sent_bytes cs2, told_total told Responses cs2,
        word_of_int (me_time env2 - me_time env1)]"
proof -
  have inv: "agent_inv L m cfg (S, ts)" using agent_reach_inv [OF assms(1,2)] by simp
  have count: "0 < cfg_thread_count (mg_cfg S)" and atype: "cfg_atype (mg_cfg S) = al_type L" and ready: "app_ready cfg m"
    using inv assms(1) by (auto simp: agent_inv_def same_wire_def loop_ready_def sys_inv_def)
  obtain ref where S1: "S1 = S\<lparr>mg_stats := (clear_all_stats (cfg_atype (mg_cfg S)) (mg_stats S))
        \<lparr>per_thread_samples := requested_per_thread n (mg_cfg S), sampling_rate := double_of_bytes d / Fin 100, reference_ia := ref\<rparr>,
      start_measure_time := me_time env1, agents_should_measure := True\<rparr>"
    using start_measure_cleared(1) [OF assms(6-8) count assms(9)] by blast
  have "cfg_atype (mg_cfg S) \<noteq> AGENT_NR" using assms(5) atype by auto
  from cleared_totals [OF _ this, of S1] S1 have zero: "counter_total k S1 = 0" for k
    by (cases k) (simp_all add: counter_totals zero_pair_def)
  have "0 < per_thread_samples (mg_stats S1)"
    using start_measure_cleared(2) [OF assms(6-8) count assms(9)] by (simp add: S1)
  with message_inv [OF inv assms(9)] have "agent_inv L m cfg (S1, ts)" by simp
  moreover have "agents_should_measure S1" by (simp add: S1)
  ultimately obtain S2 ts2 cs2 ys where
    iters: "agent_iters L turns (S1, ts) = Inr (S2, ts2)" "related rel ts2 cs2"
    and obs: "clients_run run (turns_obs L m turns (S1, ts)) cs = Some (cs2, ys)"
    and diff: "\<forall>k. counter_total k S2 - told_total told k cs2 = counter_total k S1 - told_total told k cs"
    and same: "mg_cfg S2 = mg_cfg S1" "start_measure_time S2 = start_measure_time S1" "agents_should_measure S2"
    using agent_iters_count [OF _ assms(3) ready assms(10)] by blast
  have told: "counter_total k S2 = told_total told k cs2" for k
  proof -
    have "counter_total k S2 - told_total told k cs2 = 0" using diff zero assms(4) by simp
    then show ?thesis by simp
  qed
  have "cfg_atype (mg_cfg S2) \<in> {THROUGHPUT_AGENT, LATENCY_AGENT, SYMMETRIC_AGENT}" using assms(5) same(1) atype by (simp add: S1)
  moreover have "measured_time env2 S2 = me_time env2 - me_time env1" using same(2,3) by (simp add: measured_time_def S1)
  ultimately obtain out S3 where "manager_message enc env2 S2 = Inr (Continue, out, S3)"
    "parse_u64s 4 (drop 12 out) = [told_total told Received_bytes cs2, told_total told Sent_bytes cs2, told_total told Responses cs2,
        word_of_int (me_time env2 - me_time env1)]"
    using throughput_report_parses [OF assms(11), of S2 enc] unfolding told [symmetric] counter_total_def counted_in.simps by metis
  with iters obs show ?thesis by blast
qed

end

subsection \<open>The loop of the throughput agent\<close>

definition throughput_loop :: "(iter_env, traffic) agent_loop" where
  "throughput_loop = \<lparr>al_type = THROUGHPUT_AGENT, al_opened = opened, al_ok = thread_ok, al_iter = \<lambda>cfg _. throughput_iter cfg,
     al_flags = sees_flags, al_obeys = traffic_obeys, al_obs = traffic_obs\<rparr>"

lemma throughput_loop_simps [simp]:
  "al_type throughput_loop = THROUGHPUT_AGENT" "al_iter throughput_loop cfg st = throughput_iter cfg"
  "al_obeys throughput_loop = traffic_obeys" "al_obs throughput_loop = traffic_obs" "al_opened throughput_loop = opened"
  "al_ok throughput_loop = thread_ok" "al_flags throughput_loop = sees_flags" "\<not> stamps_load throughput_loop"
  by (simp_all add: throughput_loop_def stamps_load_def)

definition traffic_rel :: "thread_state \<Rightarrow> traffic_client \<Rightarrow> bool" where
  "traffic_rel s c \<longleftrightarrow> tr_streams c = streams_of s"

text \<open>The client when the measurement starts.\<close>

definition fresh_client :: "thread_state \<Rightarrow> traffic_client" where
  "fresh_client s = \<lparr>tr_streams = streams_of s, tr_received = 0, tr_sent = 0, tr_responses = 0\<rparr>"

lemma fresh_client [simp]: "traffic_rel s (fresh_client s)" "tally k (fresh_client s) = 0"
  by (simp add: traffic_rel_def fresh_client_def, cases k) (simp_all add: fresh_client_def)

interpretation throughput_agent: counting_loop throughput_loop traffic_run "\<lambda>_ _. []" traffic_rel "\<lambda>k c. word_of_nat (tally k c)"
proof (unfold_locales, goal_cases)
  case (1 m cfg t)
  then have "thread_inv throughput_loop m cfg (step_state t)" using opened_inv [OF 1(1) throughput_loop_simps(6)] by simp
  then show ?case using fresh_client(1) by blast
next
  case 2
  then show ?case by simp
next
  case 3
  then show ?case by simp
next
  case 4
  then show ?case by simp
next
  case (5 s' s c)
  then show ?case by (simp add: traffic_rel_def streams_of_def)
next
  case (6 cfg m s c st e l k)
  then obtain r where r: "throughput_iter cfg e s = Inr r" "traffic_refined m False (traffic_obs m cfg st e s) s (step_state r)"
    using throughput_iter_traffic [OF 6(1), of s st e False] by auto
  then obtain c' where "traffic_run (traffic_obs m cfg st e s) c = Some (c', [])" "traffic_rel (step_state r) c'"
    "thread_ok m (step_state r)"
    using 6(4) by (auto simp: traffic_refined_def traffic_rel_def)
  moreover have "threads_conns cfg (step_state r)" using 6(3) throughput_iter_length [OF r(1)] by (auto simp: threads_conns_def)
  moreover have "\<exists>ts. sees_flags l True e \<longrightarrow> records_measured st k [] ts (stats_view s) (stats_view (step_state r))"
    using throughput_iter_records [OF r(1), of True st THROUGHPUT_AGENT k] records_latencies_Nil
    by (auto simp: sees_flags_def records_latencies_measured)
  ultimately show ?case using r(1) by (auto simp: kept_def)
next
  case (7 cfg st e s r l b k)
  then show ?case using throughput_iter_records [of cfg e s r b st THROUGHPUT_AGENT k] by (simp add: sees_flags_def)
next
  case (8 cfg m s c st e l r c' xs k)
  then have "same_flag True e" by (simp add: sees_flags_def)
  with 8 obtain r' where "throughput_iter cfg e s = Inr r'" "traffic_refined m True (traffic_obs m cfg st e s) s (step_state r')"
    using throughput_iter_traffic [OF 8(1), of s st e True] by auto
  then have "counts_along (thr_stats s) c (thr_stats (step_state r)) c'"
    using 8(4,7,8) by (auto simp: traffic_refined_def traffic_rel_def)
  then show ?case by (simp add: counts_along_def)
qed

lemma related_traffic: "related traffic_rel ts cs \<longleftrightarrow> map tr_streams cs = map (\<lambda>t. streams_of (step_state t)) ts"
proof
  assume "related traffic_rel ts cs"
  then show "map tr_streams cs = map (\<lambda>t. streams_of (step_state t)) ts"
    by (intro nth_equalityI) (simp_all add: related_def traffic_rel_def)
next
  assume eq: "map tr_streams cs = map (\<lambda>t. streams_of (step_state t)) ts"
  then have len: "length cs = length ts" by (metis length_map)
  have "tr_streams (cs ! i) = streams_of (step_state (ts ! i))" if "i < length ts" for i
    using arg_cong [OF eq, of "\<lambda>xs. xs ! i"] len that by simp
  then show "related traffic_rel ts cs" using len by (simp add: related_def traffic_rel_def)
qed

subsection \<open>Properties\<close>

text \<open>
  C4. The throughput the coordinator is told is the traffic there was. In any state a throughput agent can
  reach, with any number of threads and any interleaving of their iterations: after \<open>START_MEASURE\<close> the
  iterations never fail, what the threads send and receive is a run of one abstract client per thread, which
  takes the responses from byte streams, whatever pieces they come in as long as every read completes one;
  and the throughput report that follows holds the bytes of the completed responses, the bytes of the
  requests, the number of completed responses, and the time between the two messages.
\<close>

theorem throughput_report_describes_traffic:
  assumes "loop_ready throughput_loop m cfg" and "agent_reach throughput_loop enc m cfg (S, ts)"
    and "delivers env1 START_MEASURE n" and "me_sampling env1 = (8, d)" and "length d = 8"
    and "manager_message enc env1 S = Inr (Continue, ack, S1)"
    and "turns_obey throughput_loop m turns (S1, ts)" and "delivers env2 REPORT_REQ REPORT_THROUGHPUT"
  shows "\<exists>S2 ts2 cs ys out S3. agent_iters throughput_loop turns (S1, ts) = Inr (S2, ts2)
    \<and> clients_run traffic_run (turns_obs throughput_loop m turns (S1, ts)) (map (\<lambda>t. fresh_client (step_state t)) ts) = Some (cs, ys)
    \<and> map tr_streams cs = map (\<lambda>t. streams_of (step_state t)) ts2
    \<and> manager_message enc env2 S2 = Inr (Continue, out, S3)
    \<and> parse_u64s 4 (drop 12 out) = [word_of_nat (\<Sum>c\<leftarrow>cs. tr_received c), word_of_nat (\<Sum>c\<leftarrow>cs. tr_sent c),
        word_of_nat (\<Sum>c\<leftarrow>cs. tr_responses c), word_of_int (me_time env2 - me_time env1)]"
proof -
  let ?cs = "map (\<lambda>t. fresh_client (step_state t)) ts"
  have total: "told_total (\<lambda>k c. word_of_nat (tally k c)) k cs = word_of_nat (\<Sum>c\<leftarrow>cs. tally k c)" for k cs
    by (induction cs) (simp_all add: told_total_def)
  have "related traffic_rel ts ?cs" by (simp add: related_def)
  moreover have "\<forall>k. told_total (\<lambda>k c. word_of_nat (tally k c)) k ?cs = 0" by (simp add: told_total_def sum_list_zeros)
  moreover have "al_type throughput_loop \<in> {THROUGHPUT_AGENT, LATENCY_AGENT, SYMMETRIC_AGENT}" by simp
  ultimately obtain S2 ts2 cs ys out S3 where "agent_iters throughput_loop turns (S1, ts) = Inr (S2, ts2)"
    and "related traffic_rel ts2 cs" and "clients_run traffic_run (turns_obs throughput_loop m turns (S1, ts)) ?cs = Some (cs, ys)"
    and "manager_message enc env2 S2 = Inr (Continue, out, S3)"
    and "parse_u64s 4 (drop 12 out) = [told_total (\<lambda>k c. word_of_nat (tally k c)) Received_bytes cs,
      told_total (\<lambda>k c. word_of_nat (tally k c)) Sent_bytes cs, told_total (\<lambda>k c. word_of_nat (tally k c)) Responses cs,
      word_of_int (me_time env2 - me_time env1)]"
    using throughput_agent.report_counts [OF assms(1,2) _ _ _ assms(3-8)] by blast
  then show ?thesis unfolding total related_traffic tally.simps by blast
qed

subsection \<open>Three requests and a response in two pieces\<close>

text \<open>
  One request an iteration; then nothing, the first response and half of the second, and the rest of it are
  read.
\<close>

definition ex_cfg_thr :: agent_config where
  "ex_cfg_thr = ex_cfg_run\<lparr>cfg_atype := THROUGHPUT_AGENT\<rparr>"

definition ex_cfg_thr_loaded :: agent_config where
  "ex_cfg_thr_loaded = ex_cfg_loaded\<lparr>cfg_atype := THROUGHPUT_AGENT\<rparr>"

definition ex_piece :: "nat \<Rightarrow> epoll_event" where
  "ex_piece n = ex_event\<lparr>ev_ret := int n, ev_data := replicate n 0\<rparr>"

definition ex_traffic_env :: "nat \<Rightarrow> iter_env" where
  "ex_traffic_env n = \<lparr>ie_load = True, ie_idle_now = 0, ie_sends = [ex_turn_send], ie_events = (if n = 0 then [] else [ex_piece n])\<rparr>"

definition ex_streaming :: "nat \<Rightarrow> nat \<Rightarrow> nat \<Rightarrow> agent \<Rightarrow> bool" where
  "ex_streaming k w p A \<longleftrightarrow> (\<exists>S s. A = (S, [Go s]) \<and> agent_inv throughput_loop 8 ex_cfg_thr A \<and> mg_cfg S = ex_cfg_thr_loaded
     \<and> agents_should_load S \<and> agents_should_measure S \<and> streams_of s = [\<lparr>str_open = True, str_waiting = w, str_partial = p\<rparr>]
     \<and> next_tx s = int k * 10 ^ 6)"

lemma ex_thr_ready: "app_ready ex_cfg_thr_loaded 8" "loop_ready throughput_loop 8 ex_cfg_thr"
  using ex_configs_ready(1) ex_configs_ready(2) [of throughput_loop THROUGHPUT_AGENT]
  by (simp_all add: ex_cfg_thr_def ex_cfg_thr_loaded_def)

lemmas ex_thr_request = ex_request [where a = THROUGHPUT_AGENT, folded ex_cfg_thr_loaded_def]

text \<open>What is read after the request of a turn, and what that leaves.\<close>

definition ex_piece_ok :: "nat \<Rightarrow> nat \<Rightarrow> nat \<Rightarrow> bool" where
  "ex_piece_ok w p n \<longleftrightarrow> w < 16 \<and> (n = 0 \<or> 8 \<le> p + n \<and> p + n \<le> (w + 1) * 8)"

lemma ex_piece_read:
  assumes "thread_ok 8 s" and "connections s = [c]" and "stream_of c = \<lparr>str_open = True, str_waiting = w + 1, str_partial = p\<rparr>"
    and "ex_piece_ok w p n" and "0 < n"
  shows "serves 8 (connections s ! ev_idx (ex_piece n)) (ex_piece n) \<and> (\<exists>s'. throughput_event ex_cfg_thr_loaded (ex_piece n) s = Inr (Go s')
    \<and> next_tx s' = next_tx s \<and> streams_of s' = [\<lparr>str_open = True, str_waiting = w + 1 - (p + n) div 8, str_partial = (p + n) mod 8\<rparr>])"
proof -
  let ?ev = "ex_piece n"
  have c: "unat (tc_pending c) = w + 1" "unat (tc_buffer_idx c) = p" "\<not> tc_closed c" using assms(3) by (simp_all add: stream_of_def)
  have ev: "ev_idx ?ev = 0" "ev_in ?ev" "ev_ret ?ev = int n" "length (ev_data ?ev) = n" by (simp_all add: ex_piece_def ex_event_def)
  have n: "8 \<le> p + n" "p + n \<le> (w + 1) * 8" "p + n \<le> MAX_PAYLOAD"
    using assms(4,5) by (auto simp: ex_piece_ok_def MAX_PAYLOAD_def)
  have serve: "serves 8 (connections s ! ev_idx ?ev) ?ev"
    using n assms(5) c by (simp add: serves_def arrived_def ev assms(2))
  have "ev_idx ?ev < length (connections s)" by (simp add: ev assms(2))
  from on_readable_serves [OF ex_thr_ready(1) assms(1) this serve, of False "\<lambda>_ _ s. Inr s"] obtain c' r where
    got: "received_ok 8 (connections s ! ev_idx ?ev) ?ev c' r"
    and run: "on_readable False (\<lambda>_ _ s. Inr s) ex_cfg_thr_loaded ?ev s = Inr (Go ((after_receive s (ev_idx ?ev) c' r)
      \<lparr>thr_stats := add_throughput_rx_sample (ev_measuring ?ev) r (thr_stats (after_receive s (ev_idx ?ev) c' r))\<rparr>))"
    by auto
  have "stream_of c' = \<lparr>str_open = True, str_waiting = w + 1 - (p + n) div 8, str_partial = (p + n) mod 8\<rparr>"
    using got c by (simp add: received_ok_def arrived_def ev assms(2) stream_of_def)
  then show ?thesis using serve run ev by (simp add: throughput_event_def after_receive_def streams_of_def assms(2))
qed

lemma ex_stream_turn:
  assumes "ex_streaming k w p A" and "k < 1000" and "ex_piece_ok w p n"
  shows "turn_obeys throughput_loop 8 (0, ex_traffic_env n) A
    \<and> turn_obs throughput_loop 8 (0, ex_traffic_env n) A = Requested 0 8 # (if n = 0 then [] else [Received 0 n 8])
    \<and> (\<exists>A'. agent_iter throughput_loop (0, ex_traffic_env n) A = Inr A'
        \<and> ex_streaming (Suc k) (if n = 0 then w + 1 else w + 1 - (p + n) div 8) (if n = 0 then p else (p + n) mod 8) A')"
proof -
  obtain S s where A: "A = (S, [Go s])" and inv: "agent_inv throughput_loop 8 ex_cfg_thr A" and cfg: "mg_cfg S = ex_cfg_thr_loaded"
    and flags: "agents_should_load S" "agents_should_measure S"
    and streams: "streams_of s = [\<lparr>str_open = True, str_waiting = w, str_partial = p\<rparr>]" and next_tx: "next_tx s = int k * 10 ^ 6"
    using assms(1) unfolding ex_streaming_def by blast
  obtain c where c: "connections s = [c]" "stream_of c = \<lparr>str_open = True, str_waiting = w, str_partial = p\<rparr>"
    using streams by (auto simp: streams_of_def map_eq_Cons_conv)
  then have conn: "unat (tc_pending c) = w" "unat (tc_buffer_idx c) = p" "\<not> tc_closed c" by (simp_all add: stream_of_def)
  let ?t = "load_view 0 S s" and ?e = ex_turn_send
  have view: "connections ?t = [c]" "next_tx ?t = int k * 10 ^ 6" by (simp_all add: load_view_def c next_tx)
  have "thread_inv throughput_loop 8 ex_cfg_thr s" using inv by (simp add: agent_inv_def A)
  then have t: "thread_ok 8 ?t" by (simp add: thread_inv_def)
  have room: "unat (tc_pending c) < MAX_PENDING_REQS" using assms(3) conn by (simp add: ex_piece_ok_def MAX_PENDING_REQS_def)
  have se: "se_now ?e = 10 ^ 12" "se_ret ?e = 8" "se_block ?e = False" "se_measuring ?e = True"
    by (simp_all add: ex_turn_send_def)
  have due: "next_tx ?t \<le> se_now ?e" using assms(2) by (simp add: view se)
  have pick: "pick_conn ex_cfg_thr_loaded (se_rands ?e) [c] = Inr (Some 0)"
    using ex_pick_free [OF room conn(3)] by (simp add: ex_cfg_thr_loaded_def)
  define s1 where "s1 = sent_on ?t 0 ?e (Arg_long 1) (10 ^ 6)"
  have sent: "one_send No_stamp ex_cfg_thr_loaded [?e] ?t = Inr (Go s1)"
    using due ex_thr_request ex_request_size se
    by (simp add: one_send_def try_send_def pick send_on_def Let_def s1_def sent_on_def case_prod_unfold view)
  have s1: "thread_ok 8 s1" unfolding s1_def by (rule thread_ok_sent [OF t]) (use room in \<open>simp_all add: view\<close>)
  let ?c1 = "c\<lparr>tc_pending := tc_pending c + 1\<rparr>"
  have fields: "connections s1 = [?c1]" "next_tx s1 = int (Suc k) * 10 ^ 6" by (simp_all add: s1_def sent_on_def view)
  have c1: "stream_of ?c1 = \<lparr>str_open = True, str_waiting = w + 1, str_partial = p\<rparr>"
    using conn unat_pending_Suc [OF room] by (simp add: stream_of_def)
  let ?evs = "ie_events (ex_traffic_env n)" and ?w = "if n = 0 then w + 1 else w + 1 - (p + n) div 8"
    and ?p = "if n = 0 then p else (p + n) mod 8"
  have "ev_idx (ex_piece n) = 0" "ev_ret (ex_piece n) = int n" "ev_measuring (ex_piece n)" "ev_in (ex_piece n)" by (simp_all add: ex_piece_def ex_event_def)
  note piece = this ex_piece_read [OF s1 fields(1) c1 assms(3)]
  have evs: "events_ok (throughput_event ex_cfg_thr_loaded) (event_ok 8) ?evs s1" "\<forall>ev \<in> set ?evs. ev_measuring ev"
    "all_received_obs 8 ex_cfg_thr_loaded ?evs s1 = (if n = 0 then [] else [Received 0 n 8])"
    using piece fields(1) by (auto simp: ex_traffic_env_def event_ok_def received_obs_def split: sum.splits step.splits)
  obtain s2 where run: "event_loop (throughput_event ex_cfg_thr_loaded) ?evs s1 = Inr (Go s2)" and s2: "next_tx s2 = next_tx s1"
    "streams_of s2 = [\<lparr>str_open = True, str_waiting = ?w, str_partial = ?p\<rparr>]"
  proof (cases "n = 0")
    case True
    then show ?thesis using that [of s1] fields(1) c1 by (simp add: ex_traffic_env_def streams_of_def)
  next
    case False
    then show ?thesis using that piece(5) by (auto simp: ex_traffic_env_def)
  qed
  have env: "ie_load (ex_traffic_env n)" "ie_sends (ex_traffic_env n) = [?e]" by (simp_all add: ex_traffic_env_def)
  have obeys: "turn_obeys throughput_loop 8 (0, ex_traffic_env n) A"
    using sent evs(1,2) ex_thr_request ex_request_size se flags env
    by (simp add: A turn_obeys.simps traffic_obeys_def cfg sees_flags_def same_flag_def send_ok_def)
  have obs: "turn_obs throughput_loop 8 (0, ex_traffic_env n) A = Requested 0 8 # (if n = 0 then [] else [Received 0 n 8])"
    using sent evs(3) due env se by (simp add: A turn_obs.simps traffic_obs_def cfg requested_obs_def pick view)
  let ?A' = "(put 0 (stats_view s2) S, [Go s2])"
  have iter: "agent_iter throughput_loop (0, ex_traffic_env n) A = Inr ?A'"
    using sent env run by (simp add: A agent_iter.simps cfg throughput_iter_def then_events_def)
  have "app_ready ex_cfg_thr 8" using ex_thr_ready(2) by (simp add: loop_ready_def)
  moreover have "related traffic_rel [Go s] [fresh_client s]" by (simp add: related_def)
  ultimately have "agent_inv throughput_loop 8 ex_cfg_thr ?A'"
    using throughput_agent.agent_iter_refines [OF inv [unfolded A] _ _ obeys [unfolded A]] iter A by fastforce
  then have "ex_streaming (Suc k) ?w ?p ?A'"
    using flags cfg s2 fields(2) by (simp add: ex_streaming_def put_def)
  with obeys obs iter show ?thesis by blast
qed

lemma ex_thr_started:
  "\<exists>S s S1 out. agent_reach throughput_loop (\<lambda>_. []) 8 ex_cfg_thr (S, [Go s]) \<and> mg_cfg S = ex_cfg_thr_loaded
     \<and> manager_message (\<lambda>_. []) (ex_msg START_MEASURE 1000 7) S = Inr (Continue, out, S1) \<and> ex_streaming 0 0 0 (S1, [Go s])"
proof -
  let ?s = "ex_thread\<lparr>avail_reqs := 16, connections := [zero_connection], next_tx := 0\<rparr>"
  have "throughput_open_connections ex_cfg_thr True (\<lambda>_. Setup_ok) ex_thread
      = Inr (0, ex_thread\<lparr>avail_reqs := 16, connections := [zero_connection]\<rparr>, [\<lparr>ht_ip = 16777343, ht_port = 80\<rparr>])"
    by (simp add: throughput_open_connections_def per_thread_conn_def c_div_def ex_cfg_thr_def ex_cfg_run_def ex_cfg_def
        MAX_PENDING_REQS_def dest_of_def numeral_eq_Suc)
  then have "opened ex_cfg_thr (Go ?s)" unfolding opened_def by fastforce
  then obtain S S1 out where reach: "agent_reach throughput_loop (\<lambda>_. []) 8 ex_cfg_thr (S, [Go ?s])" and S: "mg_cfg S = ex_cfg_thr_loaded"
      "manager_message (\<lambda>_. []) (ex_msg START_MEASURE 1000 7) S = Inr (Continue, out, S1)"
    and S1: "mg_cfg S1 = ex_cfg_thr_loaded" "agents_should_load S1" "agents_should_measure S1" "per_thread_samples (mg_stats S1) = 1010"
    using ex_loop_started [of throughput_loop THROUGHPUT_AGENT ?s]
    unfolding ex_cfg_thr_def [symmetric] ex_cfg_thr_loaded_def [symmetric] by auto
  have "agent_inv throughput_loop 8 ex_cfg_thr (S1, [Go ?s])"
    using message_inv [of throughput_loop, OF _ S(2)] throughput_agent.agent_reach_inv [OF ex_thr_ready(2) reach] S1(4) by simp
  then have "ex_streaming 0 0 0 (S1, [Go ?s])"
    using S1 by (simp add: ex_streaming_def streams_of_def stream_of_def zero_connection_def)
  with reach S show ?thesis by blast
qed

theorem throughput_report_describes_traffic_witness:
  "\<exists>S2 out S3. manager_message (\<lambda>_. []) (ex_msg REPORT_REQ 0 12) S2 = Inr (Continue, out, S3)
     \<and> parse_u64s 4 (drop 12 out) = [16, 24, 2, 5]"
proof -
  let ?turns = "[(0, ex_traffic_env 0), (0, ex_traffic_env 12), (0, ex_traffic_env 4)]"
  obtain S s S1 out where S: "agent_reach throughput_loop (\<lambda>_. []) 8 ex_cfg_thr (S, [Go s])"
      "manager_message (\<lambda>_. []) (ex_msg START_MEASURE 1000 7) S = Inr (Continue, out, S1)"
    and A: "ex_streaming 0 0 0 (S1, [Go s])" using ex_thr_started by blast
  obtain A1 where A1: "turn_obeys throughput_loop 8 (0, ex_traffic_env 0) (S1, [Go s])"
      "turn_obs throughput_loop 8 (0, ex_traffic_env 0) (S1, [Go s]) = [Requested 0 8]"
      "agent_iter throughput_loop (0, ex_traffic_env 0) (S1, [Go s]) = Inr A1" "ex_streaming 1 1 0 A1"
    using ex_stream_turn [OF A, of 0] by (auto simp: ex_piece_ok_def)
  have two: "ex_piece_ok 1 0 12" by (simp add: ex_piece_ok_def)
  have after: "(if (12 :: nat) = 0 then 1 + 1 else 1 + 1 - (0 + 12) div 8) = (1 :: nat)"
    "(if (12 :: nat) = 0 then 0 else (0 + 12) mod 8) = (4 :: nat)" "Suc 1 = 2" by simp_all
  note turn = ex_stream_turn [OF A1(4) _ two, unfolded after]
  obtain A2 where A2: "turn_obeys throughput_loop 8 (0, ex_traffic_env 12) A1"
      "turn_obs throughput_loop 8 (0, ex_traffic_env 12) A1 = [Requested 0 8, Received 0 12 8]"
      "agent_iter throughput_loop (0, ex_traffic_env 12) A1 = Inr A2" "ex_streaming 2 1 4 A2"
    using turn by auto
  obtain A3 where A3: "turn_obeys throughput_loop 8 (0, ex_traffic_env 4) A2"
      "turn_obs throughput_loop 8 (0, ex_traffic_env 4) A2 = [Requested 0 8, Received 0 4 8]"
      "agent_iter throughput_loop (0, ex_traffic_env 4) A2 = Inr A3"
    using ex_stream_turn [OF A2(4), of 4] by (auto simp: ex_piece_ok_def)
  have obeys: "turns_obey throughput_loop 8 ?turns (S1, [Go s])" using A1 A2 A3 by simp
  have obs: "turns_obs throughput_loop 8 ?turns (S1, [Go s])
      = [(0, [Requested 0 8]), (0, [Requested 0 8, Received 0 12 8]), (0, [Requested 0 8, Received 0 4 8])]"
    using A1 A2 A3 by simp
  have "streams_of s = [\<lparr>str_open = True, str_waiting = 0, str_partial = 0\<rparr>]" using A by (simp add: ex_streaming_def)
  then have run: "clients_run traffic_run (turns_obs throughput_loop 8 ?turns (S1, [Go s])) (map (\<lambda>t. fresh_client (step_state t)) [Go s])
      = Some ([\<lparr>tr_streams = [\<lparr>str_open = True, str_waiting = 1, str_partial = 0\<rparr>], tr_received = 16, tr_sent = 24, tr_responses = 2\<rparr>], [])"
    unfolding obs by (simp add: fresh_client_def Let_def MAX_OUTSTANDING_def)
  have "delivers (ex_msg REPORT_REQ 0 12) REPORT_REQ REPORT_THROUGHPUT" by (simp add: REPORT_THROUGHPUT_def)
  from throughput_report_describes_traffic [OF ex_thr_ready(2) S(1) delivers_ex_msg ex_msg_fields(1) _ S(2) obeys this]
  show ?thesis unfolding run by (auto simp: ex_msg_fields(2))
qed

end
